(* ===== verification/Prelude.thy ===== *)
theory Prelude
  imports Main "HOL-Library.AList" "HOL-Library.Word"
begin

section \<open>Shared vocabulary of the development\<close>

text \<open>
  What every component of the model uses: the named collections its proofs draw on, Go's
  fixed-width integers as words, Go's string maps as association lists, and a few generic
  lemmas on lists and maps.

  \<^item> \<open>op_inv\<close>: inversion rules for a call that returned a given result;
  \<^item> \<open>eff_intro\<close>: introduction rules that compose effect (frame) facts along a program;
  \<^item> \<open>run_simps\<close>: equations that execute a program on a concrete state.
\<close>

named_theorems op_inv \<open>inversion rules for results of effectful programs\<close>
named_theorems eff_intro \<open>composition rules for effect relations\<close>
named_theorems run_simps \<open>equations that run a program\<close>

subsection \<open>Machine integers\<close>

text \<open>
  Go's \<open>int32\<close> is a 32-bit word read as two's complement; \<open>int\<close> and \<open>int64\<close> values that the
  program only stores, compares and prints are \<open>int\<close>. The conversion \<open>int32(n)\<close> of the source
  truncates, which is what \<open>word_of_int\<close> does; \<open>int(w)\<close> is \<open>sint\<close>.
\<close>

type_synonym int32 = "32 word"

definition int32_pos :: "int32 \<Rightarrow> bool" where
  \<comment> \<open>the source's \<open>w > 0\<close> on an \<open>int32\<close>\<close>
  "int32_pos w \<longleftrightarrow> 0 < sint w"

lemma sint_of_int32:
  assumes "- (2 ^ 31) \<le> n" and "n < 2 ^ 31"
  shows "sint (word_of_int n :: int32) = n"
  using assms by (simp add: sint_sbintrunc' signed_take_bit_int_eq_self)

lemma int32_pos_0 [simp]: "\<not> int32_pos 0"
  by (simp add: int32_pos_def)

lemma int32_pos_1 [simp]: "int32_pos 1"
  by (simp add: int32_pos_def)

subsection \<open>String maps\<close>

text \<open>
  A Go \<open>map[string]string\<close> is an association list; \<open>map_of\<close> looks a key up, \<open>AList.update\<close>
  assigns one, \<open>AList.delete\<close> is Go's \<open>delete\<close>.
\<close>

type_synonym string_map = "(string \<times> string) list"

abbreviation map_set :: "string \<Rightarrow> 'v \<Rightarrow> (string \<times> 'v) list \<Rightarrow> (string \<times> 'v) list" where
  "map_set k v m \<equiv> AList.update k v m"

abbreviation map_del :: "string \<Rightarrow> (string \<times> 'v) list \<Rightarrow> (string \<times> 'v) list" where
  "map_del k m \<equiv> AList.delete k m"

lemma map_of_map_set [simp]: "map_of (map_set k v m) = (map_of m)(k \<mapsto> v)"
  by (simp add: update_conv')

lemma map_of_map_del [simp]: "map_of (map_del k m) = (map_of m)(k := None)"
  by (simp add: delete_conv')

lemma map_set_twice [simp]: "map_set k v (map_set k w m) = map_set k v m"
  by (induction m) auto

subsection \<open>Lists\<close>

lemma list_all_append_iff: "list_all P (xs @ ys) \<longleftrightarrow> list_all P xs \<and> list_all P ys"
  by simp

lemma nth_enumerate_0: "i < length xs \<Longrightarrow> enumerate 0 xs ! i = (i, xs ! i)"
  by (simp add: nth_enumerate_eq)

end
