(* ===== verification/Op_Monad.thy ===== *)
theory Op_Monad
  imports Prelude
begin

section \<open>Effectful programs\<close>

text \<open>
  A Go function that talks to a server and may fail is a program \<open>('s, 'e, 'a) op\<close>: from a
  state it computes a result and the state it leaves. The result is a value, an error the
  function returned, or a panic (a nil map written, an index out of range), which unwinds
  through every caller. The state survives all three, as the server's state and the caller's
  object do in Go.
\<close>

datatype ('e, 'a) res = Ok 'a | Err 'e | Panic

type_synonym ('s, 'e, 'a) op = "'s \<Rightarrow> ('e, 'a) res \<times> 's"

definition ret :: "'a \<Rightarrow> ('s, 'e, 'a) op" where
  "ret x = (\<lambda>s. (Ok x, s))"

definition fail :: "'e \<Rightarrow> ('s, 'e, 'a) op" where
  "fail e = (\<lambda>s. (Err e, s))"

definition panic :: "('s, 'e, 'a) op" where
  "panic = (\<lambda>s. (Panic, s))"

text \<open>\<open>bnd\<close> is a call followed by Go's \<open>if err != nil \{ return \}\<close>.\<close>

definition bnd :: "('s, 'e, 'a) op \<Rightarrow> ('a \<Rightarrow> ('s, 'e, 'b) op) \<Rightarrow> ('s, 'e, 'b) op" where
  "bnd m f = (\<lambda>s. case m s of
       (Ok x, s') \<Rightarrow> f x s'
     | (Err e, s') \<Rightarrow> (Err e, s')
     | (Panic, s') \<Rightarrow> (Panic, s'))"

text \<open>\<open>attempt\<close> hands the error to the caller as a value, for the places that inspect it.\<close>

definition attempt :: "('s, 'e, 'a) op \<Rightarrow> ('s, 'e, 'e + 'a) op" where
  "attempt m = (\<lambda>s. case m s of
       (Ok x, s') \<Rightarrow> (Ok (Inr x), s')
     | (Err e, s') \<Rightarrow> (Ok (Inl e), s')
     | (Panic, s') \<Rightarrow> (Panic, s'))"

definition gets :: "('s \<Rightarrow> 'a) \<Rightarrow> ('s, 'e, 'a) op" where
  "gets f = (\<lambda>s. (Ok (f s), s))"

definition modify :: "('s \<Rightarrow> 's) \<Rightarrow> ('s, 'e, unit) op" where
  "modify f = (\<lambda>s. (Ok (), f s))"

definition of_sum :: "'e + 'a \<Rightarrow> ('s, 'e, 'a) op" where
  "of_sum r = (case r of Inl e \<Rightarrow> fail e | Inr x \<Rightarrow> ret x)"

definition of_option :: "'a option \<Rightarrow> ('s, 'e, 'a) op" where
  \<comment> \<open>\<open>None\<close> is a panic\<close>
  "of_option r = (case r of None \<Rightarrow> panic | Some x \<Rightarrow> ret x)"

definition when_op :: "bool \<Rightarrow> ('s, 'e, unit) op \<Rightarrow> ('s, 'e, unit) op" where
  "when_op b m = (if b then m else ret ())"

text \<open>A \<open>for ... range\<close> loop whose body may return early with an error.\<close>

fun for_each :: "'b list \<Rightarrow> ('b \<Rightarrow> ('s, 'e, unit) op) \<Rightarrow> ('s, 'e, unit) op" where
  "for_each [] f = ret ()"
| "for_each (x # xs) f = bnd (f x) (\<lambda>_. for_each xs f)"

text \<open>The same with a variable the iterations update.\<close>

fun for_acc :: "'b list \<Rightarrow> 'c \<Rightarrow> ('b \<Rightarrow> 'c \<Rightarrow> ('s, 'e, 'c) op) \<Rightarrow> ('s, 'e, 'c) op" where
  "for_acc [] a f = ret a"
| "for_acc (x # xs) a f = bnd (f x a) (\<lambda>a'. for_acc xs a' f)"

subsection \<open>Running a program\<close>

lemma ret_run [run_simps]: "ret x s = (Ok x, s)"
  by (simp add: ret_def)

lemma fail_run [run_simps]: "fail e s = (Err e, s)"
  by (simp add: fail_def)

lemma panic_run [run_simps]: "panic s = (Panic, s)"
  by (simp add: panic_def)

lemma gets_run [run_simps]: "gets f s = (Ok (f s), s)"
  by (simp add: gets_def)

lemma modify_run [run_simps]: "modify f s = (Ok (), f s)"
  by (simp add: modify_def)

lemma bnd_run [run_simps]:
  "bnd m f s = (case m s of (Ok x, s') \<Rightarrow> f x s' | (Err e, s') \<Rightarrow> (Err e, s')
     | (Panic, s') \<Rightarrow> (Panic, s'))"
  by (simp add: bnd_def)

lemma attempt_run [run_simps]:
  "attempt m s = (case m s of (Ok x, s') \<Rightarrow> (Ok (Inr x), s') | (Err e, s') \<Rightarrow> (Ok (Inl e), s')
     | (Panic, s') \<Rightarrow> (Panic, s'))"
  by (simp add: attempt_def)

lemma of_sum_simps [run_simps, simp]:
  "of_sum (Inl e) = fail e" "of_sum (Inr x) = ret x"
  by (simp_all add: of_sum_def)

lemma of_option_simps [run_simps, simp]:
  "of_option None = panic" "of_option (Some x) = ret x"
  by (simp_all add: of_option_def)

lemma when_op_simps [run_simps, simp]:
  "when_op True m = m" "when_op False m = ret ()"
  by (simp_all add: when_op_def)

lemma bnd_ret [simp]: "bnd (ret x) f = f x"
  by (simp add: bnd_def ret_def)

lemma bnd_fail [simp]: "bnd (fail e) f = fail e"
  by (simp add: bnd_def fail_def)

lemma bnd_panic [simp]: "bnd panic f = panic"
  by (simp add: bnd_def panic_def)

lemma bnd_assoc: "bnd (bnd m f) g = bnd m (\<lambda>x. bnd (f x) g)"
  by (rule ext) (simp add: bnd_def split: prod.splits res.splits)

subsection \<open>Inversion\<close>

text \<open>From the outcome of a composed program to the outcomes of its parts.\<close>

lemma ret_inv [op_inv]: "ret x s = (r, t) \<longleftrightarrow> r = Ok x \<and> t = s"
  by (auto simp: ret_def)

lemma fail_inv [op_inv]: "fail e s = (r, t) \<longleftrightarrow> r = Err e \<and> t = s"
  by (auto simp: fail_def)

lemma panic_inv [op_inv]: "panic s = (r, t) \<longleftrightarrow> r = Panic \<and> t = s"
  by (auto simp: panic_def)

lemma gets_inv [op_inv]: "gets f s = (r, t) \<longleftrightarrow> r = Ok (f s) \<and> t = s"
  by (auto simp: gets_def)

lemma modify_inv [op_inv]: "modify f s = (r, t) \<longleftrightarrow> r = Ok () \<and> t = f s"
  by (auto simp: modify_def)

lemma bnd_Ok_inv [op_inv]:
  "bnd m f s = (Ok y, t) \<longleftrightarrow> (\<exists>x u. m s = (Ok x, u) \<and> f x u = (Ok y, t))"
  by (auto simp: bnd_def split: prod.splits res.splits)

lemma bnd_Err_inv [op_inv]:
  "bnd m f s = (Err e, t) \<longleftrightarrow>
     m s = (Err e, t) \<or> (\<exists>x u. m s = (Ok x, u) \<and> f x u = (Err e, t))"
  by (auto simp: bnd_def split: prod.splits res.splits)

lemma bnd_Panic_inv [op_inv]:
  "bnd m f s = (Panic, t) \<longleftrightarrow>
     m s = (Panic, t) \<or> (\<exists>x u. m s = (Ok x, u) \<and> f x u = (Panic, t))"
  by (auto simp: bnd_def split: prod.splits res.splits)

lemma attempt_Ok_inv [op_inv]:
  "attempt m s = (Ok r, t) \<longleftrightarrow>
     (\<exists>x. m s = (Ok x, t) \<and> r = Inr x) \<or> (\<exists>e. m s = (Err e, t) \<and> r = Inl e)"
  by (auto simp: attempt_def split: prod.splits res.splits)

lemma attempt_Err_inv [op_inv]: "\<not> attempt m s = (Err e, t)"
  by (auto simp: attempt_def split: prod.splits res.splits)

lemma attempt_Panic_inv [op_inv]: "attempt m s = (Panic, t) \<longleftrightarrow> m s = (Panic, t)"
  by (auto simp: attempt_def split: prod.splits res.splits)

text \<open>The branches of a case analysis, as a disjunction.\<close>

lemma case_option_inv [op_inv]:
  "(case x of None \<Rightarrow> m | Some y \<Rightarrow> f y) s = (r, t) \<longleftrightarrow>
     x = None \<and> m s = (r, t) \<or> (\<exists>y. x = Some y \<and> f y s = (r, t))"
  by (cases x) simp_all

lemma case_sum_inv [op_inv]:
  "(case x of Inl e \<Rightarrow> f e | Inr y \<Rightarrow> g y) s = (r, t) \<longleftrightarrow>
     (\<exists>e. x = Inl e \<and> f e s = (r, t)) \<or> (\<exists>y. x = Inr y \<and> g y s = (r, t))"
  by (cases x) simp_all

lemma case_list_inv [op_inv]:
  "(case xs of [] \<Rightarrow> m | y # ys \<Rightarrow> f y ys) s = (r, t) \<longleftrightarrow>
     xs = [] \<and> m s = (r, t) \<or> (\<exists>y ys. xs = y # ys \<and> f y ys s = (r, t))"
  by (cases xs) simp_all

lemma case_prod_inv [op_inv]:
  "(case x of (a, b) \<Rightarrow> f a b) s = (r, t) \<longleftrightarrow> (\<exists>a b. x = (a, b) \<and> f a b s = (r, t))"
  by (cases x) simp_all

lemma if_op_inv [op_inv]:
  "(if b then m else n) s = (r, t) \<longleftrightarrow> b \<and> m s = (r, t) \<or> \<not> b \<and> n s = (r, t)"
  by simp

lemma when_op_inv [op_inv]:
  "when_op b m s = (r, t) \<longleftrightarrow> b \<and> m s = (r, t) \<or> \<not> b \<and> r = Ok () \<and> t = s"
  by (auto simp: when_op_def ret_inv)

lemma of_option_inv [op_inv]:
  "of_option x s = (r, t) \<longleftrightarrow> x = None \<and> r = Panic \<and> t = s \<or> (\<exists>y. x = Some y \<and> r = Ok y \<and> t = s)"
  by (cases x) (auto simp: ret_inv panic_inv)

lemma of_sum_inv [op_inv]:
  "of_sum x s = (r, t) \<longleftrightarrow>
     (\<exists>e. x = Inl e \<and> r = Err e \<and> t = s) \<or> (\<exists>y. x = Inr y \<and> r = Ok y \<and> t = s)"
  by (cases x) (auto simp: ret_inv fail_inv)

subsection \<open>Effects as relations\<close>

text \<open>
  A program \<^emph>\<open>keeps\<close> a relation between states when every run, whatever its result,
  relates the state before to the state after. For a preorder this composes, so a frame
  condition of a whole handler follows from those of the calls it makes.
\<close>

definition keeps :: "('s \<Rightarrow> 's \<Rightarrow> bool) \<Rightarrow> ('s, 'e, 'a) op \<Rightarrow> bool" where
  "keeps R m \<longleftrightarrow> (\<forall>s. R s (snd (m s)))"

lemma keepsI: "(\<And>s r t. m s = (r, t) \<Longrightarrow> R s t) \<Longrightarrow> keeps R m"
  by (metis prod.collapse keeps_def)

lemma keepsD: "keeps R m \<Longrightarrow> m s = (r, t) \<Longrightarrow> R s t"
  by (metis keeps_def snd_conv)

locale effect =
  fixes R :: "'s \<Rightarrow> 's \<Rightarrow> bool"
  assumes effect_refl: "R s s"
    and effect_trans: "R s t \<Longrightarrow> R t u \<Longrightarrow> R s u"
begin

lemma eff_ret [eff_intro]: "keeps R (ret x)"
  by (simp add: keeps_def ret_def effect_refl)

lemma eff_fail [eff_intro]: "keeps R (fail e)"
  by (simp add: keeps_def fail_def effect_refl)

lemma eff_panic [eff_intro]: "keeps R panic"
  by (simp add: keeps_def panic_def effect_refl)

lemma eff_gets [eff_intro]: "keeps R (gets f)"
  by (simp add: keeps_def gets_def effect_refl)

lemma eff_of_sum [eff_intro]: "keeps R (of_sum r)"
  by (cases r) (simp_all add: eff_ret eff_fail)

lemma eff_of_option [eff_intro]: "keeps R (of_option r)"
  by (cases r) (simp_all add: eff_ret eff_panic)

lemma eff_attempt [eff_intro]: "keeps R m \<Longrightarrow> keeps R (attempt m)"
  by (auto simp: keeps_def attempt_def split: prod.splits res.splits) (metis snd_conv)+

lemma eff_bnd [eff_intro]:
  assumes "keeps R m" and "\<And>x. keeps R (f x)"
  shows "keeps R (bnd m f)"
proof (rule keepsI)
  fix s r t
  assume run: "bnd m f s = (r, t)"
  show "R s t"
  proof (cases r)
    case (Ok y)
    with run obtain x u where "m s = (Ok x, u)" and "f x u = (Ok y, t)"
      by (auto simp: op_inv)
    with assms show ?thesis by (blast intro: effect_trans dest: keepsD)
  next
    case (Err e)
    with run assms show ?thesis by (auto simp: op_inv intro: effect_trans dest: keepsD)
  next
    case Panic
    with run assms show ?thesis by (auto simp: op_inv intro: effect_trans dest: keepsD)
  qed
qed

lemma eff_when [eff_intro]: "(b \<Longrightarrow> keeps R m) \<Longrightarrow> keeps R (when_op b m)"
  by (cases b) (simp_all add: eff_ret)

lemma eff_if [eff_intro]:
  "(b \<Longrightarrow> keeps R m) \<Longrightarrow> (\<not> b \<Longrightarrow> keeps R n) \<Longrightarrow> keeps R (if b then m else n)"
  by simp

lemma eff_case_option [eff_intro]:
  "(x = None \<Longrightarrow> keeps R m) \<Longrightarrow> (\<And>y. x = Some y \<Longrightarrow> keeps R (f y)) \<Longrightarrow>
   keeps R (case x of None \<Rightarrow> m | Some y \<Rightarrow> f y)"
  by (cases x) simp_all

lemma eff_case_sum [eff_intro]:
  "(\<And>e. x = Inl e \<Longrightarrow> keeps R (f e)) \<Longrightarrow> (\<And>y. x = Inr y \<Longrightarrow> keeps R (g y)) \<Longrightarrow>
   keeps R (case x of Inl e \<Rightarrow> f e | Inr y \<Rightarrow> g y)"
  by (cases x) simp_all

lemma eff_case_prod [eff_intro]:
  "(\<And>a b. x = (a, b) \<Longrightarrow> keeps R (f a b)) \<Longrightarrow> keeps R (case x of (a, b) \<Rightarrow> f a b)"
  by (cases x) simp_all

lemma eff_case_list [eff_intro]:
  "(xs = [] \<Longrightarrow> keeps R m) \<Longrightarrow> (\<And>y ys. xs = y # ys \<Longrightarrow> keeps R (f y ys)) \<Longrightarrow>
   keeps R (case xs of [] \<Rightarrow> m | y # ys \<Rightarrow> f y ys)"
  by (cases xs) simp_all

lemma eff_for_each [eff_intro]:
  "(\<And>x. x \<in> set xs \<Longrightarrow> keeps R (f x)) \<Longrightarrow> keeps R (for_each xs f)"
  by (induction xs) (auto intro!: eff_ret eff_bnd)

lemma eff_for_acc [eff_intro]:
  "(\<And>x a. x \<in> set xs \<Longrightarrow> keeps R (f x a)) \<Longrightarrow> keeps R (for_acc xs a f)"
  by (induction xs arbitrary: a) (auto intro!: eff_ret eff_bnd)

end

end
