(* ===== verification/Kube_Types.thy ===== *)
theory Kube_Types
  imports Prelude
begin

section \<open>The Kubernetes objects the operator reads and writes\<close>

text \<open>
  One record per API type, with the fields the operator sets or reads; Go's field names carry a
  short prefix. What the operator passes through without looking at it (resource
  requirements, tolerations, probes of extra containers, network peers a user wrote) is an
  \<open>opaque\<close> text. A pointer or a nil-able map is an \<open>option\<close>.
\<close>

type_synonym opaque = string
type_synonym quantity = string

subsection \<open>Metadata\<close>

text \<open>An owner reference is the owner's identity, as \<open>controllerutil.SetOwnerReference\<close> wrote it.\<close>

type_synonym owner_ref = string

record object_meta =
  m_namespace :: string
  m_name :: string
  m_labels :: string_map
  m_annotations :: "string_map option"
  m_owners :: "owner_ref list"

definition new_meta :: "string \<Rightarrow> object_meta" where
  \<comment> \<open>\<open>metav1.ObjectMeta{Name: n}\<close>\<close>
  "new_meta n = \<lparr>m_namespace = [], m_name = n, m_labels = [], m_annotations = None, m_owners = []\<rparr>"

datatype int_or_string = IntPort int32 | StrPort string

definition FromInt :: "int \<Rightarrow> int_or_string" where
  \<comment> \<open>\<open>intstr.FromInt\<close> keeps 32 bits\<close>
  "FromInt n = IntPort (word_of_int n)"

subsection \<open>Pods\<close>

datatype env_source = FieldRef string | SecretKeyRef string string

record env_var =
  ev_name :: string
  ev_value :: string
  ev_from :: "env_source option"

definition env_val :: "string \<Rightarrow> string \<Rightarrow> env_var" where
  "env_val n v = \<lparr>ev_name = n, ev_value = v, ev_from = None\<rparr>"

definition env_from :: "string \<Rightarrow> env_source \<Rightarrow> env_var" where
  "env_from n src = \<lparr>ev_name = n, ev_value = [], ev_from = Some src\<rparr>"

datatype probe_handler = HTTPGet string int_or_string | TCPSocket int_or_string

record probe =
  pr_handler :: probe_handler
  pr_initial_delay :: int32
  pr_success_threshold :: int32

record container_port =
  cp_name :: string
  cp_port :: int32

record volume_mount =
  vm_name :: string
  vm_path :: string

record resources =
  rs_requests :: "string_map option"
  rs_rest :: opaque

text \<open>Security contexts: the three the source defines in \<open>private/security\<close>.\<close>

record security_context =
  sc_allow_escalation :: "bool option"
  sc_drop :: "string list"

record pod_security_context =
  psc_run_as_non_root :: "bool option"
  psc_user :: "int option"
  psc_group :: "int option"
  psc_fs_group :: "int option"
  psc_fs_group_policy :: "string option"
  psc_seccomp :: "string option"

record container =
  ct_name :: string
  ct_image :: string
  ct_command :: "string list"
  ct_env :: "env_var list"
  ct_ports :: "container_port list"
  ct_resources :: resources
  ct_liveness :: "probe option"
  ct_readiness :: "probe option"
  ct_mounts :: "volume_mount list"
  ct_pre_stop :: "string list option"
  ct_security :: "security_context option"
  ct_rest :: opaque

record volume =
  vo_name :: string
  vo_claim :: string

record pod_affinity_term =
  pat_topology_key :: string
  pat_match_labels :: string_map
  pat_rest :: opaque

record pod_anti_affinity =
  paa_required :: "pod_affinity_term list"
  paa_preferred :: opaque

record affinity =
  af_pod_anti :: "pod_anti_affinity option"
  af_rest :: opaque

record pod_spec =
  ps_affinity :: "affinity option"
  ps_service_account :: string
  ps_service_links :: "bool option"
  ps_containers :: "container list"
  ps_volumes :: "volume list"
  ps_restart_policy :: string
  ps_security :: "pod_security_context option"
  ps_pull_secrets :: "string list"
  ps_node_selector :: string_map
  ps_tolerations :: "opaque list"

record pod_template =
  pt_labels :: string_map
  pt_annotations :: string_map
  pt_spec :: pod_spec

record pod =
  pod_namespace :: string
  pod_name :: string

subsection \<open>Workloads\<close>

record pvc_template =
  vct_name :: string
  vct_annotations :: string_map
  vct_access_modes :: "string list"
  vct_requests :: string_map

record statefulset_spec =
  ss_selector :: string_map
  ss_claim_templates :: "pvc_template list"
  ss_service_name :: string
  ss_pod_management :: string
  ss_min_ready :: int32
  ss_replicas :: "int32 option"
  ss_template :: pod_template

record statefulset =
  sts_meta :: object_meta
  sts_spec :: statefulset_spec
  sts_ready :: int32
  sts_available :: int32

record job_spec =
  js_deadline :: "int option"
  js_completions :: "int32 option"
  js_selector :: "string_map option"
  js_template :: pod_template

record job =
  job_meta :: object_meta
  job_spec_of :: job_spec
  job_succeeded :: int32
  job_failed :: int32

subsection \<open>Storage, configuration, access\<close>

record pvc =
  pvc_meta :: object_meta
  pvc_access_modes :: "string list"
  pvc_storage_class :: "string option"
  pvc_requests :: string_map
  pvc_rest :: opaque
  pvc_phase :: string
  pvc_capacity :: string_map

record config_map =
  cm_meta :: object_meta
  cm_data :: string_map

record secret =
  sec_meta :: object_meta
  sec_data :: string_map
  sec_string_data :: string_map

record service_account =
  sa_meta :: object_meta
  sa_rest :: opaque

record policy_rule =
  rule_groups :: "string list"
  rule_resources :: "string list"
  rule_verbs :: "string list"

record role =
  role_meta :: object_meta
  role_rules :: "policy_rule list"

record role_ref =
  rr_group :: string
  rr_kind :: string
  rr_name :: string

record subject =
  sj_kind :: string
  sj_name :: string

record role_binding =
  rb_meta :: object_meta
  rb_role_ref :: role_ref
  rb_subjects :: "subject list"

subsection \<open>Networking\<close>

record service_port =
  sp_name :: string
  sp_port :: int32
  sp_target :: int_or_string

record service =
  svc_meta :: object_meta
  svc_type :: string
  svc_cluster_ip :: string
  svc_selector :: string_map
  svc_ports :: "service_port list"
  svc_rest :: opaque

text \<open>A peer is a pod selector, which the operator builds, or one a user wrote.\<close>

datatype np_peer = PodPeer string_map | UserPeer opaque

datatype np_ingress_rule =
    IngressRule "np_peer list" "int_or_string list"
  | UserRule opaque

record network_policy =
  np_meta :: object_meta
  np_pod_selector :: string_map
  np_ingress :: "np_ingress_rule list"

record pod_disruption_budget =
  pdb_meta :: object_meta
  pdb_max_unavailable :: "int_or_string option"
  pdb_selector :: "string_map option"

subsection \<open>Zero values\<close>

text \<open>A Go composite literal leaves the fields it does not name at their zero value.\<close>

definition zero_resources :: resources where
  "zero_resources = \<lparr>rs_requests = None, rs_rest = []\<rparr>"

definition zero_container :: container where
  "zero_container = \<lparr>ct_name = [], ct_image = [], ct_command = [], ct_env = [], ct_ports = [],
     ct_resources = zero_resources, ct_liveness = None, ct_readiness = None, ct_mounts = [],
     ct_pre_stop = None, ct_security = None, ct_rest = []\<rparr>"

definition zero_pod_spec :: pod_spec where
  "zero_pod_spec = \<lparr>ps_affinity = None, ps_service_account = [], ps_service_links = None,
     ps_containers = [], ps_volumes = [], ps_restart_policy = [], ps_security = None,
     ps_pull_secrets = [], ps_node_selector = [], ps_tolerations = []\<rparr>"

definition zero_pod_template :: pod_template where
  "zero_pod_template = \<lparr>pt_labels = [], pt_annotations = [], pt_spec = zero_pod_spec\<rparr>"

definition zero_statefulset_spec :: statefulset_spec where
  "zero_statefulset_spec = \<lparr>ss_selector = [], ss_claim_templates = [], ss_service_name = [],
     ss_pod_management = [], ss_min_ready = 0, ss_replicas = None,
     ss_template = zero_pod_template\<rparr>"

definition new_statefulset :: "string \<Rightarrow> statefulset" where
  "new_statefulset n = \<lparr>sts_meta = new_meta n, sts_spec = zero_statefulset_spec,
     sts_ready = 0, sts_available = 0\<rparr>"

definition new_job :: "string \<Rightarrow> job_spec \<Rightarrow> job" where
  "new_job n sp = \<lparr>job_meta = new_meta n, job_spec_of = sp, job_succeeded = 0, job_failed = 0\<rparr>"

definition new_config_map :: "string \<Rightarrow> config_map" where
  "new_config_map n = \<lparr>cm_meta = new_meta n, cm_data = []\<rparr>"

definition new_service :: "string \<Rightarrow> service" where
  "new_service n = \<lparr>svc_meta = new_meta n, svc_type = [], svc_cluster_ip = [], svc_selector = [],
     svc_ports = [], svc_rest = []\<rparr>"

end
