(* ===== verification/Api_Types.thy ===== *)
theory Api_Types
  imports Kube_Types
begin

section \<open>The custom resource: \<open>api/v1alpha1\<close>\<close>

text \<open>
  The \<open>PatroniPostgres\<close> object: what the user asks for (\<open>pp_spec\<close>) and what the operator has
  recorded (\<open>pp_status\<close>). The cluster state is the source's string type; its constants are
  constructors, \<open>state_text\<close> gives their text, and a text the operator never writes is
  \<open>StateOther\<close>. The empty text of a new object is \<open>StateUnset\<close>.
\<close>

record node_tags =
  nt_nosync :: bool
  nt_nofailover :: bool

record node =
  nd_storage_class :: string
  nd_access_mode :: string
  nd_tags :: node_tags

record volume_status =
  vs_claim :: string
  vs_phase :: string
  vs_capacity :: quantity

record pp_spec =
  spec_ignore :: bool
  spec_version :: int
  spec_nodes :: "node list"
  spec_volume_size :: quantity
  spec_service_type :: string
  spec_annotations :: string_map
  spec_anti_affinity_key :: string
  spec_pull_secrets :: "string list"
  spec_node_selector :: string_map
  spec_affinity :: "affinity option"
  spec_tolerations :: "opaque list"
  spec_resources :: resources
  spec_extra_containers :: "container list"
  spec_access_control :: "np_peer list"
  spec_additional_ingress :: "np_ingress_rule list"

datatype pg_state =
    StateUnset
  | StateScaling
  | StateReady
  | StateUpgradePreupgrade
  | StateUpgradePreupgradeScaleDown
  | StateUpgradePreupgradeSync
  | StateUpgradeScaleDown
  | StateUpgradePrimary
  | StateUpgradeSecondaries
  | StateUpgradePrimaryMove
  | StateUpgradePostupgrade
  | StateOther string

fun state_text :: "pg_state \<Rightarrow> string" where
  "state_text StateUnset = ''''"
| "state_text StateScaling = ''scaling''"
| "state_text StateReady = ''ready''"
| "state_text StateUpgradePreupgrade = ''upgrade-preupgrade''"
| "state_text StateUpgradePreupgradeScaleDown = ''upgrade-preupgrade-scaledown''"
| "state_text StateUpgradePreupgradeSync = ''upgrade-preupgrade-sync''"
| "state_text StateUpgradeScaleDown = ''upgrade-scaledown''"
| "state_text StateUpgradePrimary = ''upgrade-primary''"
| "state_text StateUpgradeSecondaries = ''upgrade-secondaries''"
| "state_text StateUpgradePrimaryMove = ''upgrade-primary-move''"
| "state_text StateUpgradePostupgrade = ''upgrade-postupgrade''"
| "state_text (StateOther t) = t"

record pp_status =
  st_volumes :: "volume_status list"
  st_ready :: int32
  st_version :: int
  st_state :: pg_state
  st_upgrade_version :: int
  st_upgrade_versions :: "int list"

text \<open>\<open>pp_uid\<close> stands for the rest of the object's metadata, which owner references copy.\<close>

record patroni =
  pp_namespace :: string
  pp_name :: string
  pp_uid :: string
  pp_spec_of :: pp_spec
  pp_status_of :: pp_status

definition GetAccessMode :: "node \<Rightarrow> string" where
  "GetAccessMode v = (if nd_access_mode v = [] then ''ReadWriteOnce'' else nd_access_mode v)"

text \<open>The fields of spec and status, read from the object.\<close>

abbreviation pp_nodes :: "patroni \<Rightarrow> node list" where
  "pp_nodes p \<equiv> spec_nodes (pp_spec_of p)"

abbreviation pp_volumes :: "patroni \<Rightarrow> volume_status list" where
  "pp_volumes p \<equiv> st_volumes (pp_status_of p)"

abbreviation pp_version :: "patroni \<Rightarrow> int" where
  "pp_version p \<equiv> st_version (pp_status_of p)"

abbreviation pp_state :: "patroni \<Rightarrow> pg_state" where
  "pp_state p \<equiv> st_state (pp_status_of p)"

abbreviation pp_upgrade_version :: "patroni \<Rightarrow> int" where
  "pp_upgrade_version p \<equiv> st_upgrade_version (pp_status_of p)"

abbreviation upd_status :: "(pp_status \<Rightarrow> pp_status) \<Rightarrow> patroni \<Rightarrow> patroni" where
  "upd_status f p \<equiv> p\<lparr>pp_status_of := f (pp_status_of p)\<rparr>"

end
