(* ===== verification/Kube_Client.thy ===== *)
theory Kube_Client
  imports Op_Monad Api_Types
begin

section \<open>Talking to the API server\<close>

text \<open>
  The API server, the cluster behind it and every other actor in it are code the operator only
  calls. The model takes them as one parameter: an oracle that answers a request given
  everything asked and answered so far. A theorem that holds for every oracle holds whatever
  the cluster does between two calls. The state of a run is the instance object the handlers
  mutate in memory and the history of calls.

  Other parameters of the environment: \<open>SetOwnerReference\<close>, the order in which Go visits a
  map, the reprinting of a \<open>float64\<close>, the operator's image flag and the texts of the embedded
  shell scripts.
\<close>

subsection \<open>Requests, answers, errors\<close>

datatype kind =
    ConfigMapKind | SecretKind | PVCKind | ServiceAccountKind | RoleKind | RoleBindingKind
  | ServiceKind | StatefulSetKind | NetworkPolicyKind | PDBKind | JobKind | PatroniKind

datatype kobj =
    KConfigMap config_map
  | KSecret secret
  | KPVC pvc
  | KServiceAccount service_account
  | KRole role
  | KRoleBinding role_binding
  | KService service
  | KStatefulSet statefulset
  | KNetworkPolicy network_policy
  | KPDB pod_disruption_budget
  | KJob job
  | KPatroni patroni
  | KPVCList "pvc list"
  | KPodList "pod list"
  | KBytes string

datatype propagation = Background | Foreground

text \<open>
  A \<open>Get\<close> decodes into an object the caller passes; \<open>None\<close> is a fresh zero object, \<open>Some\<close> one
  that already holds values. \<open>RReadLogs\<close> opens a pod's log at its last \<open>n\<close> lines and reads
  once; \<open>RRand\<close> reads random bytes.
\<close>

datatype request =
    RGet kind string string "kobj option"
  | RCreate kobj
  | RUpdate kobj
  | RPatch kobj kobj
  | RDelete kobj propagation
  | RListPVCs string string_map
  | RListPods string "string_map option"
  | RReadLogs string string int
  | RRand nat
  | RStatusUpdate patroni

datatype error =
    NotFound
  | ApiError string
  | DecodeError
  | JsonError
  | ScanError
  | ErrNoDBIDfound
  | ErrNoLatestCheckpointLocationFound
  | ErrNoSyncLeader
  | ErrNoConfigAnnotation
  | ErrPreupgradeJobFailed
  | ErrMaxPreparedTransactionsNotZero
  | ErrPreupgradeSyncJobFailed
  | ErrPrimaryUpgradeJobFailed
  | ErrSecondaryUpgradeJobFailed
  | ErrPrimaryUpgradeMoveJobFailed
  | ErrPostupgradeJobFailed
  | ErrText string

type_synonym event = "request \<times> (error + kobj)"

record kube_env =
  ke_api :: "event list \<Rightarrow> request \<Rightarrow> error + kobj"
  ke_set_owner :: "kobj \<Rightarrow> object_meta \<Rightarrow> error + owner_ref list"
  ke_order :: "event list \<Rightarrow> pvc list \<Rightarrow> pvc list"
  ke_f64 :: "string \<Rightarrow> string option"
  ke_upgrade_image :: string
  ke_primary_upgrade :: string
  ke_primary_stream :: string
  ke_secondary_upgrade :: string
  ke_primary_move :: string

record kstate =
  ks_inst :: patroni
  ks_hist :: "event list"

type_synonym 'a kop = "(kstate, error, 'a) op"

subsection \<open>One call\<close>

definition ask :: "kube_env \<Rightarrow> request \<Rightarrow> kobj kop" where
  "ask E q = (\<lambda>s. let r = ke_api E (ks_hist s) q in
     (case r of Inl e \<Rightarrow> Err e | Inr x \<Rightarrow> Ok x, s\<lparr>ks_hist := ks_hist s @ [(q, r)]\<rparr>))"

text \<open>
  How a Go type travels: its kind, its constructor in \<open>kobj\<close>, and the way back; an answer of
  another kind does not decode. And the type's \<open>metav1.Object\<close> interface: its metadata, read
  and replaced.
\<close>

record 'a kube_type =
  kt_kind :: kind
  kt_wrap :: "'a \<Rightarrow> kobj"
  kt_unwrap :: "kobj \<Rightarrow> 'a option"
  kt_meta :: "'a \<Rightarrow> object_meta"
  kt_set_meta :: "object_meta \<Rightarrow> 'a \<Rightarrow> 'a"

definition decode_as :: "(kobj \<Rightarrow> 'a option) \<Rightarrow> kobj \<Rightarrow> 'a kop" where
  "decode_as f x = (case f x of None \<Rightarrow> fail DecodeError | Some y \<Rightarrow> ret y)"

definition kget :: "kube_env \<Rightarrow> 'a kube_type \<Rightarrow> string \<Rightarrow> string \<Rightarrow> 'a kop" where
  "kget E T ns n = bnd (ask E (RGet (kt_kind T) ns n None)) (decode_as (kt_unwrap T))"

definition kget_into :: "kube_env \<Rightarrow> 'a kube_type \<Rightarrow> string \<Rightarrow> string \<Rightarrow> 'a \<Rightarrow> 'a kop" where
  "kget_into E T ns n x =
     bnd (ask E (RGet (kt_kind T) ns n (Some (kt_wrap T x)))) (decode_as (kt_unwrap T))"

definition kcreate :: "kube_env \<Rightarrow> 'a kube_type \<Rightarrow> 'a \<Rightarrow> 'a kop" where
  "kcreate E T x = bnd (ask E (RCreate (kt_wrap T x))) (decode_as (kt_unwrap T))"

definition kupdate :: "kube_env \<Rightarrow> 'a kube_type \<Rightarrow> 'a \<Rightarrow> 'a kop" where
  "kupdate E T x = bnd (ask E (RUpdate (kt_wrap T x))) (decode_as (kt_unwrap T))"

definition kpatch :: "kube_env \<Rightarrow> 'a kube_type \<Rightarrow> 'a \<Rightarrow> 'a \<Rightarrow> 'a kop" where
  "kpatch E T x orig =
     bnd (ask E (RPatch (kt_wrap T x) (kt_wrap T orig))) (decode_as (kt_unwrap T))"

definition kdelete :: "kube_env \<Rightarrow> 'a kube_type \<Rightarrow> 'a \<Rightarrow> propagation \<Rightarrow> unit kop" where
  "kdelete E T x pol = bnd (ask E (RDelete (kt_wrap T x) pol)) (\<lambda>_. ret ())"

subsection \<open>The types that travel\<close>

definition ConfigMapT :: "config_map kube_type" where
  "ConfigMapT = \<lparr>kt_kind = ConfigMapKind, kt_wrap = KConfigMap,
     kt_unwrap = (\<lambda>x. case x of KConfigMap y \<Rightarrow> Some y | _ \<Rightarrow> None),
     kt_meta = cm_meta, kt_set_meta = (\<lambda>m x. x\<lparr>cm_meta := m\<rparr>)\<rparr>"

definition SecretT :: "secret kube_type" where
  "SecretT = \<lparr>kt_kind = SecretKind, kt_wrap = KSecret,
     kt_unwrap = (\<lambda>x. case x of KSecret y \<Rightarrow> Some y | _ \<Rightarrow> None),
     kt_meta = sec_meta, kt_set_meta = (\<lambda>m x. x\<lparr>sec_meta := m\<rparr>)\<rparr>"

definition PVCT :: "pvc kube_type" where
  "PVCT = \<lparr>kt_kind = PVCKind, kt_wrap = KPVC,
     kt_unwrap = (\<lambda>x. case x of KPVC y \<Rightarrow> Some y | _ \<Rightarrow> None),
     kt_meta = pvc_meta, kt_set_meta = (\<lambda>m x. x\<lparr>pvc_meta := m\<rparr>)\<rparr>"

definition ServiceAccountT :: "service_account kube_type" where
  "ServiceAccountT = \<lparr>kt_kind = ServiceAccountKind, kt_wrap = KServiceAccount,
     kt_unwrap = (\<lambda>x. case x of KServiceAccount y \<Rightarrow> Some y | _ \<Rightarrow> None),
     kt_meta = sa_meta, kt_set_meta = (\<lambda>m x. x\<lparr>sa_meta := m\<rparr>)\<rparr>"

definition RoleT :: "role kube_type" where
  "RoleT = \<lparr>kt_kind = RoleKind, kt_wrap = KRole,
     kt_unwrap = (\<lambda>x. case x of KRole y \<Rightarrow> Some y | _ \<Rightarrow> None),
     kt_meta = role_meta, kt_set_meta = (\<lambda>m x. x\<lparr>role_meta := m\<rparr>)\<rparr>"

definition RoleBindingT :: "role_binding kube_type" where
  "RoleBindingT = \<lparr>kt_kind = RoleBindingKind, kt_wrap = KRoleBinding,
     kt_unwrap = (\<lambda>x. case x of KRoleBinding y \<Rightarrow> Some y | _ \<Rightarrow> None),
     kt_meta = rb_meta, kt_set_meta = (\<lambda>m x. x\<lparr>rb_meta := m\<rparr>)\<rparr>"

definition ServiceT :: "service kube_type" where
  "ServiceT = \<lparr>kt_kind = ServiceKind, kt_wrap = KService,
     kt_unwrap = (\<lambda>x. case x of KService y \<Rightarrow> Some y | _ \<Rightarrow> None),
     kt_meta = svc_meta, kt_set_meta = (\<lambda>m x. x\<lparr>svc_meta := m\<rparr>)\<rparr>"

definition StatefulSetT :: "statefulset kube_type" where
  "StatefulSetT = \<lparr>kt_kind = StatefulSetKind, kt_wrap = KStatefulSet,
     kt_unwrap = (\<lambda>x. case x of KStatefulSet y \<Rightarrow> Some y | _ \<Rightarrow> None),
     kt_meta = sts_meta, kt_set_meta = (\<lambda>m x. x\<lparr>sts_meta := m\<rparr>)\<rparr>"

definition NetworkPolicyT :: "network_policy kube_type" where
  "NetworkPolicyT = \<lparr>kt_kind = NetworkPolicyKind, kt_wrap = KNetworkPolicy,
     kt_unwrap = (\<lambda>x. case x of KNetworkPolicy y \<Rightarrow> Some y | _ \<Rightarrow> None),
     kt_meta = np_meta, kt_set_meta = (\<lambda>m x. x\<lparr>np_meta := m\<rparr>)\<rparr>"

definition PDBT :: "pod_disruption_budget kube_type" where
  "PDBT = \<lparr>kt_kind = PDBKind, kt_wrap = KPDB,
     kt_unwrap = (\<lambda>x. case x of KPDB y \<Rightarrow> Some y | _ \<Rightarrow> None),
     kt_meta = pdb_meta, kt_set_meta = (\<lambda>m x. x\<lparr>pdb_meta := m\<rparr>)\<rparr>"

definition JobT :: "job kube_type" where
  "JobT = \<lparr>kt_kind = JobKind, kt_wrap = KJob,
     kt_unwrap = (\<lambda>x. case x of KJob y \<Rightarrow> Some y | _ \<Rightarrow> None),
     kt_meta = job_meta, kt_set_meta = (\<lambda>m x. x\<lparr>job_meta := m\<rparr>)\<rparr>"

lemmas kube_types [run_simps] =
  ConfigMapT_def SecretT_def PVCT_def ServiceAccountT_def
  RoleT_def RoleBindingT_def ServiceT_def StatefulSetT_def
  NetworkPolicyT_def PDBT_def JobT_def

text \<open>
  What a handler relies on when it treats an object through that interface: what it sent can
  be read back, and replacing the metadata replaces nothing else.
\<close>

locale api_object =
  fixes T :: "'a kube_type"
  assumes unwrap_wrap: "kt_unwrap T (kt_wrap T x) = Some x"
    and wrap_inj: "kt_unwrap T y = Some x \<Longrightarrow> y = kt_wrap T x"
    and meta_set_meta: "kt_meta T (kt_set_meta T m x) = m"
    and set_meta_set_meta: "kt_set_meta T m (kt_set_meta T m' x) = kt_set_meta T m x"
    and set_meta_meta: "kt_set_meta T (kt_meta T x) x = x"
begin

lemma set_meta_cancel: "kt_set_meta T (kt_meta T x) (kt_set_meta T m x) = x"
  by (simp add: set_meta_set_meta set_meta_meta)

lemma wrap_eq: "kt_wrap T x = kt_wrap T y \<longleftrightarrow> x = y"
  by (metis option.inject unwrap_wrap)

lemma decode_wrap: "decode_as (kt_unwrap T) (kt_wrap T x) = ret x"
  by (simp add: decode_as_def unwrap_wrap)

lemma decode_Ok: "decode_as (kt_unwrap T) y s = (Ok x, t) \<longleftrightarrow> y = kt_wrap T x \<and> t = s"
  by (auto simp: decode_as_def unwrap_wrap op_inv dest: wrap_inj split: option.splits)

end

interpretation cm: api_object ConfigMapT
  by unfold_locales (auto simp: ConfigMapT_def split: kobj.splits)

interpretation sec: api_object SecretT
  by unfold_locales (auto simp: SecretT_def split: kobj.splits)

interpretation pvc: api_object PVCT
  by unfold_locales (auto simp: PVCT_def split: kobj.splits)

interpretation sa: api_object ServiceAccountT
  by unfold_locales (auto simp: ServiceAccountT_def split: kobj.splits)

interpretation role: api_object RoleT
  by unfold_locales (auto simp: RoleT_def split: kobj.splits)

interpretation rb: api_object RoleBindingT
  by unfold_locales (auto simp: RoleBindingT_def split: kobj.splits)

interpretation svc: api_object ServiceT
  by unfold_locales (auto simp: ServiceT_def split: kobj.splits)

interpretation sts: api_object StatefulSetT
  by unfold_locales (auto simp: StatefulSetT_def split: kobj.splits)

interpretation np: api_object NetworkPolicyT
  by unfold_locales (auto simp: NetworkPolicyT_def split: kobj.splits)

interpretation pdb: api_object PDBT
  by unfold_locales (auto simp: PDBT_def split: kobj.splits)

interpretation job: api_object JobT
  by unfold_locales (auto simp: JobT_def split: kobj.splits)

subsection \<open>Found or absent\<close>

text \<open>
  The source's \<open>if err != nil \{ if !errors.IsNotFound(err) \{ return \} ... \}\<close>: absence is a
  value, every other error is returned.
\<close>

definition found :: "'a kop \<Rightarrow> 'a option kop" where
  "found m = bnd (attempt m) (\<lambda>r. case r of
       Inr x \<Rightarrow> ret (Some x)
     | Inl e \<Rightarrow> if e = NotFound then ret None else fail e)"

definition create_or_update :: "kube_env \<Rightarrow> 'a kube_type \<Rightarrow> bool \<Rightarrow> 'a \<Rightarrow> 'a kop" where
  "create_or_update E T create x = (if create then kcreate E T x else kupdate E T x)"

definition inst :: "patroni kop" where
  "inst = gets ks_inst"

definition set_status :: "(pp_status \<Rightarrow> pp_status) \<Rightarrow> unit kop" where
  "set_status f = modify (\<lambda>s. s\<lparr>ks_inst := upd_status f (ks_inst s)\<rparr>)"

lemma ask_run [run_simps]:
  "ask E q s = (case ke_api E (ks_hist s) q of
       Inl e \<Rightarrow> (Err e, s\<lparr>ks_hist := ks_hist s @ [(q, Inl e)]\<rparr>)
     | Inr x \<Rightarrow> (Ok x, s\<lparr>ks_hist := ks_hist s @ [(q, Inr x)]\<rparr>))"
  by (simp add: ask_def Let_def split: sum.splits)

lemma inst_run [run_simps]: "inst s = (Ok (ks_inst s), s)"
  by (simp add: inst_def gets_def)

lemma inst_inv [op_inv]: "inst s = (r, t) \<longleftrightarrow> r = Ok (ks_inst s) \<and> t = s"
  by (auto simp: inst_def gets_def)

lemma set_status_run [run_simps]:
  "set_status f s = (Ok (), s\<lparr>ks_inst := upd_status f (ks_inst s)\<rparr>)"
  by (simp add: set_status_def modify_def)

lemmas client_defs [run_simps] =
  kget_def kget_into_def kcreate_def kupdate_def kpatch_def kdelete_def decode_as_def found_def
  create_or_update_def

subsection \<open>Effects of a run\<close>

text \<open>
  \<open>asks P\<close>: the history only grew, by calls that satisfy \<open>P\<close>. \<open>same f\<close>: the part \<open>f\<close> of the
  instance is as it was. Both are preorders, so both compose.
\<close>

definition asks :: "(request \<Rightarrow> bool) \<Rightarrow> kstate \<Rightarrow> kstate \<Rightarrow> bool" where
  "asks P s t \<longleftrightarrow> (\<exists>es. ks_hist t = ks_hist s @ es \<and> list_all (\<lambda>ev. P (fst ev)) es)"

definition same :: "(patroni \<Rightarrow> 'b) \<Rightarrow> kstate \<Rightarrow> kstate \<Rightarrow> bool" where
  "same f s t \<longleftrightarrow> f (ks_inst t) = f (ks_inst s)"

interpretation calls: effect "asks P" for P
proof
  show "asks P s s" for s
    by (simp add: asks_def)
  show "asks P s t \<Longrightarrow> asks P t u \<Longrightarrow> asks P s u" for s t u
    by (auto simp: asks_def)
qed

interpretation frame: effect "same f" for f
  by unfold_locales (simp_all add: same_def)

lemma ask_asks [eff_intro]: "P q \<Longrightarrow> keeps (asks P) (ask E q)"
  by (auto simp: keeps_def asks_def ask_def Let_def)

lemma ask_same [eff_intro]: "keeps (same f) (ask E q)"
  by (simp add: keeps_def same_def ask_def Let_def)

lemma set_status_asks [eff_intro]: "keeps (asks P) (set_status f)"
  by (simp add: keeps_def asks_def set_status_def modify_def)

lemma set_status_same [eff_intro]:
  "(\<And>p. g (upd_status f p) = g p) \<Longrightarrow> keeps (same g) (set_status f)"
  by (simp add: keeps_def same_def set_status_def modify_def)

lemma inst_asks [eff_intro]: "keeps (asks P) inst"
  unfolding inst_def by (rule calls.eff_gets)

lemma inst_same [eff_intro]: "keeps (same f) inst"
  unfolding inst_def by (rule frame.eff_gets)

lemma decode_as_asks [eff_intro]: "keeps (asks P) (decode_as f x)"
  unfolding decode_as_def by (intro eff_intro)

lemma decode_as_same [eff_intro]: "keeps (same g) (decode_as f x)"
  unfolding decode_as_def by (intro eff_intro)

lemma asks_mono: "keeps (asks P) m \<Longrightarrow> (\<And>q. P q \<Longrightarrow> Q q) \<Longrightarrow> keeps (asks Q) m"
  by (fastforce simp: keeps_def asks_def list_all_iff)

lemma keeps_asks_hist:
  "keeps (asks P) m \<Longrightarrow> m s = (r, t) \<Longrightarrow>
   \<exists>es. ks_hist t = ks_hist s @ es \<and> list_all (\<lambda>ev. P (fst ev)) es"
  by (auto dest: keepsD simp: asks_def)

lemma client_asks [eff_intro]:
  "P (RGet (kt_kind T) ns n None) \<Longrightarrow> keeps (asks P) (kget E T ns n)"
  "P (RGet (kt_kind T) ns n (Some (kt_wrap T x))) \<Longrightarrow> keeps (asks P) (kget_into E T ns n x)"
  "P (RCreate (kt_wrap T x)) \<Longrightarrow> keeps (asks P) (kcreate E T x)"
  "P (RUpdate (kt_wrap T x)) \<Longrightarrow> keeps (asks P) (kupdate E T x)"
  "P (RPatch (kt_wrap T x) (kt_wrap T y)) \<Longrightarrow> keeps (asks P) (kpatch E T x y)"
  "P (RDelete (kt_wrap T x) pol) \<Longrightarrow> keeps (asks P) (kdelete E T x pol)"
  unfolding kget_def kget_into_def kcreate_def kupdate_def kpatch_def kdelete_def
  by (intro eff_intro; assumption)+

lemma client_same [eff_intro]:
  "keeps (same f) (kget E T ns n)" "keeps (same f) (kget_into E T ns n x)"
  "keeps (same f) (kcreate E T x)" "keeps (same f) (kupdate E T x)"
  "keeps (same f) (kpatch E T x y)" "keeps (same f) (kdelete E T x pol)"
  unfolding kget_def kget_into_def kcreate_def kupdate_def kpatch_def kdelete_def
  by (intro eff_intro)+

lemma found_asks [eff_intro]: "keeps (asks P) m \<Longrightarrow> keeps (asks P) (found m)"
  unfolding found_def by (intro eff_intro)

lemma found_same [eff_intro]: "keeps (same f) m \<Longrightarrow> keeps (same f) (found m)"
  unfolding found_def by (intro eff_intro)

lemma create_or_update_asks [eff_intro]:
  "P (RCreate (kt_wrap T x)) \<Longrightarrow> P (RUpdate (kt_wrap T x)) \<Longrightarrow>
   keeps (asks P) (create_or_update E T b x)"
  unfolding create_or_update_def by (intro eff_intro)

lemma create_or_update_same [eff_intro]: "keeps (same f) (create_or_update E T b x)"
  unfolding create_or_update_def by (intro eff_intro)

end
