(* ===== verification/Image.thy ===== *)
theory Image
  imports Prelude
begin

section \<open>The image registry: \<open>private/image\<close>\<close>

text \<open>
  An image carries the PostgreSQL versions it has binaries for. The registry is filled in
  \<open>init\<close>, a later image taking over the versions it shares with an earlier one.
\<close>

record image =
  im_image :: string
  im_versions :: "int list"

definition images :: "image list" where
  "images =
    [\<lparr>im_image = ''ghcr.io/rkojedzinszky/postgres-patroni:20251017'', im_versions = [13, 15]\<rparr>,
     \<lparr>im_image = ''ghcr.io/rkojedzinszky/postgres-patroni:20260707'', im_versions = [15, 17]\<rparr>]"

text \<open>The loops of \<open>init\<close>, over any list of images.\<close>

definition fill_registry :: "image list \<Rightarrow> (int \<times> image) list" where
  "fill_registry imgs = foldl (\<lambda>r img. foldl (\<lambda>r v. AList.update v img r) r (im_versions img)) [] imgs"

definition registry :: "(int \<times> image) list" where
  "registry = fill_registry images"

definition GetImage :: "int \<Rightarrow> image option" where
  "GetImage version = map_of registry version"

fun UpgradeVersions :: "int list \<Rightarrow> int \<Rightarrow> int list" where
  "UpgradeVersions [] version = []"
| "UpgradeVersions (v # vs) version =
     (if v > version then v # UpgradeVersions vs version else UpgradeVersions vs version)"

definition image_UpgradeVersions :: "image \<Rightarrow> int \<Rightarrow> int list" where
  "image_UpgradeVersions i version = UpgradeVersions (im_versions i) version"

lemma set_UpgradeVersions: "set (UpgradeVersions vs version) = {v \<in> set vs. version < v}"
  by (induction vs) auto

lemma GetImage_simps:
  "GetImage 13 = Some (images ! 0)"
  "GetImage 15 = Some (images ! 1)"
  "GetImage 17 = Some (images ! 1)"
  by (simp_all add: GetImage_def registry_def fill_registry_def images_def)

lemma GetImage_dom: "GetImage v = Some im \<longleftrightarrow>
    v = 13 \<and> im = images ! 0 \<or> v \<in> {15, 17} \<and> im = images ! 1"
  by (auto simp: GetImage_def registry_def fill_registry_def images_def split: if_splits)

lemma fill_versions:
  "map_of (foldl (\<lambda>r v. AList.update v img r) r vs) v = (if v \<in> set vs then Some img else map_of r v)"
  by (induction vs arbitrary: r) (auto simp: update_conv')

text \<open>
  The table that \<open>init\<close> fills answers like a search: for any list of images, in any order and
  with any overlap, looking a version up finds the last image of the list that has it, and
  nothing if none has. The loop over an image's versions is a filter that keeps their order.
\<close>

theorem registry_is_search:
  "map_of (fill_registry imgs) v = find (\<lambda>img. v \<in> set (im_versions img)) (rev imgs) \<and>
   UpgradeVersions vs v = filter (\<lambda>w. v < w) vs"
proof
  show "map_of (fill_registry imgs) v = find (\<lambda>img. v \<in> set (im_versions img)) (rev imgs)"
    by (induction imgs rule: rev_induct) (simp_all add: fill_registry_def fill_versions)
  show "UpgradeVersions vs v = filter (\<lambda>w. v < w) vs" by (induction vs) simp_all
qed

text \<open>
  A version is supported exactly if it is 13, 15 or 17, and every upgrade the operator
  offers from a supported version leads upwards, to a version which the same image has the
  binaries for and which is itself supported: an offered upgrade can be carried out in the
  image that runs the old version.
\<close>

theorem upgrade_versions_sound:
  "(GetImage v \<noteq> None \<longleftrightarrow> v \<in> {13, 15, 17}) \<and>
   (case GetImage v of
      None \<Rightarrow> True
    | Some im \<Rightarrow> v \<in> set (im_versions im) \<and>
        set (image_UpgradeVersions im v) = {w \<in> set (im_versions im) \<inter> {13, 15, 17}. v < w})"
proof (cases "GetImage v")
  case None
  then show ?thesis using GetImage_simps by (auto simp: images_def)
next
  case (Some im)
  then show ?thesis
    by (auto simp: GetImage_simps GetImage_dom image_UpgradeVersions_def set_UpgradeVersions
        images_def)
qed

end
