(* ===== verification/Go_Strings.thy ===== *)
theory Go_Strings
  imports Prelude
begin

section \<open>The string functions of Go's standard library that the program uses\<close>

text \<open>
  \<open>fmt.Sprintf\<close> with \<open>%d\<close>, \<open>fmt.Sscanf\<close> with \<open>%d\<close>, and \<open>strings.Split\<close>, \<open>ReplaceAll\<close>,
  \<open>Join\<close> and \<open>ToUpper\<close> at the arguments the program gives them. A Go string is a list of
  bytes, which is Isabelle's \<open>string\<close>. The main facts are that a printed number is read back
  as itself, and that a name built as \<open>prefix-number\<close> determines both of its parts.
\<close>

subsection \<open>Decimal numbers\<close>

definition is_digit :: "char \<Rightarrow> bool" where
  "is_digit c \<longleftrightarrow> 48 \<le> (of_char c :: nat) \<and> (of_char c :: nat) \<le> 57"

definition digit_char :: "nat \<Rightarrow> char" where
  "digit_char d = char_of (48 + d)"

definition digit_val :: "char \<Rightarrow> nat" where
  "digit_val c = of_char c - 48"

fun show_nat :: "nat \<Rightarrow> string" where
  "show_nat n = (if n < 10 then [digit_char n] else show_nat (n div 10) @ [digit_char (n mod 10)])"

declare show_nat.simps [simp del]

definition show_int :: "int \<Rightarrow> string" where
  "show_int n = (if n < 0 then CHR ''-'' # show_nat (nat (- n)) else show_nat (nat n))"

definition nat_of_digits :: "string \<Rightarrow> nat" where
  "nat_of_digits ds = foldl (\<lambda>a c. 10 * a + digit_val c) 0 ds"

lemma digit_chars:
  "digit_char 0 = CHR ''0''" "digit_char 1 = CHR ''1''" "digit_char 2 = CHR ''2''"
  "digit_char 3 = CHR ''3''" "digit_char 4 = CHR ''4''" "digit_char 5 = CHR ''5''"
  "digit_char 6 = CHR ''6''" "digit_char 7 = CHR ''7''" "digit_char 8 = CHR ''8''"
  "digit_char 9 = CHR ''9''"
  by code_simp+

lemma digit_char_val [simp]: "d < 10 \<Longrightarrow> digit_val (digit_char d) = d"
  by (simp add: digit_val_def digit_char_def)

lemma is_digit_digit_char [simp]: "d < 10 \<Longrightarrow> is_digit (digit_char d)"
  by (simp add: is_digit_def digit_char_def)

lemma show_nat_nonempty [simp]: "show_nat n \<noteq> []"
  by (subst show_nat.simps) simp

lemma show_nat_digits: "c \<in> set (show_nat n) \<Longrightarrow> is_digit c"
proof (induction n rule: show_nat.induct)
  case (1 n)
  show ?case
  proof (cases "n < 10")
    case True
    with "1.prems" show ?thesis by (simp add: show_nat.simps [of n])
  next
    case False
    with 1 show ?thesis by (auto simp: show_nat.simps [of n])
  qed
qed

lemma nat_of_digits_show [simp]: "nat_of_digits (show_nat n) = n"
proof (induction n rule: show_nat.induct)
  case (1 n)
  show ?case
  proof (cases "n < 10")
    case True
    then show ?thesis by (simp add: show_nat.simps [of n] nat_of_digits_def)
  next
    case False
    with "1.IH" have "nat_of_digits (show_nat (n div 10)) = n div 10" by simp
    with False show ?thesis by (simp add: show_nat.simps [of n] nat_of_digits_def)
  qed
qed

lemma show_nat_inject [simp]: "show_nat m = show_nat n \<longleftrightarrow> m = n"
  by (metis nat_of_digits_show)

lemma takeWhile_show_nat [simp]: "takeWhile is_digit (show_nat n) = show_nat n"
  by (simp add: takeWhile_eq_all_conv show_nat_digits)

lemma hd_show_nat: "is_digit (hd (show_nat n))"
  by (meson hd_in_set show_nat_digits show_nat_nonempty)

lemma dash_not_in_show_nat [simp]: "CHR ''-'' \<notin> set (show_nat n)"
  using show_nat_digits [of "CHR ''-''" n] by (auto simp: is_digit_def)

subsection \<open>\<open>fmt.Sscanf(s, "%d", \&i)\<close>\<close>

text \<open>
  Blanks are skipped (a newline is an error), one sign is accepted, then at least one digit is
  required; input after the digits is left unread. \<open>strconv.ParseInt\<close> refuses a value outside
  \<open>int64\<close>. \<open>None\<close> is the error, with the variable left as it was.
\<close>

fun skip_space :: "string \<Rightarrow> string option" where
  "skip_space [] = Some []"
| "skip_space (c # cs) =
     (if c = CHR 0x0A \<or> (c = CHR 0x0D \<and> cs \<noteq> [] \<and> hd cs = CHR 0x0A) then None
      else if c \<in> {CHR '' '', CHR 0x09, CHR 0x0B, CHR 0x0C, CHR 0x0D} then skip_space cs
      else Some (c # cs))"

definition scan_sign :: "string \<Rightarrow> bool \<times> string" where
  "scan_sign r = (case r of
       [] \<Rightarrow> (False, r)
     | c # cs \<Rightarrow> if c = CHR ''-'' then (True, cs) else if c = CHR ''+'' then (False, cs)
                 else (False, r))"

definition parse_int64 :: "bool \<Rightarrow> string \<Rightarrow> int option" where
  "parse_int64 neg ds =
     (let v = int (nat_of_digits ds); i = (if neg then - v else v)
      in if - (2 ^ 63) \<le> i \<and> i < 2 ^ 63 then Some i else None)"

definition sscanf_int :: "string \<Rightarrow> int option" where
  "sscanf_int s = (case skip_space s of
       None \<Rightarrow> None
     | Some r \<Rightarrow>
         if r = [] then None
         else let (neg, r') = scan_sign r; ds = takeWhile is_digit r'
              in if ds = [] then None else parse_int64 neg ds)"

lemma is_digit_not_space:
  "is_digit c \<Longrightarrow> c \<noteq> CHR 0x0A \<and> c \<notin> {CHR '' '', CHR 0x09, CHR 0x0B, CHR 0x0C, CHR 0x0D}
     \<and> c \<noteq> CHR ''-'' \<and> c \<noteq> CHR ''+''"
  by (auto simp: is_digit_def)

lemma sscanf_show_nat:
  assumes "n < 2 ^ 63"
  shows "sscanf_int (show_nat n) = Some (int n)"
proof -
  obtain c cs where s: "show_nat n = c # cs" and c: "is_digit c"
    by (metis hd_show_nat list.collapse show_nat_nonempty)
  have "skip_space (show_nat n) = Some (show_nat n)"
    using is_digit_not_space [OF c] by (simp add: s)
  moreover have "scan_sign (show_nat n) = (False, show_nat n)"
    using is_digit_not_space [OF c] by (simp add: s scan_sign_def)
  moreover have "int n < 2 ^ 63" using assms by simp
  ultimately show ?thesis by (simp add: sscanf_int_def parse_int64_def)
qed

subsection \<open>\<open>strings\<close>\<close>

fun split_on :: "char \<Rightarrow> string \<Rightarrow> string list" where
  "split_on c [] = [[]]"
| "split_on c (x # xs) =
     (if x = c then [] # split_on c xs
      else case split_on c xs of [] \<Rightarrow> [[x]] | w # ws \<Rightarrow> (x # w) # ws)"

fun join :: "string \<Rightarrow> string list \<Rightarrow> string" where
  "join sep [] = []"
| "join sep [x] = x"
| "join sep (x # y # ys) = x @ sep @ join sep (y # ys)"

definition replace_all :: "char \<Rightarrow> string \<Rightarrow> string \<Rightarrow> string" where
  \<comment> \<open>\<open>strings.ReplaceAll\<close> with a one-byte pattern\<close>
  "replace_all c new s = concat (map (\<lambda>x. if x = c then new else [x]) s)"

definition to_upper_char :: "char \<Rightarrow> char" where
  "to_upper_char c = (let n = of_char c :: nat in if 97 \<le> n \<and> n \<le> 122 then char_of (n - 32) else c)"

definition to_upper :: "string \<Rightarrow> string" where
  "to_upper s = map to_upper_char s"

lemma split_on_nonempty [simp]: "split_on c s \<noteq> []"
  by (cases s) (auto split: list.splits)

lemma split_on_no_sep: "c \<notin> set s \<Longrightarrow> split_on c s = [s]"
  by (induction s) auto

lemma length_split_on_sep: "1 < length (split_on c (a @ c # b))"
proof (induction a)
  case Nil
  then show ?case by (cases "split_on c b") simp_all
next
  case (Cons x a)
  then show ?case by (cases "split_on c (a @ c # b)") auto
qed

lemma last_split_on: "c \<notin> set b \<Longrightarrow> last (split_on c (a @ c # b)) = b"
proof (induction a)
  case Nil
  then show ?case by (simp add: split_on_no_sep)
next
  case (Cons x a)
  obtain w ws where w: "split_on c (a @ c # b) = w # ws"
    by (metis neq_Nil_conv split_on_nonempty)
  show ?case
  proof (cases "x = c")
    case True
    with Cons show ?thesis by simp
  next
    case False
    have "ws \<noteq> []"
    proof
      assume "ws = []"
      with w have "length (split_on c (a @ c # b)) = 1" by simp
      with length_split_on_sep [of c a b] show False by simp
    qed
    with False Cons w show ?thesis by simp
  qed
qed

subsection \<open>Names of the form \<open>prefix-number\<close>\<close>

lemma append_sep_inject:
  fixes c :: char
  assumes "c \<notin> set b" and "c \<notin> set b'"
  shows "a @ c # b = a' @ c # b' \<longleftrightarrow> a = a' \<and> b = b'"
proof
  assume eq: "a @ c # b = a' @ c # b'"
  then have "last (split_on c (a @ c # b)) = last (split_on c (a' @ c # b'))" by simp
  with assms have "b = b'" by (simp add: last_split_on)
  with eq show "a = a' \<and> b = b'" by simp
qed simp

definition indexed :: "string \<Rightarrow> nat \<Rightarrow> string" where
  \<comment> \<open>\<open>fmt.Sprintf("%s-%d", a, i)\<close>\<close>
  "indexed a i = a @ CHR ''-'' # show_nat i"

lemma indexed_inject [simp]: "indexed a i = indexed b j \<longleftrightarrow> a = b \<and> i = j"
  by (simp add: indexed_def append_sep_inject)

lemma last_split_indexed [simp]: "last (split_on (CHR ''-'') (indexed a i)) = show_nat i"
  by (simp add: indexed_def last_split_on)

lemma replace_all_absent: "c \<notin> set s \<Longrightarrow> replace_all c new s = s"
  by (induction s) (auto simp: replace_all_def)

lemma replace_all_removes: "c \<notin> set new \<Longrightarrow> c \<notin> set (replace_all c new s)"
  by (induction s) (auto simp: replace_all_def)

subsection \<open>\<open>base64.StdEncoding\<close>\<close>

definition base64_char :: "nat \<Rightarrow> char" where
  "base64_char n =
     (if n < 26 then char_of (65 + n)
      else if n < 52 then char_of (71 + n)
      else if n < 62 then char_of (n - 4)
      else if n = 62 then CHR ''+'' else CHR ''/'')"

fun base64 :: "string \<Rightarrow> string" where
  "base64 [] = []"
| "base64 [a] = (let n = of_char a * 16 in
     [base64_char (n div 64), base64_char (n mod 64), CHR ''='', CHR ''=''])"
| "base64 [a, b] = (let n = (of_char a * 256 + of_char b) * 4 in
     [base64_char (n div 4096), base64_char (n div 64 mod 64), base64_char (n mod 64), CHR ''=''])"
| "base64 (a # b # c # r) = (let n = (of_char a * 256 + of_char b) * 256 + of_char c in
     [base64_char (n div 262144), base64_char (n div 4096 mod 64), base64_char (n div 64 mod 64),
      base64_char (n mod 64)] @ base64 r)"

lemma length_base64: "length (base64 s) = 4 * ((length s + 2) div 3)"
  by (induction s rule: base64.induct) (simp_all add: Let_def, presburger)

end
