(* ===== verification/Op_Context.thy ===== *)
theory Op_Context
  imports Kube_Client Image Go_Strings
begin

section \<open>The reconcile context: \<open>private/context\<close>, \<open>private/security\<close>\<close>

text \<open>
  What a handler gets beside the instance: the API client (the environment) and the image of
  the version the cluster ran when the reconcile started. The instance itself is shared with
  the context by pointer; it is the \<open>ks_inst\<close> of the state.
\<close>

record wctx =
  wx_env :: kube_env
  wx_image :: image

definition nameLabel :: string where "nameLabel = ''app.kubernetes.io/name''"
definition nameValue :: string where "nameValue = ''patroni-postgres''"
definition instanceLabel :: string where "instanceLabel = ''app.kubernetes.io/instance''"
definition managedByLabel :: string where "managedByLabel = ''app.kubernetes.io/managed-by''"
definition managedByValue :: string where "managedByValue = ''kwebs-patroni-postgres-operator''"
definition componentLabel :: string where "componentLabel = ''component''"
definition clusterNameLabel :: string where "clusterNameLabel = ''cluster-name''"
definition ComponentPostgres :: string where "ComponentPostgres = ''postgres''"

lemmas label_defs = nameLabel_def nameValue_def instanceLabel_def managedByLabel_def
  managedByValue_def componentLabel_def clusterNameLabel_def ComponentPostgres_def

definition CommonLabels :: "patroni \<Rightarrow> string_map" where
  "CommonLabels p =
    [(nameLabel, nameValue),
     (instanceLabel, pp_name p),
     (managedByLabel, managedByValue),
     (clusterNameLabel, pp_name p)]"

definition PodLabels :: "patroni \<Rightarrow> string \<Rightarrow> string_map" where
  "PodLabels p component = map_set componentLabel component (CommonLabels p)"

text \<open>\<open>ListOption\<close> selects the owned objects: the namespace and the common labels.\<close>

definition ListOption :: "patroni \<Rightarrow> string \<times> string_map" where
  "ListOption p = (pp_namespace p, CommonLabels p)"

definition SetMeta :: "wctx \<Rightarrow> object_meta \<Rightarrow> object_meta kop" where
  "SetMeta C m = bnd inst (\<lambda>p.
     let m' = m\<lparr>m_namespace := pp_namespace p, m_labels := CommonLabels p\<rparr>
     in bnd (of_sum (ke_set_owner (wx_env C) (KPatroni p) m')) (\<lambda>o'.
        ret (m'\<lparr>m_owners := o'\<rparr>)))"

text \<open>
  \<open>New\<close> finds the image of the version in the status; the message of its error names the
  version in the spec.
\<close>

definition New :: "kube_env \<Rightarrow> patroni \<Rightarrow> error + wctx" where
  "New E p = (case GetImage (pp_version p) of
       None \<Rightarrow> Inl (ErrText (''wctx: unsupported version: '' @ show_int (spec_version (pp_spec_of p))))
     | Some im \<Rightarrow> Inr \<lparr>wx_env = E, wx_image = im\<rparr>)"

definition Image_Image :: "wctx \<Rightarrow> string" where
  "Image_Image C = im_image (wx_image C)"

subsection \<open>Security contexts\<close>

definition databaseUserId :: int where
  "databaseUserId = 15432"

definition ContainerSecurityContext :: security_context where
  "ContainerSecurityContext = \<lparr>sc_allow_escalation = Some False, sc_drop = [''ALL'']\<rparr>"

definition GenericPodSecurityContext :: pod_security_context where
  "GenericPodSecurityContext = \<lparr>psc_run_as_non_root = Some True, psc_user = None, psc_group = None,
     psc_fs_group = None, psc_fs_group_policy = None, psc_seccomp = Some ''RuntimeDefault''\<rparr>"

definition DatabasePodSecurityContext :: pod_security_context where
  "DatabasePodSecurityContext = \<lparr>psc_run_as_non_root = Some True, psc_user = Some databaseUserId,
     psc_group = Some databaseUserId, psc_fs_group = Some databaseUserId,
     psc_fs_group_policy = Some ''OnRootMismatch'', psc_seccomp = Some ''RuntimeDefault''\<rparr>"

subsection \<open>What \<open>SetMeta\<close> does\<close>

text \<open>The code relies on a successful \<open>SetOwnerReference\<close> leaving an owner reference.\<close>

definition sets_owner :: "kube_env \<Rightarrow> bool" where
  "sets_owner E \<longleftrightarrow> (\<forall>x m os. ke_set_owner E x m = Inr os \<longrightarrow> os \<noteq> [])"

lemma SetMeta_run [run_simps]:
  "SetMeta C m s =
     (let p = ks_inst s; m' = m\<lparr>m_namespace := pp_namespace p, m_labels := CommonLabels p\<rparr>
      in case ke_set_owner (wx_env C) (KPatroni p) m' of
           Inl e \<Rightarrow> (Err e, s)
         | Inr o' \<Rightarrow> (Ok (m'\<lparr>m_owners := o'\<rparr>), s))"
  by (simp add: SetMeta_def run_simps Let_def split: sum.splits)

lemma SetMeta_Ok [op_inv]:
  "SetMeta C m s = (Ok m', t) \<longleftrightarrow> t = s \<and>
     (\<exists>os. ke_set_owner (wx_env C) (KPatroni (ks_inst s))
          (m\<lparr>m_namespace := pp_namespace (ks_inst s), m_labels := CommonLabels (ks_inst s)\<rparr>) = Inr os \<and>
       m' = m\<lparr>m_namespace := pp_namespace (ks_inst s), m_labels := CommonLabels (ks_inst s),
              m_owners := os\<rparr>)"
  by (auto simp: SetMeta_run Let_def split: sum.splits)

lemma SetMeta_keeps_name:
  assumes "SetMeta C m s = (Ok m', t)"
  shows "m_name m' = m_name m" and "m_annotations m' = m_annotations m"
    and "m_namespace m' = pp_namespace (ks_inst s)" and "m_labels m' = CommonLabels (ks_inst s)"
    and "t = s"
  using assms by (auto simp: op_inv)

lemma SetMeta_not_Panic [op_inv]: "\<not> SetMeta C m s = (Panic, t)"
  by (simp add: SetMeta_run Let_def split: sum.splits)

lemma SetMeta_asks [eff_intro]: "keeps (asks P) (SetMeta C m)"
  unfolding SetMeta_def Let_def by (intro eff_intro)

lemma SetMeta_same [eff_intro]: "keeps (same f) (SetMeta C m)"
  unfolding SetMeta_def Let_def by (intro eff_intro)

subsection \<open>The two shapes of a reconcile\<close>

text \<open>
  Most reconcilers are one of two blocks the source repeats for each type.

  \<open>adopt_or_create\<close> (config maps, the secret, the service account): an object that exists is
  left alone unless it has no owner yet, in which case it is given its metadata; an object that
  does not exist is made and created.

  \<open>create_or_set\<close> (role, role binding, network policy, disruption budget): the object that
  exists, or a fresh one, gets its metadata and the desired fields, and is updated or created.
\<close>

definition set_meta_of :: "wctx \<Rightarrow> 'a kube_type \<Rightarrow> 'a \<Rightarrow> 'a kop" where
  "set_meta_of C T x = bnd (SetMeta C (kt_meta T x)) (\<lambda>m. ret (kt_set_meta T m x))"

definition adopt_or_create :: "wctx \<Rightarrow> 'a kube_type \<Rightarrow> string \<Rightarrow> 'a kop \<Rightarrow> unit kop" where
  "adopt_or_create C T n new = bnd inst (\<lambda>p.
     bnd (found (kget (wx_env C) T (pp_namespace p) n)) (\<lambda>r. case r of
       Some x \<Rightarrow>
         when_op (m_owners (kt_meta T x) = [])
           (bnd (set_meta_of C T x) (\<lambda>x'.
            bnd (kupdate (wx_env C) T x') (\<lambda>_. ret ())))
     | None \<Rightarrow>
         bnd new (\<lambda>x.
         bnd (set_meta_of C T x) (\<lambda>x'.
         bnd (kcreate (wx_env C) T x') (\<lambda>_. ret ())))))"

definition create_or_set ::
  "wctx \<Rightarrow> 'a kube_type \<Rightarrow> string \<Rightarrow> 'a \<Rightarrow> ('a \<Rightarrow> 'a) \<Rightarrow> 'a kop" where
  "create_or_set C T n new fill = bnd inst (\<lambda>p.
     bnd (found (kget (wx_env C) T (pp_namespace p) n)) (\<lambda>r.
     let create = (r = None); x = (case r of None \<Rightarrow> new | Some x \<Rightarrow> x) in
     bnd (set_meta_of C T x) (\<lambda>x'.
     create_or_update (wx_env C) T create (fill x'))))"

end
