(* ===== verification/Pvc.thy ===== *)
theory Pvc
  imports Op_Context
begin

section \<open>Volumes: \<open>private/controllers/pvc\<close>\<close>

text \<open>
  One claim per node, named after the cluster and the node's index. A reconcile lists the
  cluster's claims, patches or creates the one of every node while recording its status, and
  deletes those that no node needs any more. The left-over claims sit in a Go map, so they are
  deleted in an order the language does not fix: \<open>ke_order\<close>.
\<close>

definition VolumeName :: string where "VolumeName = ''pgdata''"

definition PVCName :: "patroni \<Rightarrow> nat \<Rightarrow> string" where
  "PVCName p idx = indexed (VolumeName @ ''-'' @ pp_name p) idx"

definition list_pvcs :: "kube_env \<Rightarrow> string \<times> string_map \<Rightarrow> pvc list kop" where
  "list_pvcs E lo = bnd (ask E (RListPVCs (fst lo) (snd lo)))
     (decode_as (\<lambda>x. case x of KPVCList l \<Rightarrow> Some l | _ \<Rightarrow> None))"

definition pvc_map :: "pvc list \<Rightarrow> (string \<times> pvc) list" where
  "pvc_map items = foldl (\<lambda>m c. map_set (m_name (pvc_meta c)) c m) [] items"

definition new_pvc :: "string \<Rightarrow> node \<Rightarrow> pvc" where
  "new_pvc name node = \<lparr>pvc_meta = new_meta name, pvc_access_modes = [GetAccessMode node],
     pvc_storage_class = Some (nd_storage_class node), pvc_requests = [], pvc_rest = [],
     pvc_phase = [], pvc_capacity = []\<rparr>"

definition zero_quantity :: quantity where "zero_quantity = ''0''"

definition volume_status_of :: "pvc \<Rightarrow> volume_status" where
  "volume_status_of c = \<lparr>vs_claim = m_name (pvc_meta c), vs_phase = pvc_phase c,
     vs_capacity = (case map_of (pvc_capacity c) ''storage'' of
        None \<Rightarrow> zero_quantity | Some q \<Rightarrow> q)\<rparr>"

definition reconcile_node ::
  "wctx \<Rightarrow> nat \<times> node \<Rightarrow> (string \<times> pvc) list \<Rightarrow> (string \<times> pvc) list kop" where
  "reconcile_node C idx_node existing = bnd inst (\<lambda>p.
     let (idx, node) = idx_node; name = PVCName p idx; orig = map_of existing name;
         existing' = map_del name existing;
         c = (case orig of Some o' \<Rightarrow> o' | None \<Rightarrow> new_pvc name node) in
     bnd (set_meta_of C PVCT c) (\<lambda>c.
     let c = c\<lparr>pvc_requests := [(''storage'', spec_volume_size (pp_spec_of p))]\<rparr> in
     bnd (case orig of
            Some o' \<Rightarrow> kpatch (wx_env C) PVCT c o'
          | None \<Rightarrow> kcreate (wx_env C) PVCT c) (\<lambda>c.
     bnd (set_status (\<lambda>st. st\<lparr>st_volumes := st_volumes st @ [volume_status_of c]\<rparr>)) (\<lambda>_.
     ret existing'))))"

definition delete_pvc :: "wctx \<Rightarrow> pvc \<Rightarrow> unit kop" where
  "delete_pvc C c = bnd (attempt (kdelete (wx_env C) PVCT c Background)) (\<lambda>r.
     case r of Inr _ \<Rightarrow> ret () | Inl e \<Rightarrow> if e = NotFound then ret () else fail e)"

definition pvc_Reconcile :: "wctx \<Rightarrow> unit kop" where
  "pvc_Reconcile C = bnd inst (\<lambda>p.
     bnd (list_pvcs (wx_env C) (ListOption p)) (\<lambda>items.
     bnd (set_status (\<lambda>st. st\<lparr>st_volumes := []\<rparr>)) (\<lambda>_.
     bnd (for_acc (enumerate 0 (pp_nodes p)) (pvc_map items) (reconcile_node C)) (\<lambda>left.
     bnd (gets ks_hist) (\<lambda>h.
     for_each (ke_order (wx_env C) h (map snd left)) (delete_pvc C))))))"

end
