(* ===== verification/Access.thy ===== *)
theory Access
  imports Op_Context
begin

section \<open>Credentials and access: \<open>secret\<close>, \<open>rbac\<close>, \<open>networkpolicy\<close>, \<open>pdb\<close>\<close>

text \<open>
  Four small reconcilers of \<open>private/controllers\<close>. The secret with the database passwords and
  the service account are created once and then only adopted. The role, the role binding, the
  network policy and the disruption budget are brought to the desired state every time.
\<close>

subsection \<open>\<open>private/controllers/secret\<close>\<close>

definition SuperUserPasswordKey :: string where
  "SuperUserPasswordKey = ''superuser-password''"

definition ReplicationUserPasswordKey :: string where
  "ReplicationUserPasswordKey = ''replication-password''"

definition secret_Name :: "patroni \<Rightarrow> string" where
  "secret_Name p = pp_name p"

text \<open>48 random bytes, in base64; the error of \<open>rand.Read\<close> is ignored and leaves zero bytes.\<close>

definition genSecret :: "kube_env \<Rightarrow> string kop" where
  "genSecret E = bnd (attempt (ask E (RRand 48))) (\<lambda>r.
     ret (base64 (case r of Inr (KBytes b) \<Rightarrow> b | _ \<Rightarrow> replicate 48 (CHR 0x00))))"

definition new_secret :: "kube_env \<Rightarrow> patroni \<Rightarrow> secret kop" where
  "new_secret E p = bnd (genSecret E) (\<lambda>su. bnd (genSecret E) (\<lambda>repl.
     ret \<lparr>sec_meta = new_meta (secret_Name p), sec_data = [],
       sec_string_data = [(SuperUserPasswordKey, su), (ReplicationUserPasswordKey, repl)]\<rparr>))"

definition secret_Reconcile :: "wctx \<Rightarrow> unit kop" where
  "secret_Reconcile C = bnd inst (\<lambda>p.
     adopt_or_create C SecretT (secret_Name p) (new_secret (wx_env C) p))"

subsection \<open>\<open>private/controllers/rbac\<close>\<close>

definition ServiceAccountName :: "patroni \<Rightarrow> string" where
  "ServiceAccountName p = pp_name p"

definition reconcileServiceAccount :: "wctx \<Rightarrow> unit kop" where
  "reconcileServiceAccount C = bnd inst (\<lambda>p.
     adopt_or_create C ServiceAccountT (ServiceAccountName p)
       (ret \<lparr>sa_meta = new_meta (ServiceAccountName p), sa_rest = []\<rparr>))"

definition patroni_rules :: "policy_rule list" where
  "patroni_rules = [\<lparr>rule_groups = [''''], rule_resources = [''configmaps'', ''pods''],
     rule_verbs = [''get'', ''list'', ''watch'', ''patch'', ''update'']\<rparr>]"

definition reconcileRole :: "wctx \<Rightarrow> unit kop" where
  "reconcileRole C = bnd inst (\<lambda>p.
     bnd (create_or_set C RoleT (ServiceAccountName p)
       \<lparr>role_meta = new_meta (ServiceAccountName p), role_rules = []\<rparr>
       (\<lambda>r. r\<lparr>role_rules := patroni_rules\<rparr>)) (\<lambda>_. ret ()))"

text \<open>The role a binding refers to is set when it is made, and cannot be changed later.\<close>

definition reconcileRoleBinding :: "wctx \<Rightarrow> unit kop" where
  "reconcileRoleBinding C = bnd inst (\<lambda>p.
     bnd (create_or_set C RoleBindingT (ServiceAccountName p)
       \<lparr>rb_meta = new_meta (ServiceAccountName p),
        rb_role_ref = \<lparr>rr_group = ''rbac.authorization.k8s.io'', rr_kind = ''Role'',
          rr_name = ServiceAccountName p\<rparr>,
        rb_subjects = []\<rparr>
       (\<lambda>b. b\<lparr>rb_subjects := [\<lparr>sj_kind = ''ServiceAccount'', sj_name = ServiceAccountName p\<rparr>]\<rparr>))
       (\<lambda>_. ret ()))"

definition rbac_Reconcile :: "wctx \<Rightarrow> unit kop" where
  "rbac_Reconcile C =
     bnd (reconcileServiceAccount C) (\<lambda>_.
     bnd (reconcileRole C) (\<lambda>_.
     bnd (reconcileRoleBinding C) (\<lambda>_. ret ())))"

subsection \<open>\<open>private/controllers/networkpolicy\<close>\<close>

definition PostgresPort :: int where "PostgresPort = 5432"

text \<open>
  Pods of the cluster reach each other without limit; the peers of \<open>accessControl\<close> reach the
  PostgreSQL port (an empty list of peers admits everyone); then the user's own rules.
\<close>

definition policy_ingress :: "patroni \<Rightarrow> np_ingress_rule list" where
  "policy_ingress p =
     [IngressRule [PodPeer (CommonLabels p)] [],
      IngressRule (spec_access_control (pp_spec_of p)) [FromInt PostgresPort]]
     @ spec_additional_ingress (pp_spec_of p)"

definition networkpolicy_Reconcile :: "wctx \<Rightarrow> unit kop" where
  "networkpolicy_Reconcile C = bnd inst (\<lambda>p.
     bnd (create_or_set C NetworkPolicyT (pp_name p)
       \<lparr>np_meta = new_meta (pp_name p), np_pod_selector = [], np_ingress = []\<rparr>
       (\<lambda>n. n\<lparr>np_pod_selector := CommonLabels p, np_ingress := policy_ingress p\<rparr>)) (\<lambda>_. ret ()))"

subsection \<open>\<open>private/controllers/pdb\<close>\<close>

definition maxUnavailable :: int_or_string where
  "maxUnavailable = FromInt 1"

definition pdb_Reconcile :: "wctx \<Rightarrow> unit kop" where
  "pdb_Reconcile C = bnd inst (\<lambda>p.
     bnd (create_or_set C PDBT (pp_name p)
       \<lparr>pdb_meta = new_meta (pp_name p), pdb_max_unavailable = None, pdb_selector = None\<rparr>
       (\<lambda>b. b\<lparr>pdb_max_unavailable := Some maxUnavailable, pdb_selector := Some (CommonLabels p)\<rparr>))
       (\<lambda>_. ret ()))"

end
