(* ===== verification/Service.thy ===== *)
theory Service
  imports Access
begin

section \<open>Services: \<open>private/controllers/service\<close>\<close>

text \<open>
  The main service selects the pod that holds the leader role; the headless one names the
  pods. During an upgrade the main service is reconciled with patches, which run after its
  port has been set. The variable that held the main service is reused for the headless one:
  an existing headless service is decoded into it.
\<close>

definition PatroniPodRoleKey :: string where "PatroniPodRoleKey = ''role''"
definition PatroniPodRole_Master :: string where "PatroniPodRole_Master = ''master''"
definition Patroni4PodRoleKey :: string where "Patroni4PodRoleKey = ''patroni4_role''"
definition PostgresPortName :: string where "PostgresPortName = ''postgres''"

text \<open>The \<open>Patch\<close> interface: \<open>None\<close> is the panic of indexing an empty list of ports.\<close>

type_synonym service_patch = "service \<Rightarrow> service option"

definition withPostgresqlPort_Patch :: "int \<Rightarrow> service_patch" where
  "withPostgresqlPort_Patch p s = (case svc_ports s of
       [] \<Rightarrow> None
     | q # qs \<Rightarrow> Some (s\<lparr>svc_ports := q\<lparr>sp_port := word_of_int p, sp_target := FromInt p\<rparr> # qs\<rparr>))"

definition withPatroniAPI_Patch :: service_patch where
  "withPatroniAPI_Patch s = Some (s\<lparr>svc_ports := svc_ports s @
     [\<lparr>sp_name = ''patroni'', sp_port = 8008, sp_target = FromInt 8008\<rparr>]\<rparr>)"

fun apply_service_patches :: "service_patch list \<Rightarrow> service_patch" where
  "apply_service_patches [] s = Some s"
| "apply_service_patches (q # qs) s = Option.bind (q s) (apply_service_patches qs)"

definition HeadlessServiceName :: "patroni \<Rightarrow> string" where
  "HeadlessServiceName p = pp_name p @ ''-headless''"

definition master_selector :: "patroni \<Rightarrow> string_map" where
  "master_selector p = map_set PatroniPodRoleKey PatroniPodRole_Master (PodLabels p ComponentPostgres)"

definition postgres_port :: service_port where
  "postgres_port = \<lparr>sp_name = PostgresPortName, sp_port = word_of_int PostgresPort,
     sp_target = FromInt PostgresPort\<rparr>"

definition main_service_fields :: "patroni \<Rightarrow> service \<Rightarrow> service" where
  "main_service_fields p s = s\<lparr>svc_type := spec_service_type (pp_spec_of p),
     svc_selector := master_selector p, svc_ports := [postgres_port]\<rparr>"

definition headless_service_fields :: "patroni \<Rightarrow> service \<Rightarrow> service" where
  "headless_service_fields p s = s\<lparr>svc_cluster_ip := ''None'', svc_selector := master_selector p\<rparr>"

definition ReconcileService :: "wctx \<Rightarrow> service_patch list \<Rightarrow> unit kop" where
  "ReconcileService C patches = bnd inst (\<lambda>p.
     bnd (found (kget (wx_env C) ServiceT (pp_namespace p) (pp_name p))) (\<lambda>r.
     let create = (r = None); s = (case r of None \<Rightarrow> new_service (pp_name p) | Some s \<Rightarrow> s) in
     bnd (set_meta_of C ServiceT s) (\<lambda>s.
     bnd (of_option (apply_service_patches patches (main_service_fields p s))) (\<lambda>s.
     bnd (create_or_update (wx_env C) ServiceT create s) (\<lambda>s.
     bnd (found (kget_into (wx_env C) ServiceT (pp_namespace p) (HeadlessServiceName p) s)) (\<lambda>r.
     let create = (r = None);
         s = (case r of None \<Rightarrow> new_service (HeadlessServiceName p) | Some s \<Rightarrow> s) in
     bnd (set_meta_of C ServiceT s) (\<lambda>s.
     bnd (create_or_update (wx_env C) ServiceT create (headless_service_fields p s)) (\<lambda>_.
     ret ()))))))))"

definition service_Reconcile :: "wctx \<Rightarrow> unit kop" where
  "service_Reconcile C = ReconcileService C []"

end
