(* ===== verification/Go_Utf8.thy ===== *)
theory Go_Utf8
  imports Go_Strings "HOL-Library.Char_ord"
begin

section \<open>UTF-8: \<open>unicode/utf8\<close>\<close>

text \<open>
  Go strings are byte strings. Where the standard library reads one as text it goes from rune to
  rune with \<open>utf8.DecodeRune\<close>, which takes a byte that starts no encoding for U+FFFD and goes on
  after it. \<open>encoding/json\<close> does so when it prints a string and when it reads one.
\<close>

subsection \<open>Encoding and decoding\<close>

definition utf8 :: "nat \<Rightarrow> string" where
  "utf8 n =
     (if n < 0x80 then [char_of n]
      else if n < 0x800 then [char_of (0xC0 + n div 64), char_of (0x80 + n mod 64)]
      else if n < 0x10000 then
        [char_of (0xE0 + n div 4096), char_of (0x80 + n div 64 mod 64), char_of (0x80 + n mod 64)]
      else [char_of (0xF0 + n div 262144), char_of (0x80 + n div 4096 mod 64),
            char_of (0x80 + n div 64 mod 64), char_of (0x80 + n mod 64)])"

abbreviation between :: "char \<Rightarrow> nat \<Rightarrow> nat \<Rightarrow> bool" where
  "between c lo hi \<equiv> lo \<le> of_char c \<and> of_char c \<le> hi"

abbreviation continues :: "char \<Rightarrow> bool" where
  "continues c \<equiv> between c 0x80 0xBF"

text \<open>
  The first two bytes of an encoding of two, three and four bytes. The shortest encoding is the
  only one, surrogates have none, and nothing is above U+10FFFF.
\<close>

definition starts2 :: "char \<Rightarrow> char \<Rightarrow> bool" where
  "starts2 a b \<longleftrightarrow> between a 0xC2 0xDF \<and> continues b"

definition starts3 :: "char \<Rightarrow> char \<Rightarrow> bool" where
  "starts3 a b \<longleftrightarrow> (if of_char a = (0xE0 :: nat) then between b 0xA0 0xBF
     else if of_char a = (0xED :: nat) then between b 0x80 0x9F
     else between a 0xE1 0xEF \<and> continues b)"

definition starts4 :: "char \<Rightarrow> char \<Rightarrow> bool" where
  "starts4 a b \<longleftrightarrow> (if of_char a = (0xF0 :: nat) then between b 0x90 0xBF
     else if of_char a = (0xF4 :: nat) then between b 0x80 0x8F
     else between a 0xF1 0xF3 \<and> continues b)"

text \<open>The length of the encoding at the head of a string; 0 if there is none.\<close>

fun rune_len :: "string \<Rightarrow> nat" where
  "rune_len [] = 0"
| "rune_len (a # r) =
     (if (of_char a :: nat) < 0x80 then 1
      else (case r of
         [] \<Rightarrow> 0
       | b # r \<Rightarrow>
           if starts2 a b then 2
           else (case r of
              [] \<Rightarrow> 0
            | c # r \<Rightarrow>
                if starts3 a b \<and> continues c then 3
                else (case r of
                   [] \<Rightarrow> 0
                 | d # r \<Rightarrow> if starts4 a b \<and> continues c \<and> continues d then 4 else 0))))"

declare rune_len.simps(2) [simp del]

lemma rune_len_ascii [simp]: "(of_char a :: nat) < 128 \<Longrightarrow> rune_len (a # r) = 1"
  by (simp add: rune_len.simps)

lemma rune_len_one: "rune_len (a # r) = 1 \<longleftrightarrow> (of_char a :: nat) < 128"
  by (auto simp: rune_len.simps split: list.splits)

lemma rune_len_le: "rune_len s \<le> length s"
  by (induction s rule: rune_len.induct) (auto simp: rune_len.simps split: list.splits)

lemma rune_len_cases:
  assumes "rune_len s \<noteq> 0"
  obtains (one) a r where "s = a # r" "(of_char a :: nat) < 128" "rune_len s = 1"
    | (two) a b r where "s = a # b # r" "\<not> (of_char a :: nat) < 128" "starts2 a b" "rune_len s = 2"
    | (three) a b c r where "s = a # b # c # r" "\<not> (of_char a :: nat) < 128" "\<not> starts2 a b" "starts3 a b"
        "continues c" "rune_len s = 3"
    | (four) a b c d r where "s = a # b # c # d # r" "\<not> (of_char a :: nat) < 128" "\<not> starts2 a b"
        "\<not> (starts3 a b \<and> continues c)" "starts4 a b" "continues c" "continues d" "rune_len s = 4"
  using assms
  by (cases s; cases "tl s"; cases "tl (tl s)"; cases "tl (tl (tl s))")
    (simp_all add: rune_len.simps split: if_splits)

lemma rune_len_append: "rune_len s \<noteq> 0 \<Longrightarrow> rune_len (s @ t) = rune_len s"
  by (erule rune_len_cases) (simp_all add: rune_len.simps)

lemma rune_len_take: "rune_len s \<noteq> 0 \<Longrightarrow> rune_len (take (rune_len s) s @ t) = rune_len s"
  by (erule rune_len_cases) (simp_all add: rune_len.simps)

subsection \<open>Valid strings\<close>

function valid_utf8 :: "string \<Rightarrow> bool" where
  "valid_utf8 [] \<longleftrightarrow> True"
| "valid_utf8 (c # cs) \<longleftrightarrow> (let n = rune_len (c # cs) in n \<noteq> 0 \<and> valid_utf8 (drop (n - 1) cs))"
  by pat_completeness auto
termination by (relation "measure length") auto

definition replacement :: string where
  "replacement = [CHR 0xEF, CHR 0xBF, CHR 0xBD]"

lemma utf8_replacement: "utf8 0xFFFD = replacement"
proof -
  have "char_of (239 :: nat) = CHR 0xEF" "char_of (191 :: nat) = CHR 0xBF" "char_of (189 :: nat) = CHR 0xBD"
    by code_simp+
  then show ?thesis by (simp add: utf8_def replacement_def)
qed

text \<open>A string as the standard library reads it: each byte that starts no encoding is U+FFFD.\<close>

function to_valid_utf8 :: "string \<Rightarrow> string" where
  "to_valid_utf8 [] = []"
| "to_valid_utf8 (c # cs) = (let n = rune_len (c # cs) in
     if n = 0 then replacement @ to_valid_utf8 cs
     else take n (c # cs) @ to_valid_utf8 (drop (n - 1) cs))"
  by pat_completeness auto
termination by (relation "measure length") auto

lemma drop_Cons_pred: "n \<noteq> 0 \<Longrightarrow> drop n (c # cs) = drop (n - 1) cs"
  by (cases n) simp_all

lemma valid_utf8_id: "valid_utf8 s \<Longrightarrow> to_valid_utf8 s = s"
proof (induction s rule: valid_utf8.induct)
  case (2 c cs)
  then have "rune_len (c # cs) \<noteq> 0" "to_valid_utf8 (drop (rune_len (c # cs) - 1) cs) = drop (rune_len (c # cs) - 1) cs"
    by (simp_all add: Let_def)
  then show ?case using append_take_drop_id [of "rune_len (c # cs)" "c # cs"]
    by (simp add: Let_def drop_Cons_pred)
qed simp

lemma valid_utf8_append: "valid_utf8 s \<Longrightarrow> valid_utf8 t \<Longrightarrow> valid_utf8 (s @ t)"
proof (induction s rule: valid_utf8.induct)
  case (2 c cs)
  let ?n = "rune_len (c # cs)"
  from "2.prems" have n: "?n \<noteq> 0" and "valid_utf8 (drop (?n - 1) cs)" by (simp_all add: Let_def)
  with "2.IH" "2.prems"(2) have "valid_utf8 (drop (?n - 1) cs @ t)" by simp
  moreover have "rune_len (c # cs @ t) = ?n" using rune_len_append [OF n, of t] by simp
  moreover have "?n - 1 \<le> length cs" using rune_len_le [of "c # cs"] by simp
  ultimately show ?case using n by (simp add: Let_def)
qed simp

lemma valid_utf8_ascii: "list_all (\<lambda>c. (of_char c :: nat) < 128) s \<Longrightarrow> valid_utf8 s"
  by (induction s) (simp_all add: Let_def)

lemma valid_utf8_take: "rune_len s \<noteq> 0 \<Longrightarrow> valid_utf8 (take (rune_len s) s)"
proof -
  assume n: "rune_len s \<noteq> 0"
  then obtain c cs where s: "s = c # cs" by (cases s) auto
  let ?n = "rune_len s"
  obtain m where m: "?n = Suc m" using n by (cases ?n) auto
  have "rune_len (take ?n s) = ?n" using rune_len_take [OF n, of "[]"] by simp
  then show ?thesis using s m by simp
qed

lemma valid_replacement [simp]: "valid_utf8 replacement"
  by (simp add: replacement_def Let_def rune_len.simps starts2_def starts3_def)

lemma to_valid_utf8_valid: "valid_utf8 (to_valid_utf8 s)"
proof (induction s rule: to_valid_utf8.induct)
  case (2 c cs)
  then show ?case
    using valid_utf8_take [of "c # cs"] by (auto simp: Let_def intro!: valid_utf8_append)
qed simp

text \<open>Every code point but the surrogates has a valid encoding.\<close>

lemma valid_bytes:
  fixes a b c d :: nat
  shows "a < 32 \<Longrightarrow> 2 \<le> a \<Longrightarrow> b < 64 \<Longrightarrow> valid_utf8 [char_of (0xC0 + a), char_of (0x80 + b)]"
    and "a < 16 \<Longrightarrow> (a = 0 \<Longrightarrow> 32 \<le> b) \<Longrightarrow> (a = 13 \<Longrightarrow> b < 32) \<Longrightarrow> b < 64 \<Longrightarrow> c < 64 \<Longrightarrow>
      valid_utf8 [char_of (0xE0 + a), char_of (0x80 + b), char_of (0x80 + c)]"
    and "a < 5 \<Longrightarrow> (a = 0 \<Longrightarrow> 16 \<le> b) \<Longrightarrow> (a = 4 \<Longrightarrow> b < 16) \<Longrightarrow> b < 64 \<Longrightarrow> c < 64 \<Longrightarrow> d < 64 \<Longrightarrow>
      valid_utf8 [char_of (0xF0 + a), char_of (0x80 + b), char_of (0x80 + c), char_of (0x80 + d)]"
  by (auto simp: rune_len.simps starts2_def starts3_def starts4_def)

lemma valid_utf8_utf8:
  assumes "n < 0x110000" and "\<not> (0xD800 \<le> n \<and> n < 0xE000)"
  shows "valid_utf8 (utf8 n)"
proof -
  consider "n < 0x80" | "0x80 \<le> n" "n < 0x800" | "0x800 \<le> n" "n < 0x10000" | "0x10000 \<le> n" by linarith
  then show ?thesis
  proof cases
    case 1
    then show ?thesis by (simp add: utf8_def)
  next
    case 2
    then have "2 \<le> n div 64" "n div 64 < 32" by (simp_all add: less_mult_imp_div_less)
    with valid_bytes(1) [of "n div 64" "n mod 64"] 2 show ?thesis by (simp add: utf8_def)
  next
    case 3
    have "n = 64 * (n div 64) + n mod 64" and "n div 64 = 64 * (n div 4096) + n div 64 mod 64" and "n mod 64 < 64"
      using div_mult2_eq [of n 64 64] by simp_all
    with 3 assms(2) have "n div 4096 < 16" "n div 4096 = 0 \<Longrightarrow> 32 \<le> n div 64 mod 64"
      "n div 4096 = 13 \<Longrightarrow> n div 64 mod 64 < 32" by linarith+
    with valid_bytes(2) [of "n div 4096" "n div 64 mod 64" "n mod 64"] 3 show ?thesis by (simp add: utf8_def)
  next
    case 4
    have "n = 4096 * (n div 4096) + n mod 4096" and "n div 4096 = 64 * (n div 262144) + n div 4096 mod 64"
      and "n mod 4096 < 4096" using div_mult2_eq [of n 4096 64] by simp_all
    with 4 assms(1) have "n div 262144 < 5" "n div 262144 = 0 \<Longrightarrow> 16 \<le> n div 4096 mod 64"
      "n div 262144 = 4 \<Longrightarrow> n div 4096 mod 64 < 16" by linarith+
    with valid_bytes(3) [of "n div 262144" "n div 4096 mod 64" "n div 64 mod 64" "n mod 64"] 4
    show ?thesis by (simp add: utf8_def)
  qed
qed

end
