(* ===== verification/Go_Json.thy ===== *)
theory Go_Json
  imports Go_Utf8 "HOL-Library.List_Lexorder"
begin

section \<open>The part of \<open>encoding/json\<close> the program uses\<close>

text \<open>
  The program reads and writes JSON at four places: the configuration the preupgrade helper
  prints and the operator reads, the result of the primary upgrade job, Patroni's
  configuration annotation, and the label string given to Patroni. This theory models the
  package at those types: the syntax check and the value a text denotes, decoding into a
  struct field by field, decoding into \<open>map[string]any\<close>, and \<open>json.Marshal\<close> with its sorted
  keys and its HTML-safe escapes.

  Strings are byte lists. Where one is not valid UTF-8 the package prints the escape of U+FFFD for
  an invalid byte, and reads one as U+FFFD. A number is kept as its literal; decoding into
  \<open>any\<close> goes through \<open>float64\<close>, whose reprinting is the parameter \<open>f64\<close> of \<open>to_any\<close>
  (\<open>None\<close> is a range error).
\<close>

datatype json =
    JNull
  | JBool bool
  | JNum string
  | JStr string
  | JArr "json list"
  | JObj "(string \<times> json) list"

abbreviation "quote_char \<equiv> CHR 0x22"
abbreviation "backslash \<equiv> CHR 0x5C"

subsection \<open>Strings: escaping\<close>

definition hex_digit :: "nat \<Rightarrow> char" where
  "hex_digit n = (if n < 10 then char_of (48 + n) else char_of (87 + n))"

definition hex_val :: "char \<Rightarrow> nat option" where
  "hex_val c = (let n = of_char c :: nat in
     if 48 \<le> n \<and> n \<le> 57 then Some (n - 48)
     else if 97 \<le> n \<and> n \<le> 102 then Some (n - 87)
     else if 65 \<le> n \<and> n \<le> 70 then Some (n - 55)
     else None)"

definition u00 :: "char \<Rightarrow> string" where
  "u00 c = [backslash, CHR ''u'', CHR ''0'', CHR ''0'',
            hex_digit (of_char c div 16), hex_digit (of_char c mod 16)]"

definition esc_char :: "char \<Rightarrow> string" where
  "esc_char c =
     (if c = quote_char \<or> c = backslash then [backslash, c]
      else if c = CHR 0x08 then [backslash, CHR ''b'']
      else if c = CHR 0x0C then [backslash, CHR ''f'']
      else if c = CHR 0x0A then [backslash, CHR ''n'']
      else if c = CHR 0x0D then [backslash, CHR ''r'']
      else if c = CHR 0x09 then [backslash, CHR ''t'']
      else if (of_char c :: nat) < 32 \<or> c \<in> {CHR ''<'', CHR ''>'', CHR ''&''} then u00 c
      else [c])"

text \<open>U+2028 and U+2029 (bytes E2 80 A8 and E2 80 A9) are escaped too.\<close>

definition line_sep :: "string \<Rightarrow> bool" where
  "line_sep r \<longleftrightarrow> 3 \<le> length r \<and> r ! 0 = CHR 0xE2 \<and> r ! 1 = CHR 0x80
     \<and> r ! 2 \<in> {CHR 0xA8, CHR 0xA9}"

function escape :: "string \<Rightarrow> string" where
  "escape [] = []"
| "escape (c # cs) = (let n = rune_len (c # cs) in
     if n = 0 then [backslash, CHR ''u'', CHR ''f'', CHR ''f'', CHR ''f'', CHR ''d''] @ escape cs
     else if line_sep (c # cs)
     then [backslash, CHR ''u'', CHR ''2'', CHR ''0'', CHR ''2'',
           (if cs ! 1 = CHR 0xA8 then CHR ''8'' else CHR ''9'')] @ escape (drop 2 cs)
     else (if n = 1 then esc_char c else take n (c # cs)) @ escape (drop (n - 1) cs))"
  by pat_completeness auto
termination by (relation "measure length") auto

definition marshal_string :: "string \<Rightarrow> string" where
  "marshal_string s = quote_char # escape s @ [quote_char]"

subsection \<open>Strings: reading\<close>

definition hex4 :: "string \<Rightarrow> (nat \<times> string) option" where
  "hex4 s = (case s of
       a # b # c # d # r \<Rightarrow>
         (case (hex_val a, hex_val b, hex_val c, hex_val d) of
            (Some w, Some x, Some y, Some z) \<Rightarrow> Some (((w * 16 + x) * 16 + y) * 16 + z, r)
          | _ \<Rightarrow> None)
     | _ \<Rightarrow> None)"

text \<open>
  What follows a backslash. A \<open>\u\<close> escape in the surrogate range pairs with a following one
  or reads as U+FFFD.
\<close>

definition unesc_u :: "string \<Rightarrow> (string \<times> string) option" where
  "unesc_u s = (case hex4 s of
       None \<Rightarrow> None
     | Some (hi, r) \<Rightarrow>
         if 0xD800 \<le> hi \<and> hi < 0xE000 then
           (case r of
              b # u # r' \<Rightarrow>
                (case (if b = backslash \<and> u = CHR ''u'' then hex4 r' else None) of
                   Some (lo, r'') \<Rightarrow>
                     if hi < 0xDC00 \<and> 0xDC00 \<le> lo \<and> lo < 0xE000
                     then Some (utf8 (0x10000 + (hi - 0xD800) * 1024 + (lo - 0xDC00)), r'')
                     else Some (utf8 0xFFFD, r)
                 | None \<Rightarrow> Some (utf8 0xFFFD, r))
            | _ \<Rightarrow> Some (utf8 0xFFFD, r))
         else Some (utf8 hi, r))"

definition unesc :: "string \<Rightarrow> (string \<times> string) option" where
  "unesc s = (case s of
       [] \<Rightarrow> None
     | c # r \<Rightarrow>
         if c \<in> {quote_char, backslash, CHR ''/''} then Some ([c], r)
         else if c = CHR ''b'' then Some ([CHR 0x08], r)
         else if c = CHR ''f'' then Some ([CHR 0x0C], r)
         else if c = CHR ''n'' then Some ([CHR 0x0A], r)
         else if c = CHR ''r'' then Some ([CHR 0x0D], r)
         else if c = CHR ''t'' then Some ([CHR 0x09], r)
         else if c = CHR ''u'' then unesc_u r
         else None)"

lemma hex4_shorter: "hex4 s = Some (n, r) \<Longrightarrow> length r < length s"
  by (auto simp: hex4_def split: list.splits option.splits)

lemma unesc_u_shorter: "unesc_u s = Some (b, r) \<Longrightarrow> length r < length s"
  by (force simp: unesc_u_def split: list.splits option.splits if_splits dest: hex4_shorter)

lemma unesc_shorter: "unesc s = Some (b, r) \<Longrightarrow> length r < length s"
  by (auto simp: unesc_def split: list.splits if_splits dest: unesc_u_shorter)

text \<open>The rest of a string literal after its opening quote: its bytes and what follows it.\<close>

definition cons_parsed :: "string \<Rightarrow> (string \<times> string) option \<Rightarrow> (string \<times> string) option" where
  "cons_parsed b r = (case r of None \<Rightarrow> None | Some (s, r') \<Rightarrow> Some (b @ s, r'))"

function parse_str :: "string \<Rightarrow> (string \<times> string) option" where
  "parse_str [] = None"
| "parse_str (c # cs) =
     (if c = quote_char then Some ([], cs)
      else if c = backslash then
        (case unesc cs of None \<Rightarrow> None | Some (b, r) \<Rightarrow> cons_parsed b (parse_str r))
      else if (of_char c :: nat) < 32 then None
      else (let n = rune_len (c # cs) in
        if n = 0 then cons_parsed replacement (parse_str cs)
        else cons_parsed (take n (c # cs)) (parse_str (drop (n - 1) cs))))"
  by pat_completeness auto
termination
  by (relation "measure length") (auto dest: unesc_shorter)

lemma cons_parsed_Some: "cons_parsed b x = Some (s, r) \<longleftrightarrow> (\<exists>s'. x = Some (s', r) \<and> s = b @ s')"
  by (auto simp: cons_parsed_def split: option.splits)

lemma parse_str_shorter: "parse_str s = Some (b, r) \<Longrightarrow> length r < length s"
proof (induction s arbitrary: b r rule: parse_str.induct)
  case (2 c cs)
  show ?case
  proof (cases "c = quote_char \<or> c = backslash \<or> (of_char c :: nat) < 32")
    case True
    with "2.prems" "2.IH"(1) show ?thesis
      by (fastforce simp: cons_parsed_Some split: if_splits option.splits dest: unesc_shorter)
  next
    case False
    with "2.prems" "2.IH"(2,3) show ?thesis
      by (fastforce simp: cons_parsed_Some Let_def split: if_splits)
  qed
qed simp

text \<open>What is read is valid UTF-8, whatever the text contains.\<close>

lemma hex_val_less: "hex_val c = Some n \<Longrightarrow> n < 16"
  by (auto simp: hex_val_def Let_def split: if_splits)

lemma hex4_less: "hex4 s = Some (n, r) \<Longrightarrow> n < 0x10000"
  by (auto simp: hex4_def split: list.splits option.splits dest!: hex_val_less)

lemma unesc_u_valid: "unesc_u s = Some (b, r) \<Longrightarrow> valid_utf8 b"
proof -
  have pair: "(hi - 0xD800) * 0x400 + lo < 0x10DC00" if "hi < 0xDC00" "lo < 0xE000" for hi lo :: nat
    using that by linarith
  show "unesc_u s = Some (b, r) \<Longrightarrow> valid_utf8 b"
    by (auto simp: unesc_u_def utf8_replacement [simplified] pair [simplified]
        split: option.splits if_splits list.splits
        intro!: valid_utf8_utf8 dest!: hex4_less)
qed

lemma unesc_valid: "unesc s = Some (b, r) \<Longrightarrow> valid_utf8 b"
  by (auto simp: unesc_def Let_def split: list.splits if_splits dest: unesc_u_valid)

lemma parse_str_valid: "parse_str s = Some (b, r) \<Longrightarrow> valid_utf8 b"
proof (induction s arbitrary: b r rule: parse_str.induct)
  case (2 c cs)
  show ?case
  proof (cases "c = quote_char \<or> c = backslash \<or> (of_char c :: nat) < 32")
    case True
    with "2.prems" "2.IH"(1) show ?thesis
      by (fastforce simp: cons_parsed_Some split: if_splits option.splits
          intro: valid_utf8_append dest: unesc_valid)
  next
    case False
    with "2.prems" "2.IH"(2,3) valid_utf8_take [of "c # cs"] show ?thesis
      by (fastforce simp: cons_parsed_Some Let_def split: if_splits intro!: valid_utf8_append)
  qed
qed simp

subsection \<open>A printed string is read back\<close>

lemma hex_val_digit [simp]: "n < 16 \<Longrightarrow> hex_val (hex_digit n) = Some n"
  by (auto simp: hex_val_def hex_digit_def Let_def)

lemma hex_val_zero [simp]: "hex_val (CHR ''0'') = Some 0"
  by (simp add: hex_val_def)

lemma parse_str_escaped:
  "unesc t = Some (b, r) \<Longrightarrow> parse_str (backslash # t) = cons_parsed b (parse_str r)"
  by (simp add: cons_parsed_def)

lemma parse_str_u00:
  assumes "(of_char c :: nat) < 128"
  shows "parse_str (u00 c @ t) = cons_parsed [c] (parse_str t)"
proof -
  let ?n = "of_char c :: nat"
  have "?n div 16 < 16" and "?n mod 16 < 16" using assms by auto
  then have "hex4 (drop 2 (u00 c) @ t) = Some (?n, t)"
    by (simp add: hex4_def u00_def)
  moreover have "utf8 ?n = [c]" using assms by (simp add: utf8_def)
  ultimately have "unesc (tl (u00 c) @ t) = Some ([c], t)"
    using assms by (simp add: unesc_def unesc_u_def u00_def)
  then show ?thesis
    using parse_str_escaped [of "tl (u00 c) @ t" "[c]" t] by (simp add: u00_def)
qed

lemma parse_str_esc_char:
  assumes ascii: "(of_char c :: nat) < 128"
  shows "parse_str (esc_char c @ t) = cons_parsed [c] (parse_str t)"
proof -
  let ?short = "{quote_char, backslash, CHR 0x08, CHR 0x0C, CHR 0x0A, CHR 0x0D, CHR 0x09}"
  let ?long = "(of_char c :: nat) < 32 \<or> c \<in> {CHR ''<'', CHR ''>'', CHR ''&''}"
  show ?thesis
  proof (cases "c \<in> ?short")
    case True
    then show ?thesis
      by (auto simp: esc_char_def unesc_def)
  next
    case short: False
    show ?thesis
    proof (cases ?long)
      case True
      with short have "esc_char c = u00 c" by (simp add: esc_char_def)
      with ascii show ?thesis by (simp add: parse_str_u00)
    next
      case False
      with short have "esc_char c = [c]" by (simp add: esc_char_def)
      with short False ascii show ?thesis by (simp add: Let_def)
    qed
  qed
qed

lemma line_sepE:
  assumes "line_sep (c # cs)"
  obtains e r where "c # cs = CHR 0xE2 # CHR 0x80 # e # r" and "e \<in> {CHR 0xA8, CHR 0xA9}"
proof -
  from assms obtain b e r where "cs = b # e # r"
    by (auto simp: line_sep_def Suc_le_length_iff numeral_3_eq_3)
  with assms that show thesis by (auto simp: line_sep_def)
qed

lemma hex_val_2028 [simp]:
  "hex_val (CHR ''2'') = Some 2" "hex_val (CHR ''8'') = Some 8" "hex_val (CHR ''9'') = Some 9"
  by (simp_all add: hex_val_def)

lemma char_of_line_sep [simp]:
  "char_of (226 :: nat) = CHR 0xE2" "char_of (128 :: nat) = CHR 0x80"
  "char_of (168 :: nat) = CHR 0xA8" "char_of (169 :: nat) = CHR 0xA9"
  by code_simp+

lemma line_sep_len: "line_sep s \<Longrightarrow> rune_len s = 3"
  by (cases s) (auto elim!: line_sepE simp: line_sep_def [of "[]"] rune_len.simps starts2_def starts3_def)

lemma parse_str_rune:
  assumes "rune_len s \<noteq> 0" and "rune_len s \<noteq> 1"
  shows "parse_str (take (rune_len s) s @ t) = cons_parsed (take (rune_len s) s) (parse_str t)"
proof -
  from assms(1) obtain c cs where s: "s = c # cs" by (cases s) auto
  let ?n = "rune_len s"
  obtain m where m: "?n = Suc m" using assms(1) by (cases ?n) auto
  have "\<not> (of_char c :: nat) < 128" using assms(2) rune_len_one [of c cs] s by simp
  then have c: "c \<noteq> quote_char" "c \<noteq> backslash" "\<not> (of_char c :: nat) < 32" by auto
  have "rune_len (c # take m cs @ t) = Suc m" using rune_len_take [OF assms(1), of t] s m by simp
  moreover have "length (take m cs) = m" using rune_len_le [of s] s m by simp
  ultimately show ?thesis using s m c by (simp add: Let_def)
qed

lemma parse_str_escape: "parse_str (escape s @ quote_char # r) = Some (to_valid_utf8 s, r)"
proof (induction s rule: escape.induct)
  case 1
  then show ?case by simp
next
  case (2 c cs)
  let ?n = "rune_len (c # cs)"
  have ok: "cons_parsed b (Some (s, r)) = Some (b @ s, r)" for b s by (simp add: cons_parsed_def)
  consider "?n = 0" | "line_sep (c # cs)" | "?n = 1" | "?n \<noteq> 0" "?n \<noteq> 1" "\<not> line_sep (c # cs)" by blast
  then show ?case
  proof cases
    case 1
    have "unesc (''ufffd'' @ t) = Some (replacement, t)" for t
      using utf8_replacement by (simp add: unesc_def unesc_u_def hex4_def hex_val_def)
    from parse_str_escaped [OF this] 1 "2.IH"(1) [OF refl 1] show ?thesis by (simp add: ok)
  next
    case 2
    then obtain e t where s: "c # cs = CHR 0xE2 # CHR 0x80 # e # t"
      and e: "e \<in> {CHR 0xA8, CHR 0xA9}" by (rule line_sepE)
    note n = line_sep_len [OF 2]
    from s have t: "drop 2 cs = t" by (simp add: eval_nat_numeral)
    with "2.IH"(2) [OF refl _ 2] n have IH: "parse_str (escape t @ quote_char # r) = Some (to_valid_utf8 t, r)"
      by simp
    let ?d = "if e = CHR 0xA8 then CHR ''8'' else CHR ''9''"
    have "unesc ([CHR ''u'', CHR ''2'', CHR ''0'', CHR ''2'', ?d] @ escape t @ quote_char # r)
        = Some ([CHR 0xE2, CHR 0x80, e], escape t @ quote_char # r)"
      using e by (auto simp: unesc_def unesc_u_def hex4_def utf8_def)
    from parse_str_escaped [OF this] IH 2 s n t show ?thesis by (simp add: ok Let_def)
  next
    case 3
    with rune_len_one [of c cs] have c: "(of_char c :: nat) < 128" by simp
    then have "\<not> line_sep (c # cs)" using line_sep_len [of "c # cs"] by auto
    with "2.IH"(3) [OF refl] 3 c show ?thesis by (simp add: parse_str_esc_char ok Let_def)
  next
    case 4
    with "2.IH"(3) [OF refl] parse_str_rune [of "c # cs"] show ?thesis by (simp add: ok Let_def)
  qed
qed

subsection \<open>Values: reading\<close>

definition json_ws :: "char \<Rightarrow> bool" where
  "json_ws c \<longleftrightarrow> c \<in> {CHR '' '', CHR 0x09, CHR 0x0A, CHR 0x0D}"

definition skip_ws :: "string \<Rightarrow> string" where
  "skip_ws s = dropWhile json_ws s"

text \<open>
  A number literal: an optional minus, \<open>0\<close> or digits without a leading zero, an optional
  fraction, an optional exponent.
\<close>

definition scan_digits :: "string \<Rightarrow> (string \<times> string) option" where
  "scan_digits s = (let ds = takeWhile is_digit s in
     if ds = [] then None else Some (ds, dropWhile is_digit s))"

definition scan_int_part :: "string \<Rightarrow> (string \<times> string) option" where
  "scan_int_part s = (case s of
       [] \<Rightarrow> None
     | c # r \<Rightarrow> if c = CHR ''0'' then Some ([c], r) else scan_digits s)"

definition scan_frac :: "string \<Rightarrow> (string \<times> string) option" where
  "scan_frac s = (case s of
       [] \<Rightarrow> Some ([], [])
     | c # r \<Rightarrow> if c = CHR ''.'' then map_option (apfst (Cons c)) (scan_digits r)
                else Some ([], s))"

definition scan_exp :: "string \<Rightarrow> (string \<times> string) option" where
  "scan_exp s = (case s of
       [] \<Rightarrow> Some ([], [])
     | c # r \<Rightarrow>
         if c = CHR ''e'' \<or> c = CHR ''E'' then
           (case r of
              [] \<Rightarrow> None
            | d # r' \<Rightarrow>
                if d = CHR ''+'' \<or> d = CHR ''-''
                then map_option (apfst (\<lambda>ds. c # d # ds)) (scan_digits r')
                else map_option (apfst (Cons c)) (scan_digits r))
         else Some ([], s))"

definition scan_unsigned :: "string \<Rightarrow> (string \<times> string) option" where
  "scan_unsigned s =
     Option.bind (scan_int_part s) (\<lambda>(a, r1).
     Option.bind (scan_frac r1) (\<lambda>(b, r2).
     Option.bind (scan_exp r2) (\<lambda>(c, r3). Some (a @ b @ c, r3))))"

definition scan_number :: "string \<Rightarrow> (string \<times> string) option" where
  "scan_number s = (case s of
       [] \<Rightarrow> None
     | c # r \<Rightarrow> if c = CHR ''-'' then map_option (apfst (Cons c)) (scan_unsigned r)
                else scan_unsigned s)"

definition scan_lit :: "string \<Rightarrow> 'a \<Rightarrow> string \<Rightarrow> ('a \<times> string) option" where
  "scan_lit lit v s = (if take (length lit) s = lit then Some (v, drop (length lit) s) else None)"

text \<open>
  The grammar proper, with fuel; \<open>parse_value_fuel\<close> below shows that fuel above twice the
  length of the input changes nothing. \<open>parse_members\<close> and \<open>parse_elems\<close> read at least one entry and
  the closing bracket.
\<close>

fun parse_value :: "nat \<Rightarrow> string \<Rightarrow> (json \<times> string) option"
  and parse_members :: "nat \<Rightarrow> string \<Rightarrow> ((string \<times> json) list \<times> string) option"
  and parse_elems :: "nat \<Rightarrow> string \<Rightarrow> (json list \<times> string) option"
where
  "parse_value 0 s = None"
| "parse_value (Suc n) s = (case skip_ws s of
       [] \<Rightarrow> None
     | c # cs \<Rightarrow>
         if c = quote_char then map_option (apfst JStr) (parse_str cs)
         else if c = CHR ''{'' then
           (case skip_ws cs of
              [] \<Rightarrow> None
            | d # r \<Rightarrow> if d = CHR ''}'' then Some (JObj [], r)
                       else map_option (apfst JObj) (parse_members n (d # r)))
         else if c = CHR ''['' then
           (case skip_ws cs of
              [] \<Rightarrow> None
            | d # r \<Rightarrow> if d = CHR '']'' then Some (JArr [], r)
                       else map_option (apfst JArr) (parse_elems n (d # r)))
         else if c = CHR ''t'' then scan_lit ''true'' (JBool True) (c # cs)
         else if c = CHR ''f'' then scan_lit ''false'' (JBool False) (c # cs)
         else if c = CHR ''n'' then scan_lit ''null'' JNull (c # cs)
         else map_option (apfst JNum) (scan_number (c # cs)))"
| "parse_members 0 s = None"
| "parse_members (Suc n) s = (case skip_ws s of
       [] \<Rightarrow> None
     | c # cs \<Rightarrow>
         if c \<noteq> quote_char then None
         else Option.bind (parse_str cs) (\<lambda>(k, r1).
           case skip_ws r1 of
             [] \<Rightarrow> None
           | d # r2 \<Rightarrow>
               if d \<noteq> CHR '':'' then None
               else Option.bind (parse_value n r2) (\<lambda>(v, r3).
                 case skip_ws r3 of
                   [] \<Rightarrow> None
                 | e # r4 \<Rightarrow>
                     if e = CHR ''}'' then Some ([(k, v)], r4)
                     else if e = CHR '','' then
                       map_option (apfst (Cons (k, v))) (parse_members n r4)
                     else None)))"
| "parse_elems 0 s = None"
| "parse_elems (Suc n) s =
     Option.bind (parse_value n s) (\<lambda>(v, r1).
       case skip_ws r1 of
         [] \<Rightarrow> None
       | e # r2 \<Rightarrow>
           if e = CHR '']'' then Some ([v], r2)
           else if e = CHR '','' then map_option (apfst (Cons v)) (parse_elems n r2)
           else None)"

text \<open>\<open>json.Unmarshal\<close>'s first pass: one value and nothing but blanks after it.\<close>

definition parse_json :: "string \<Rightarrow> json option" where
  "parse_json s = (case parse_value (Suc (2 * length s)) s of
       None \<Rightarrow> None
     | Some (v, r) \<Rightarrow> if skip_ws r = [] then Some v else None)"

subsection \<open>Values: printing\<close>

fun marshal :: "json \<Rightarrow> string"
  and marshal_members :: "(string \<times> json) list \<Rightarrow> string"
  and marshal_elems :: "json list \<Rightarrow> string"
where
  "marshal JNull = ''null''"
| "marshal (JBool b) = (if b then ''true'' else ''false'')"
| "marshal (JNum lit) = lit"
| "marshal (JStr s) = marshal_string s"
| "marshal (JArr vs) = CHR ''['' # marshal_elems vs @ [CHR '']'']"
| "marshal (JObj ms) = CHR ''{'' # marshal_members ms @ [CHR ''}'']"
| "marshal_members [] = []"
| "marshal_members ((k, v) # ms) =
     marshal_string k @ CHR '':'' # marshal v @
     (if ms = [] then [] else CHR '','' # marshal_members ms)"
| "marshal_elems [] = []"
| "marshal_elems (v # vs) =
     marshal v @ (if vs = [] then [] else CHR '','' # marshal_elems vs)"

text \<open>Number literals in the value are well formed.\<close>

fun json_wf :: "json \<Rightarrow> bool" where
  "json_wf (JNum lit) \<longleftrightarrow> scan_number lit = Some (lit, [])"
| "json_wf (JArr vs) \<longleftrightarrow> list_all json_wf vs"
| "json_wf (JObj ms) \<longleftrightarrow> list_all (\<lambda>kv. json_wf (snd kv)) ms"
| "json_wf j \<longleftrightarrow> True"

text \<open>The strings in the value, keys included, as they are read back; and that they are valid.\<close>

fun valid_json :: "json \<Rightarrow> json" where
  "valid_json (JStr s) = JStr (to_valid_utf8 s)"
| "valid_json (JArr vs) = JArr (map valid_json vs)"
| "valid_json (JObj ms) = JObj (map (\<lambda>kv. (to_valid_utf8 (fst kv), valid_json (snd kv))) ms)"
| "valid_json j = j"

abbreviation valid_member :: "string \<times> json \<Rightarrow> string \<times> json" where
  "valid_member kv \<equiv> (to_valid_utf8 (fst kv), valid_json (snd kv))"

fun json_utf8 :: "json \<Rightarrow> bool" where
  "json_utf8 (JStr s) \<longleftrightarrow> valid_utf8 s"
| "json_utf8 (JArr vs) \<longleftrightarrow> list_all json_utf8 vs"
| "json_utf8 (JObj ms) \<longleftrightarrow> list_all (\<lambda>kv. valid_utf8 (fst kv) \<and> json_utf8 (snd kv)) ms"
| "json_utf8 j \<longleftrightarrow> True"

lemma json_utf8_id: "json_utf8 j \<Longrightarrow> valid_json j = j"
proof (induction j rule: valid_json.induct)
  case (3 ms)
  then show ?case by (auto simp: list_all_iff valid_utf8_id intro!: map_idI)
qed (auto simp: list_all_iff valid_utf8_id intro!: map_idI)

subsection \<open>A printed value is read back\<close>

definition num_end :: "string \<Rightarrow> bool" where
  \<comment> \<open>what may follow a number literal\<close>
  "num_end r \<longleftrightarrow> r = [] \<or> \<not> is_digit (hd r) \<and> hd r \<notin> {CHR ''.'', CHR ''e'', CHR ''E''}"

lemma num_end_digits: "num_end r \<Longrightarrow> takeWhile is_digit r = [] \<and> dropWhile is_digit r = r"
  by (cases r) (auto simp: num_end_def)

lemma scan_digits_append:
  assumes "scan_digits s = Some (ds, t)" and "t \<noteq> [] \<or> num_end r"
  shows "scan_digits (s @ r) = Some (ds, t @ r)"
proof (cases "t = []")
  case True
  with assms(1) have all: "\<And>c. c \<in> set s \<Longrightarrow> is_digit c" and s: "s \<noteq> []" "ds = s"
    by (auto simp: scan_digits_def Let_def dropWhile_eq_Nil_conv takeWhile_eq_all_conv
        split: if_splits)
  with True assms(2) num_end_digits [of r] show ?thesis
    by (simp add: scan_digits_def takeWhile_append2 dropWhile_append2)
next
  case False
  with assms(1) obtain c where "c \<in> set s" and "\<not> is_digit c"
    by (auto simp: scan_digits_def Let_def dropWhile_eq_Nil_conv split: if_splits)
  with assms(1) show ?thesis
    by (auto simp: scan_digits_def Let_def takeWhile_append1 dropWhile_append1 split: if_splits)
qed

lemma scan_int_part_append:
  "scan_int_part s = Some (a, t) \<Longrightarrow> t \<noteq> [] \<or> num_end r \<Longrightarrow> scan_int_part (s @ r) = Some (a, t @ r)"
  by (auto simp: scan_int_part_def dest: scan_digits_append split: list.splits if_splits)

lemma scan_frac_append:
  assumes "scan_frac s = Some (b, t)" and "t \<noteq> [] \<or> num_end r"
  shows "scan_frac (s @ r) = Some (b, t @ r)"
proof (cases s)
  case Nil
  with assms show ?thesis by (auto simp: scan_frac_def num_end_def split: list.splits)
next
  case (Cons c s')
  with assms show ?thesis
    by (auto simp: scan_frac_def dest: scan_digits_append [where r = r] split: if_splits)
qed

lemma scan_exp_append:
  assumes "scan_exp s = Some (b, t)" and "t \<noteq> [] \<or> num_end r"
  shows "scan_exp (s @ r) = Some (b, t @ r)"
proof (cases s)
  case Nil
  with assms show ?thesis by (auto simp: scan_exp_def num_end_def split: list.splits)
next
  case s: (Cons c s')
  show ?thesis
  proof (cases s')
    case Nil
    with s assms show ?thesis by (auto simp: scan_exp_def split: if_splits)
  next
    case (Cons d s'')
    with s assms scan_digits_append [of s'' _ t r] scan_digits_append [of s' _ t r]
    show ?thesis by (auto simp: scan_exp_def split: if_splits)
  qed
qed

lemma scan_unsigned_append:
  assumes "scan_unsigned s = Some (lit, [])" and "num_end r"
  shows "scan_unsigned (s @ r) = Some (lit, r)"
proof -
  from assms(1) obtain a r1 b r2 c where
      s: "scan_int_part s = Some (a, r1)" "scan_frac r1 = Some (b, r2)" "scan_exp r2 = Some (c, [])"
      "lit = a @ b @ c"
    by (auto simp: scan_unsigned_def bind_eq_Some_conv)
  from assms(2) scan_int_part_append [OF s(1), of r] scan_frac_append [OF s(2), of r]
    scan_exp_append [OF s(3), of r] s(4)
  show ?thesis by (simp add: scan_unsigned_def)
qed

lemma scan_number_append:
  assumes "scan_number s = Some (lit, [])" and "num_end r"
  shows "scan_number (s @ r) = Some (lit, r)"
proof (cases s)
  case Nil
  with assms(1) show ?thesis by (simp add: scan_number_def)
next
  case (Cons c s')
  with assms show ?thesis
    by (auto simp: scan_number_def dest: scan_unsigned_append split: if_splits)
qed

lemma skip_ws_Cons [simp]: "\<not> json_ws c \<Longrightarrow> skip_ws (c # cs) = c # cs"
  by (simp add: skip_ws_def)

lemma scan_number_head:
  assumes "scan_number s = Some (lit, [])"
  obtains c cs where "s = c # cs" and "is_digit c \<or> c = CHR ''-''"
proof -
  from assms obtain c cs where s: "s = c # cs"
    by (auto simp: scan_number_def split: list.splits)
  have "is_digit c \<or> c = CHR ''-''"
  proof (rule ccontr)
    assume n: "\<not> (is_digit c \<or> c = CHR ''-'')"
    then have "c \<noteq> CHR ''0''" by (auto simp: is_digit_def)
    with n assms s show False
      by (auto simp: scan_number_def scan_unsigned_def scan_int_part_def scan_digits_def
          split: if_splits)
  qed
  with s that show thesis by blast
qed

lemma digit_starts_number:
  assumes "is_digit c \<or> c = CHR ''-''"
  shows "\<not> json_ws c" and "c \<notin> {quote_char, CHR ''{'', CHR ''['', CHR ''t'', CHR ''f'', CHR ''n''}"
    and "c \<notin> {CHR ''}'', CHR '']''}"
  using assms by (auto simp: is_digit_def json_ws_def)

lemma scan_lit_append [simp]: "scan_lit lit v (lit @ r) = Some (v, r)"
  by (simp add: scan_lit_def)

lemma parse_number:
  assumes "scan_number lit = Some (lit, [])" and "num_end r"
  shows "parse_value (Suc n) (lit @ r) = Some (JNum lit, r)"
proof -
  from assms(1) obtain c cs where lit: "lit = c # cs" and c: "is_digit c \<or> c = CHR ''-''"
    by (rule scan_number_head)
  from digit_starts_number [OF c] scan_number_append [OF assms] lit show ?thesis by simp
qed

lemma parse_bool:
  "parse_value (Suc n) (''true'' @ r) = Some (JBool True, r)"
  "parse_value (Suc n) (''false'' @ r) = Some (JBool False, r)"
  "parse_value (Suc n) (''null'' @ r) = Some (JNull, r)"
  by (simp_all add: json_ws_def scan_lit_def)

lemma parse_string_value:
  "parse_value (Suc n) (marshal_string s @ r) = Some (JStr (to_valid_utf8 s), r)"
  by (simp add: marshal_string_def json_ws_def parse_str_escape)

text \<open>The first byte of a printed value opens it: it is neither blank nor a closing bracket.\<close>

lemma marshal_head:
  assumes "json_wf j"
  obtains c cs where "marshal j = c # cs" and "\<not> json_ws c" and "c \<notin> {CHR ''}'', CHR '']''}"
proof (cases j)
  case (JNum lit)
  with assms have "scan_number lit = Some (lit, [])" by simp
  then obtain c cs where "lit = c # cs" and "is_digit c \<or> c = CHR ''-''"
    by (rule scan_number_head)
  with JNum digit_starts_number [of c] that show thesis by simp
next
  case (JBool b)
  with that show thesis by (cases b) (simp_all add: json_ws_def)
qed (auto simp: marshal_string_def json_ws_def intro: that)

lemma marshal_elems_head:
  assumes "vs \<noteq> []" and "list_all json_wf vs"
  obtains c cs where "marshal_elems vs = c # cs" and "\<not> json_ws c" and "c \<noteq> CHR '']''"
proof -
  from assms obtain v vs' where vs: "vs = v # vs'" and "json_wf v" by (cases vs) auto
  from this(2) obtain c cs where "marshal v = c # cs" "\<not> json_ws c" "c \<notin> {CHR ''}'', CHR '']''}"
    by (rule marshal_head)
  with vs that show thesis by simp
qed

lemma marshal_members_head:
  assumes "ms \<noteq> []"
  shows "\<exists>cs. marshal_members ms = quote_char # cs"
  using assms by (cases ms) (auto simp: marshal_string_def)

lemma num_end_simps [simp]:
  "num_end (CHR '','' # r)" "num_end (CHR ''}'' # r)" "num_end (CHR '']'' # r)" "num_end []"
  by (simp_all add: num_end_def is_digit_def)

lemma parse_marshal_mutual:
  shows "json_wf j \<Longrightarrow> num_end r \<Longrightarrow> 2 * length (marshal j) < n \<Longrightarrow>
      parse_value n (marshal j @ r) = Some (valid_json j, r)"
    and "list_all (\<lambda>kv. json_wf (snd kv)) ms \<Longrightarrow> ms \<noteq> [] \<Longrightarrow> 2 * length (marshal_members ms) < n \<Longrightarrow>
      parse_members n (marshal_members ms @ CHR ''}'' # r) = Some (map valid_member ms, r)"
    and "list_all json_wf vs \<Longrightarrow> vs \<noteq> [] \<Longrightarrow> Suc (2 * length (marshal_elems vs)) < n \<Longrightarrow>
      parse_elems n (marshal_elems vs @ CHR '']'' # r) = Some (map valid_json vs, r)"
proof (induction j and ms and vs arbitrary: n r and n r and n r
    rule: marshal_marshal_members_marshal_elems.induct)
  case 1
  then show ?case using parse_bool(3) by (cases n) simp_all
next
  case (2 b)
  then show ?case using parse_bool(1,2) by (cases n; cases b) simp_all
next
  case (3 lit)
  then show ?case using parse_number [of lit r] by (cases n) simp_all
next
  case (4 s)
  then show ?case using parse_string_value by (cases n) simp_all
next
  case (5 vs)
  from "5.prems" obtain m where n: "n = Suc m" by (cases n) auto
  show ?case
  proof (cases "vs = []")
    case True
    with n show ?thesis by (simp add: json_ws_def)
  next
    case False
    with "5.prems" obtain c cs where
        "marshal_elems vs = c # cs" "\<not> json_ws c" "c \<noteq> CHR '']''"
      by (auto elim: marshal_elems_head)
    with "5.IH" [of m r] "5.prems" False n show ?thesis by (simp add: json_ws_def)
  qed
next
  case (6 ms)
  from "6.prems" obtain m where n: "n = Suc m" by (cases n) auto
  show ?case
  proof (cases "ms = []")
    case True
    with n show ?thesis by (simp add: json_ws_def)
  next
    case False
    with marshal_members_head obtain cs where "marshal_members ms = quote_char # cs" by blast
    with "6.IH" [of m r] "6.prems" False n show ?thesis by (simp add: json_ws_def)
  qed
next
  case 7
  then show ?case by simp
next
  case (8 k v ms)
  from "8.prems" obtain m where n: "n = Suc m" by (cases n) auto
  let ?rest = "(if ms = [] then [] else CHR '','' # marshal_members ms) @ CHR ''}'' # r"
  have v: "parse_value m (marshal v @ ?rest) = Some (valid_json v, ?rest)"
    using "8.prems" n by (intro "8.IH"(1)) auto
  have key: "parse_str (escape k @ quote_char # t) = Some (to_valid_utf8 k, t)" for t
    by (rule parse_str_escape)
  show ?case
  proof (cases "ms = []")
    case True
    with v n key show ?thesis by (simp add: marshal_string_def json_ws_def)
  next
    case False
    then have "parse_members m (marshal_members ms @ CHR ''}'' # r) = Some (map valid_member ms, r)"
      using "8.prems" n by (intro "8.IH"(2)) auto
    with False v n key show ?thesis by (simp add: marshal_string_def json_ws_def)
  qed
next
  case 9
  then show ?case by simp
next
  case (10 v vs)
  from "10.prems" obtain m where n: "n = Suc m" by (cases n) auto
  let ?rest = "(if vs = [] then [] else CHR '','' # marshal_elems vs) @ CHR '']'' # r"
  have v: "parse_value m (marshal v @ ?rest) = Some (valid_json v, ?rest)"
    using "10.prems" n by (intro "10.IH"(1)) auto
  show ?case
  proof (cases "vs = []")
    case True
    with v n show ?thesis by (simp add: json_ws_def)
  next
    case False
    then have "parse_elems m (marshal_elems vs @ CHR '']'' # r) = Some (map valid_json vs, r)"
      using "10.prems" n by (intro "10.IH"(2)) auto
    with False v n show ?thesis by (simp add: json_ws_def)
  qed
qed

theorem parse_json_marshal_valid:
  assumes "json_wf j"
  shows "parse_json (marshal j) = Some (valid_json j)"
  using parse_marshal_mutual(1) [OF assms, of "[]" "Suc (2 * length (marshal j))"]
  by (simp add: parse_json_def skip_ws_def)

corollary parse_json_marshal: "json_wf j \<Longrightarrow> json_utf8 j \<Longrightarrow> parse_json (marshal j) = Some j"
  by (simp add: parse_json_marshal_valid json_utf8_id)

subsection \<open>The fuel is enough\<close>

lemma skip_ws_length: "length (skip_ws s) \<le> length s"
  by (simp add: skip_ws_def length_dropWhile_le)

lemma scan_digits_shorter: "scan_digits s = Some (d, r) \<Longrightarrow> length r < length s"
proof -
  assume a: "scan_digits s = Some (d, r)"
  then have "s = takeWhile is_digit s @ r" and "takeWhile is_digit s \<noteq> []"
    by (auto simp: scan_digits_def Let_def split: if_splits)
  then show ?thesis by (metis add_diff_cancel_right' diff_is_0_eq length_0_conv length_append not_le)
qed

lemma scan_int_part_shorter: "scan_int_part s = Some (d, r) \<Longrightarrow> length r < length s"
  by (auto simp: scan_int_part_def dest: scan_digits_shorter split: list.splits if_splits)

lemma scan_frac_length: "scan_frac s = Some (d, r) \<Longrightarrow> length r \<le> length s"
  by (auto simp: scan_frac_def dest: scan_digits_shorter split: list.splits if_splits)

lemma scan_exp_length: "scan_exp s = Some (d, r) \<Longrightarrow> length r \<le> length s"
  by (auto simp: scan_exp_def dest!: scan_digits_shorter split: list.splits if_splits)

lemma scan_number_shorter: "scan_number s = Some (d, r) \<Longrightarrow> length r < length s"
  by (fastforce simp: scan_number_def scan_unsigned_def bind_eq_Some_conv
      dest: scan_int_part_shorter scan_frac_length scan_exp_length split: list.splits if_splits)

lemma scan_lit_shorter: "scan_lit lit v s = Some (w, r) \<Longrightarrow> lit \<noteq> [] \<Longrightarrow> length r < length s"
  by (auto simp: scan_lit_def split: if_splits) (cases s; auto)

lemma skip_ws_Cons_length: "skip_ws s = c # cs \<Longrightarrow> length cs < length s"
  using skip_ws_length [of s] by simp

lemma parse_members_inv:
  assumes "parse_members (Suc n) s = Some (ms, r)"
  obtains cs k r1 r2 v r3 e r4 where
    "skip_ws s = quote_char # cs" and "parse_str cs = Some (k, r1)" and
    "skip_ws r1 = CHR '':'' # r2" and "parse_value n r2 = Some (v, r3)" and
    "skip_ws r3 = e # r4" and
    "e = CHR ''}'' \<and> r = r4 \<and> ms = [(k, v)] \<or>
     e = CHR '','' \<and> (\<exists>ms'. parse_members n r4 = Some (ms', r) \<and> ms = (k, v) # ms')"
proof -
  from assms obtain c cs where 1: "skip_ws s = c # cs" by (cases "skip_ws s") simp_all
  with assms have c: "c = quote_char" by (simp split: if_splits)
  with 1 assms obtain k r1 where 2: "parse_str cs = Some (k, r1)"
    by (cases "parse_str cs") auto
  with 1 c assms obtain d r2 where 3: "skip_ws r1 = d # r2" by (cases "skip_ws r1") simp_all
  with 1 2 c assms have d: "d = CHR '':''" by (simp split: if_splits)
  with 1 2 3 c assms obtain v r3 where 4: "parse_value n r2 = Some (v, r3)"
    by (cases "parse_value n r2") auto
  with 1 2 3 c d assms obtain e r4 where 5: "skip_ws r3 = e # r4"
    by (cases "skip_ws r3") simp_all
  have "e = CHR ''}'' \<and> r = r4 \<and> ms = [(k, v)] \<or>
      e = CHR '','' \<and> (\<exists>ms'. parse_members n r4 = Some (ms', r) \<and> ms = (k, v) # ms')"
    using assms by (cases "parse_members n r4") (auto simp: 1 2 3 4 5 c d split: if_splits)
  with 1 2 3 4 5 c d show thesis by (intro that) simp_all
qed

lemma parse_elems_inv:
  assumes "parse_elems (Suc n) s = Some (vs, r)"
  obtains v r1 e r2 where
    "parse_value n s = Some (v, r1)" and "skip_ws r1 = e # r2" and
    "e = CHR '']'' \<and> r = r2 \<and> vs = [v] \<or>
     e = CHR '','' \<and> (\<exists>vs'. parse_elems n r2 = Some (vs', r) \<and> vs = v # vs')"
proof -
  from assms obtain v r1 where 1: "parse_value n s = Some (v, r1)"
    by (cases "parse_value n s") auto
  with assms obtain e r2 where 2: "skip_ws r1 = e # r2" by (cases "skip_ws r1") simp_all
  have "e = CHR '']'' \<and> r = r2 \<and> vs = [v] \<or>
      e = CHR '','' \<and> (\<exists>vs'. parse_elems n r2 = Some (vs', r) \<and> vs = v # vs')"
    using assms by (cases "parse_elems n r2") (auto simp: 1 2 split: if_splits)
  with 1 2 show thesis by (rule that)
qed

lemma parse_shorter:
  shows "parse_value n s = Some (v, r) \<Longrightarrow> length r < length s"
    and "parse_members n s = Some (ms, r) \<Longrightarrow> length r < length s"
    and "parse_elems n s = Some (vs, r) \<Longrightarrow> length r < length s"
proof (induction n s and n s and n s arbitrary: v r and ms r and vs r
    rule: parse_value_parse_members_parse_elems.induct)
  case (2 n s)
  from "2.prems" obtain c cs where s: "skip_ws s = c # cs" by (auto split: list.splits)
  note len = skip_ws_Cons_length [OF s]
  have obj: "length r < length s" if c: "c = CHR ''{''"
  proof -
    from c "2.prems" s obtain d t where t: "skip_ws cs = d # t" by (auto split: list.splits)
    show ?thesis
      using "2.prems" "2.IH"(1) [OF s _ c t] c s t len skip_ws_Cons_length [OF t]
      by (fastforce split: if_splits)
  qed
  have arr: "length r < length s" if c: "c = CHR ''[''"
  proof -
    from c "2.prems" s obtain d t where t: "skip_ws cs = d # t" by (auto split: list.splits)
    show ?thesis
      using "2.prems" "2.IH"(2) [OF s _ _ c t] c s t len skip_ws_Cons_length [OF t]
      by (fastforce split: if_splits)
  qed
  show ?case
    using "2.prems" s len obj arr
    by (auto split: if_splits dest!: parse_str_shorter scan_lit_shorter scan_number_shorter)
next
  case (4 n s)
  from "4.prems" show ?case
  proof (rule parse_members_inv)
    fix cs k r1 r2 v r3 e r4
    assume step: "skip_ws s = quote_char # cs" "parse_str cs = Some (k, r1)"
        "skip_ws r1 = CHR '':'' # r2" "parse_value n r2 = Some (v, r3)" "skip_ws r3 = e # r4"
      and last: "e = CHR ''}'' \<and> r = r4 \<and> ms = [(k, v)] \<or>
        e = CHR '','' \<and> (\<exists>ms'. parse_members n r4 = Some (ms', r) \<and> ms = (k, v) # ms')"
    have "length r4 < length s"
      using step(1,3,5)[THEN skip_ws_Cons_length] parse_str_shorter [OF step(2)]
        "4.IH"(1) step by fastforce
    moreover have "length r \<le> length r4"
      using last "4.IH"(2) step by fastforce
    ultimately show ?thesis by simp
  qed
next
  case (6 n s)
  from "6.prems" show ?case
  proof (rule parse_elems_inv)
    fix v r1 e r2
    assume step: "parse_value n s = Some (v, r1)" "skip_ws r1 = e # r2"
      and last: "e = CHR '']'' \<and> r = r2 \<and> vs = [v] \<or>
        e = CHR '','' \<and> (\<exists>vs'. parse_elems n r2 = Some (vs', r) \<and> vs = v # vs')"
    have "length r2 < length s"
      using skip_ws_Cons_length [OF step(2)] "6.IH"(1) [OF step(1)] by simp
    moreover have "length r \<le> length r2"
      using last "6.IH"(2) step by fastforce
    ultimately show ?thesis by simp
  qed
qed simp_all

text \<open>Every string of a value that has been read is valid UTF-8.\<close>

lemma parse_utf8:
  shows "parse_value n s = Some (v, r) \<Longrightarrow> json_utf8 v"
    and "parse_members n s = Some (ms, r) \<Longrightarrow> json_utf8 (JObj ms)"
    and "parse_elems n s = Some (vs, r) \<Longrightarrow> json_utf8 (JArr vs)"
proof (induction n s and n s and n s arbitrary: v r and ms r and vs r
    rule: parse_value_parse_members_parse_elems.induct)
  case (2 n s)
  from "2.prems" obtain c cs where s: "skip_ws s = c # cs" by (auto split: list.splits)
  have obj: "json_utf8 v" if c: "c = CHR ''{''"
  proof -
    from c "2.prems" s obtain d t where t: "skip_ws cs = d # t" by (auto split: list.splits)
    show ?thesis using "2.prems" "2.IH"(1) [OF s _ c t] c s t by (auto split: if_splits)
  qed
  have arr: "json_utf8 v" if c: "c = CHR ''[''"
  proof -
    from c "2.prems" s obtain d t where t: "skip_ws cs = d # t" by (auto split: list.splits)
    show ?thesis using "2.prems" "2.IH"(2) [OF s _ _ c t] c s t by (auto split: if_splits)
  qed
  show ?case
    using "2.prems" s obj arr
    by (auto simp: scan_lit_def split: if_splits dest: parse_str_valid)
next
  case (4 n s)
  from "4.prems" show ?case
  proof (rule parse_members_inv)
    fix cs k r1 r2 v r3 e r4
    assume step: "skip_ws s = quote_char # cs" "parse_str cs = Some (k, r1)"
        "skip_ws r1 = CHR '':'' # r2" "parse_value n r2 = Some (v, r3)" "skip_ws r3 = e # r4"
      and last: "e = CHR ''}'' \<and> r = r4 \<and> ms = [(k, v)] \<or>
        e = CHR '','' \<and> (\<exists>ms'. parse_members n r4 = Some (ms', r) \<and> ms = (k, v) # ms')"
    show ?thesis using last "4.IH" step parse_str_valid [OF step(2)] by fastforce
  qed
next
  case (6 n s)
  from "6.prems" show ?case
  proof (rule parse_elems_inv)
    fix v r1 e r2
    assume step: "parse_value n s = Some (v, r1)" "skip_ws r1 = e # r2"
      and last: "e = CHR '']'' \<and> r = r2 \<and> vs = [v] \<or>
        e = CHR '','' \<and> (\<exists>vs'. parse_elems n r2 = Some (vs', r) \<and> vs = v # vs')"
    show ?thesis using last "6.IH" step by fastforce
  qed
qed simp_all

lemma parse_json_utf8: "parse_json s = Some j \<Longrightarrow> json_utf8 j"
  by (auto simp: parse_json_def simp del: parse_value.simps dest: parse_utf8(1) split: option.splits if_splits)

lemma bind_cong_Some:
  "(\<And>x. m = Some x \<Longrightarrow> f x = g x) \<Longrightarrow> Option.bind m f = Option.bind m g"
  by (cases m) auto

lemma parse_fuel_mutual:
  shows "2 * length s < n \<Longrightarrow> 2 * length s < m \<Longrightarrow> parse_value n s = parse_value m s"
    and "2 * length s < n \<Longrightarrow> 2 * length s < m \<Longrightarrow> parse_members n s = parse_members m s"
    and "Suc (2 * length s) < n \<Longrightarrow> Suc (2 * length s) < m \<Longrightarrow> parse_elems n s = parse_elems m s"
proof (induction n s and n s and n s arbitrary: m and m and m
    rule: parse_value_parse_members_parse_elems.induct)
  case (2 n s)
  from "2.prems" obtain m' where m: "m = Suc m'" by (cases m) auto
  show ?case
  proof (cases "skip_ws s")
    case (Cons c cs)
    note len = skip_ws_Cons_length [OF Cons]
    have obj: "parse_members n (d # t) = parse_members m' (d # t)"
      if "c = CHR ''{''" "skip_ws cs = d # t" "d \<noteq> CHR ''}''" for d t
      using "2.IH"(1) [OF Cons _ that(1,2), of m'] that "2.prems" m len
        skip_ws_length [of cs] by simp
    have arr: "parse_elems n (d # t) = parse_elems m' (d # t)"
      if "c = CHR ''[''" "skip_ws cs = d # t" "d \<noteq> CHR '']''" for d t
      using "2.IH"(2) [OF Cons _ _ that(1,2), of m'] that "2.prems" m len
        skip_ws_length [of cs] by simp
    show ?thesis by (simp add: m Cons obj arr split: list.splits)
  qed (simp add: m)
next
  case (4 n s)
  from "4.prems" obtain m' where m: "m = Suc m'" by (cases m) auto
  show ?case
  proof (cases "skip_ws s")
    case (Cons c cs)
    note len = skip_ws_Cons_length [OF Cons]
    have val: "parse_value n r2 = parse_value m' r2"
      if "c = quote_char" "parse_str cs = Some (k, r1)" "skip_ws r1 = CHR '':'' # r2" for k r1 r2
      using "4.IH"(1) [OF Cons _ that(2) refl that(3), of m'] that(1) "4.prems" m len
        parse_str_shorter [OF that(2)] skip_ws_Cons_length [OF that(3)] by simp
    have mem: "parse_members n r4 = parse_members m' r4"
      if "c = quote_char" "parse_str cs = Some (k, r1)" "skip_ws r1 = CHR '':'' # r2"
        "parse_value n r2 = Some (v, r3)" "skip_ws r3 = CHR '','' # r4" for k r1 r2 v r3 r4
      using "4.IH"(2) [OF Cons _ that(2) refl that(3) _ that(4) refl that(5), of m'] that(1)
        "4.prems" m len parse_str_shorter [OF that(2)] skip_ws_Cons_length [OF that(3)]
        parse_shorter(1) [OF that(4)] skip_ws_Cons_length [OF that(5)] by simp
    show ?thesis
      by (auto simp: m Cons val [symmetric] mem intro!: bind_cong_Some split: list.splits)
  qed (simp add: m)
next
  case (6 n s)
  from "6.prems" obtain m' where m: "m = Suc m'" by (cases m) auto
  have val: "parse_value n s = parse_value m' s"
    using "6.IH"(1) [of m'] "6.prems" m by simp
  have elems: "parse_elems n r2 = parse_elems m' r2"
    if "parse_value n s = Some (v, r1)" "skip_ws r1 = CHR '','' # r2" for v r1 r2
    using "6.IH"(2) [OF that(1) refl that(2), of m'] "6.prems" m
      parse_shorter(1) [OF that(1)] skip_ws_Cons_length [OF that(2)] by simp
  show ?case
    by (auto simp: m val [symmetric] elems intro!: bind_cong_Some split: list.splits)
qed simp_all

lemma parse_value_fuel:
  "2 * length s < n \<Longrightarrow> 2 * length s < m \<Longrightarrow> parse_value n s = parse_value m s"
  by (rule parse_fuel_mutual(1))

subsection \<open>Decoding into a struct\<close>

text \<open>
  A key selects the field of that name, or else one that differs in letter case only, where the
  long s and the sign for Kelvin count as an \<open>s\<close> and a \<open>k\<close>; other keys are skipped. \<open>null\<close> leaves a field as it is. A value of the wrong type is skipped too,
  but \<open>Unmarshal\<close> then returns an error once the rest is decoded: the \<open>bool\<close> is False.
\<close>

type_synonym 'c field = "'c \<Rightarrow> json \<Rightarrow> 'c \<times> bool"

fun ascii_fold :: "string \<Rightarrow> string" where
  "ascii_fold (a # b # c # r) =
     (if a = CHR 0xC5 \<and> b = CHR 0xBF then CHR ''s'' # ascii_fold (c # r)
      else if a = CHR 0xE2 \<and> b = CHR 0x84 \<and> c = CHR 0xAA then CHR ''k'' # ascii_fold r
      else a # ascii_fold (b # c # r))"
| "ascii_fold [a, b] = (if a = CHR 0xC5 \<and> b = CHR 0xBF then ''s'' else [a, b])"
| "ascii_fold s = s"

definition fold_name :: "string \<Rightarrow> string" where
  "fold_name s = map (\<lambda>c. let n = of_char c :: nat in
     if 65 \<le> n \<and> n \<le> 90 then char_of (n + 32) else c) (ascii_fold s)"

definition find_field :: "(string \<times> 'c field) list \<Rightarrow> string \<Rightarrow> 'c field option" where
  "find_field fs k = (case map_of fs k of
       Some f \<Rightarrow> Some f
     | None \<Rightarrow> map_option snd (find (\<lambda>nf. fold_name (fst nf) = fold_name k) fs))"

definition decode_member ::
  "(string \<times> 'c field) list \<Rightarrow> 'c \<times> bool \<Rightarrow> string \<times> json \<Rightarrow> 'c \<times> bool" where
  "decode_member fs st kv = (case find_field fs (fst kv) of
       None \<Rightarrow> st
     | Some f \<Rightarrow> let (c, ok) = f (fst st) (snd kv) in (c, snd st \<and> ok))"

definition decode_struct :: "(string \<times> 'c field) list \<Rightarrow> 'c \<Rightarrow> json \<Rightarrow> 'c \<times> bool" where
  "decode_struct fs c j = (case j of
       JNull \<Rightarrow> (c, True)
     | JObj ms \<Rightarrow> foldl (decode_member fs) (c, True) ms
     | _ \<Rightarrow> (c, False))"

definition string_field :: "(string \<Rightarrow> 'c \<Rightarrow> 'c) \<Rightarrow> 'c field" where
  "string_field upd c j = (case j of JStr s \<Rightarrow> (upd s c, True) | JNull \<Rightarrow> (c, True) | _ \<Rightarrow> (c, False))"

definition bool_field :: "(bool \<Rightarrow> 'c \<Rightarrow> 'c) \<Rightarrow> 'c field" where
  "bool_field upd c j = (case j of JBool b \<Rightarrow> (upd b c, True) | JNull \<Rightarrow> (c, True) | _ \<Rightarrow> (c, False))"

definition parse_int_literal :: "string \<Rightarrow> int option" where
  \<comment> \<open>\<open>strconv.ParseInt\<close> on a number literal: no fraction, no exponent, within \<open>int64\<close>\<close>
  "parse_int_literal lit =
     (let (neg, ds) = scan_sign lit
      in if ds \<noteq> [] \<and> list_all is_digit ds then parse_int64 neg ds else None)"

definition int_field :: "(int \<Rightarrow> 'c \<Rightarrow> 'c) \<Rightarrow> 'c field" where
  "int_field upd c j = (case j of
       JNum lit \<Rightarrow> (case parse_int_literal lit of Some i \<Rightarrow> (upd i c, True) | None \<Rightarrow> (c, False))
     | JNull \<Rightarrow> (c, True)
     | _ \<Rightarrow> (c, False))"

subsection \<open>Decoding into \<open>map[string]any\<close>, and maps printed\<close>

text \<open>
  A Go map prints its keys in byte order and holds one entry per key, the last one read. Such
  a map is kept as the association list \<open>put_key\<close> builds, sorted by key.
\<close>

fun put_key :: "string \<Rightarrow> 'v \<Rightarrow> (string \<times> 'v) list \<Rightarrow> (string \<times> 'v) list" where
  "put_key k v [] = [(k, v)]"
| "put_key k v ((k', v') # m) =
     (if k = k' then (k, v) # m
      else if k < k' then (k, v) # (k', v') # m
      else (k', v') # put_key k v m)"

definition key_map :: "(string \<times> 'v) list \<Rightarrow> (string \<times> 'v) list" where
  "key_map kvs = foldl (\<lambda>m kv. put_key (fst kv) (snd kv) m) [] kvs"

fun all_some :: "'a option list \<Rightarrow> 'a list option" where
  "all_some [] = Some []"
| "all_some (x # xs) = (case x of None \<Rightarrow> None | Some y \<Rightarrow> map_option (Cons y) (all_some xs))"

fun to_any :: "(string \<Rightarrow> string option) \<Rightarrow> json \<Rightarrow> json option" where
  "to_any f64 (JNum lit) = map_option JNum (f64 lit)"
| "to_any f64 (JArr vs) = map_option JArr (all_some (map (to_any f64) vs))"
| "to_any f64 (JObj ms) =
     map_option (\<lambda>kvs. JObj (key_map kvs))
       (all_some (map (\<lambda>kv. map_option (Pair (fst kv)) (to_any f64 (snd kv))) ms))"
| "to_any f64 j = Some j"

text \<open>
  \<open>Unmarshal\<close> into a nil \<open>map[string]any\<close>: \<open>null\<close> leaves it nil, a value that is no object is an
  error. The inner option is Go's nil map.
\<close>

definition unmarshal_any_map ::
  "(string \<Rightarrow> string option) \<Rightarrow> string \<Rightarrow> (string \<times> json) list option option" where
  "unmarshal_any_map f64 s = (case parse_json s of
       None \<Rightarrow> None
     | Some j \<Rightarrow> (case to_any f64 j of
           None \<Rightarrow> None
         | Some JNull \<Rightarrow> Some None
         | Some (JObj m) \<Rightarrow> Some (Some m)
         | Some _ \<Rightarrow> None))"

definition marshal_any_map :: "(string \<times> json) list option \<Rightarrow> string" where
  "marshal_any_map m = (case m of None \<Rightarrow> ''null'' | Some kvs \<Rightarrow> marshal (JObj kvs))"

definition marshal_string_map :: "string_map \<Rightarrow> string" where
  "marshal_string_map m = marshal (JObj (map (\<lambda>kv. (fst kv, JStr (snd kv))) (key_map m)))"

lemma map_of_put_key [simp]: "map_of (put_key k v m) = (map_of m)(k \<mapsto> v)"
  by (induction k v m rule: put_key.induct) auto

end
