(* ===== verification/StatefulSet.thy ===== *)
theory StatefulSet
  imports Pvc Service Go_Json
begin

section \<open>The stateful set: \<open>private/controllers/statefulset\<close>\<close>

text \<open>
  The stateful set that runs PostgreSQL under Patroni. Selector, claim template, service name
  and pod management policy are set when it is created, since Kubernetes refuses to change
  them; replicas and pod template are set every time. During an upgrade the template is
  patched. A plain reconcile then decides whether the cluster is ready.
\<close>

definition patroniPort :: int where "patroniPort = 8008"
definition patroniPortName :: string where "patroniPortName = ''patroni''"
definition PatroniSuperuserUsername :: string where "PatroniSuperuserUsername = ''postgres''"
definition patroniReplicationUsername :: string where "patroniReplicationUsername = ''standby''"
definition DataVolumeMountPath :: string where "DataVolumeMountPath = ''/var/lib/postgresql''"

definition dataPVCTemplate :: pvc_template where
  "dataPVCTemplate = \<lparr>vct_name = VolumeName,
     vct_annotations = [(''patronipostgres.kwebs.cloud/pvc-management'', ''by-operator'')],
     vct_access_modes = [''ReadWriteOnce''], vct_requests = [(''storage'', ''1Mi'')]\<rparr>"

subsection \<open>Patches\<close>

text \<open>The \<open>Patch\<close> interface; \<open>None\<close> is the panic of indexing an empty list of containers.\<close>

type_synonym sts_patch_fun = "statefulset \<Rightarrow> statefulset option"

abbreviation sts_pod :: "statefulset \<Rightarrow> pod_spec" where
  "sts_pod s \<equiv> pt_spec (ss_template (sts_spec s))"

definition set_containers :: "container list \<Rightarrow> statefulset \<Rightarrow> statefulset" where
  "set_containers cs s = s\<lparr>sts_spec := (sts_spec s)\<lparr>ss_template := (ss_template (sts_spec s))
     \<lparr>pt_spec := (sts_pod s)\<lparr>ps_containers := cs\<rparr>\<rparr>\<rparr>\<rparr>"

definition on_first_container :: "(container \<Rightarrow> container) \<Rightarrow> sts_patch_fun" where
  "on_first_container f s = (case ps_containers (sts_pod s) of
       [] \<Rightarrow> None
     | c # cs \<Rightarrow> Some (set_containers (f c # cs) s))"

definition add_envs :: "env_var list \<Rightarrow> container \<Rightarrow> container" where
  "add_envs es c = c\<lparr>ct_env := ct_env c @ es\<rparr>"

definition sts_withPostgresqlPort_Patch :: "int \<Rightarrow> sts_patch_fun" where
  "sts_withPostgresqlPort_Patch p =
     on_first_container (add_envs [env_val ''POSTGRESQL_PORT'' (show_int p)])"

text \<open>The shell script of the \<open>preStop\<close> hook, line by line (39 is a single quote).\<close>

definition pre_stop_script :: string where
  "pre_stop_script = join [CHR 0x0A]
    [[],
     ''host='',
     ''eval $(sed -n -r -e '' @ [CHR 0x22] @ ''/^primary_conninfo[[:space:]]*=/{s/^.*=[[:space:]]*''
       @ [CHR 0x27] @ ''//; s/'' @ [CHR 0x27] @ ''.*$//; p}'' @ [CHR 0x22]
       @ '' ${PGDATA}/postgresql.conf)'',
     ''if [ -n '' @ [CHR 0x22] @ ''$host'' @ [CHR 0x22] @ '' ]; then'',
     ''  echo '' @ [CHR 0x22] @ ''Waiting for primary to shutdown'' @ [CHR 0x22],
     ''  while nc -z -w 1 '' @ [CHR 0x22] @ ''$host'' @ [CHR 0x22] @ '' '' @ [CHR 0x22] @ ''$port''
       @ [CHR 0x22] @ ''; do'',
     ''    sleep 1'',
     ''  done'',
     [],
     ''  echo '' @ [CHR 0x22] @ ''Delaying shutdown of replica'' @ [CHR 0x22],
     ''  sleep 2'',
     ''fi'',
     [],
     ''/usr/lib/postgresql/${PG_VERSION}/bin/pg_ctl stop -D ${PGDATA} -m fast -w'',
     []]"

definition withPausedPatroni_Patch :: sts_patch_fun where
  "withPausedPatroni_Patch = on_first_container (\<lambda>c.
     (add_envs [env_val ''PGDATA'' (DataVolumeMountPath @ ''/data'')] c)
       \<lparr>ct_pre_stop := Some [''sh'', ''-c'', pre_stop_script]\<rparr>)"

fun apply_sts_patches :: "sts_patch_fun list \<Rightarrow> sts_patch_fun" where
  "apply_sts_patches [] s = Some s"
| "apply_sts_patches (q # qs) s = Option.bind (q s) (apply_sts_patches qs)"

subsection \<open>The desired stateful set\<close>

definition node_tag_env :: "string \<Rightarrow> nat \<Rightarrow> string \<Rightarrow> env_var" where
  "node_tag_env podPrefix idx tag =
     env_val (''PATRONI_NODE_'' @ podPrefix @ ''_'' @ show_nat idx @ ''_TAG_'' @ tag) ''true''"

definition genNodeTagsEnvs :: "patroni \<Rightarrow> env_var list" where
  "genNodeTagsEnvs p =
     (let podPrefix = replace_all (CHR ''-'') ''_'' (pp_name p)
      in concat (map (\<lambda>(idx, node).
           (if nt_nosync (nd_tags node) then [node_tag_env podPrefix idx ''nosync''] else []) @
           (if nt_nofailover (nd_tags node) then [node_tag_env podPrefix idx ''nofailover''] else []))
         (enumerate 0 (pp_nodes p))))"

definition pod_affinity_of :: "patroni \<Rightarrow> affinity option" where
  "pod_affinity_of p =
     (let key = spec_anti_affinity_key (pp_spec_of p); aff = spec_affinity (pp_spec_of p)
      in if key = [] then aff
         else
           let a = (case aff of None \<Rightarrow> \<lparr>af_pod_anti = None, af_rest = []\<rparr> | Some a \<Rightarrow> a);
               anti = (case af_pod_anti a of
                         None \<Rightarrow> \<lparr>paa_required = [], paa_preferred = []\<rparr> | Some x \<Rightarrow> x);
               term = \<lparr>pat_topology_key = key,
                       pat_match_labels = PodLabels p ComponentPostgres, pat_rest = []\<rparr>
           in Some (a\<lparr>af_pod_anti := Some (anti\<lparr>paa_required := paa_required anti @ [term]\<rparr>)\<rparr>))"

definition initial_sts_spec :: "patroni \<Rightarrow> statefulset_spec" where
  "initial_sts_spec p = zero_statefulset_spec
     \<lparr>ss_selector := CommonLabels p, ss_claim_templates := [dataPVCTemplate],
      ss_service_name := HeadlessServiceName p, ss_pod_management := ''Parallel''\<rparr>"

definition postgres_envs :: "patroni \<Rightarrow> env_var list" where
  "postgres_envs p =
    [env_val ''PG_VERSION'' (show_int (pp_version p)),
     env_from ''PATRONI_KUBERNETES_POD_IP'' (FieldRef ''status.podIP''),
     env_from ''PATRONI_KUBERNETES_NAMESPACE'' (FieldRef ''metadata.namespace''),
     env_from ''PATRONI_NAME'' (FieldRef ''metadata.name''),
     env_val ''PATRONI_SCOPE'' (pp_name p),
     env_val ''PATRONI_KUBERNETES_LABELS'' (marshal_string_map (CommonLabels p)),
     env_val ''PATRONI_SUPERUSER_USERNAME'' PatroniSuperuserUsername,
     env_from ''PATRONI_SUPERUSER_PASSWORD'' (SecretKeyRef (secret_Name p) SuperUserPasswordKey),
     env_val ''PATRONI_REPLICATION_USERNAME'' patroniReplicationUsername,
     env_from ''PATRONI_REPLICATION_PASSWORD''
       (SecretKeyRef (secret_Name p) ReplicationUserPasswordKey),
     env_val ''PATRONI_INITIAL_SYNCHRONOUS_MODE'' ''true'',
     env_val ''PATRONI_KUBERNETES_LEADER_LABEL_VALUE'' PatroniPodRole_Master,
     env_val ''PATRONI_KUBERNETES_STANDBY_LEADER_LABEL_VALUE'' PatroniPodRole_Master,
     env_val ''PATRONI_KUBERNETES_TMP_ROLE_LABEL'' Patroni4PodRoleKey]"

definition postgres_container :: "wctx \<Rightarrow> patroni \<Rightarrow> container" where
  "postgres_container C p = zero_container
     \<lparr>ct_name := ''postgres'', ct_image := Image_Image C, ct_env := postgres_envs p,
      ct_ports := [\<lparr>cp_name = PostgresPortName, cp_port = word_of_int PostgresPort\<rparr>,
                   \<lparr>cp_name = patroniPortName, cp_port = word_of_int patroniPort\<rparr>],
      ct_resources := spec_resources (pp_spec_of p),
      ct_liveness := Some \<lparr>pr_handler = HTTPGet ''/liveness'' (FromInt patroniPort),
        pr_initial_delay = 0, pr_success_threshold = 0\<rparr>,
      ct_readiness := Some \<lparr>pr_handler = HTTPGet ''/readiness'' (FromInt patroniPort),
        pr_initial_delay = 5, pr_success_threshold = 3\<rparr>,
      ct_mounts := [\<lparr>vm_name = VolumeName, vm_path = DataVolumeMountPath\<rparr>],
      ct_security := Some ContainerSecurityContext\<rparr>"

definition sts_pod_template :: "wctx \<Rightarrow> patroni \<Rightarrow> pod_template" where
  "sts_pod_template C p = zero_pod_template
     \<lparr>pt_labels := PodLabels p ComponentPostgres,
      pt_annotations := spec_annotations (pp_spec_of p),
      pt_spec := zero_pod_spec
        \<lparr>ps_affinity := pod_affinity_of p, ps_service_account := ServiceAccountName p,
         ps_service_links := Some False, ps_containers := [postgres_container C p],
         ps_security := Some DatabasePodSecurityContext,
         ps_pull_secrets := spec_pull_secrets (pp_spec_of p),
         ps_node_selector := spec_node_selector (pp_spec_of p),
         ps_tolerations := spec_tolerations (pp_spec_of p)\<rparr>\<rparr>"

definition sts_fields :: "wctx \<Rightarrow> patroni \<Rightarrow> statefulset \<Rightarrow> statefulset" where
  "sts_fields C p s = s\<lparr>sts_spec := (sts_spec s)
     \<lparr>ss_min_ready := 60, ss_replicas := Some (word_of_int (int (length (pp_nodes p)))),
      ss_template := sts_pod_template C p\<rparr>\<rparr>"

definition add_extra_containers :: "patroni \<Rightarrow> statefulset \<Rightarrow> statefulset" where
  "add_extra_containers p s =
     set_containers (ps_containers (sts_pod s) @ spec_extra_containers (pp_spec_of p)) s"

definition GetK8SStatefulSet :: "wctx \<Rightarrow> statefulset kop" where
  "GetK8SStatefulSet C = bnd inst (\<lambda>p.
     kget (wx_env C) StatefulSetT (pp_namespace p) (pp_name p))"

text \<open>The number of ready replicas is recorded even when the write failed.\<close>

definition ReconcileSts :: "wctx \<Rightarrow> sts_patch_fun list \<Rightarrow> statefulset kop" where
  "ReconcileSts C patches = bnd inst (\<lambda>p.
     bnd (found (GetK8SStatefulSet C)) (\<lambda>r.
     let create = (r = None); s = (case r of None \<Rightarrow> new_statefulset (pp_name p) | Some s \<Rightarrow> s) in
     bnd (set_meta_of C StatefulSetT s) (\<lambda>s.
     let s = (if create then s\<lparr>sts_spec := initial_sts_spec p\<rparr> else s) in
     bnd (of_option (apply_sts_patches patches (sts_fields C p s))) (\<lambda>s.
     bnd (of_option (on_first_container (add_envs (genNodeTagsEnvs p)) s)) (\<lambda>s.
     let s = add_extra_containers p s in
     bnd (attempt (create_or_update (wx_env C) StatefulSetT create s)) (\<lambda>w.
     let s' = (case w of Inr s' \<Rightarrow> s' | Inl _ \<Rightarrow> s) in
     bnd (set_status (\<lambda>st. st\<lparr>st_ready := sts_ready s'\<rparr>)) (\<lambda>_.
     case w of Inl e \<Rightarrow> fail e | Inr _ \<Rightarrow> ret s')))))))"

definition statefulset_Reconcile :: "wctx \<Rightarrow> unit kop" where
  "statefulset_Reconcile C = bnd (ReconcileSts C []) (\<lambda>s. bnd inst (\<lambda>p.
     if sint (sts_ready s) = int (length (pp_nodes p))
     then set_status (\<lambda>st. st\<lparr>st_state := StateReady,
            st_upgrade_versions := image_UpgradeVersions (wx_image C) (pp_version p)\<rparr>)
     else set_status (\<lambda>st. st\<lparr>st_state := StateScaling\<rparr>)))"

end
