(* ===== verification/Configmap.thy ===== *)
theory Configmap
  imports Op_Context Go_Json
begin

section \<open>Patroni's config maps: \<open>private/controllers/configmap\<close>\<close>

text \<open>
  Patroni keeps the cluster's shared state in annotations of four config maps. The operator
  makes sure they exist and are owned, and during an upgrade reads and writes the annotations
  of the \<open>config\<close> map: the database system id, Patroni's own configuration, and two notes of
  its own. The \<open>sync\<close> map names the leader.

  A nil annotation map can be read and deleted from; writing to it panics.
\<close>

definition configCMName :: string where "configCMName = ''config''"
definition leaderCMName :: string where "leaderCMName = ''leader''"
definition syncCMName :: string where "syncCMName = ''sync''"
definition failoverCMName :: string where "failoverCMName = ''failover''"
definition syncCMLeaderAnnotation :: string where "syncCMLeaderAnnotation = ''leader''"
definition configCMdbidAnnotation :: string where "configCMdbidAnnotation = ''initialize''"
definition configCMconfigAnnotation :: string where "configCMconfigAnnotation = ''config''"
definition configPauseKey :: string where "configPauseKey = ''pause''"
definition configCMPrimaryInitdbArgs :: string where
  "configCMPrimaryInitdbArgs = ''primary-initdb-args''"
definition configCMLatestCheckpointLocation :: string where
  "configCMLatestCheckpointLocation = ''latest-checkpoint-location''"

lemmas cm_names = configCMName_def leaderCMName_def syncCMName_def failoverCMName_def
lemmas cm_keys = syncCMLeaderAnnotation_def configCMdbidAnnotation_def configCMconfigAnnotation_def
  configPauseKey_def configCMPrimaryInitdbArgs_def configCMLatestCheckpointLocation_def

definition cmName :: "patroni \<Rightarrow> string \<Rightarrow> string" where
  "cmName p name = pp_name p @ ''-'' @ name"

definition configmap_Reconcile :: "wctx \<Rightarrow> unit kop" where
  "configmap_Reconcile C =
     for_each [configCMName, leaderCMName, syncCMName, failoverCMName] (\<lambda>name.
       bnd inst (\<lambda>p.
       adopt_or_create C ConfigMapT (cmName p name) (ret (new_config_map (cmName p name)))))"

definition getConfigCM :: "wctx \<Rightarrow> config_map kop" where
  "getConfigCM C = bnd inst (\<lambda>p.
     kget (wx_env C) ConfigMapT (pp_namespace p) (cmName p configCMName))"

subsection \<open>Annotations\<close>

definition annotation :: "config_map \<Rightarrow> string \<Rightarrow> string option" where
  "annotation cm k = (case m_annotations (cm_meta cm) of None \<Rightarrow> None | Some m \<Rightarrow> map_of m k)"

definition set_annotation :: "string \<Rightarrow> string \<Rightarrow> config_map \<Rightarrow> config_map option" where
  \<comment> \<open>\<open>None\<close> is the panic of writing to a nil map\<close>
  "set_annotation k v cm = (case m_annotations (cm_meta cm) of
       None \<Rightarrow> None
     | Some m \<Rightarrow> Some (cm\<lparr>cm_meta := (cm_meta cm)\<lparr>m_annotations := Some (map_set k v m)\<rparr>\<rparr>))"

definition del_annotation :: "string \<Rightarrow> config_map \<Rightarrow> config_map" where
  "del_annotation k cm =
     cm\<lparr>cm_meta := (cm_meta cm)\<lparr>m_annotations := map_option (map_del k) (m_annotations (cm_meta cm))\<rparr>\<rparr>"

definition GetDBId :: "wctx \<Rightarrow> string kop" where
  "GetDBId C = bnd (getConfigCM C) (\<lambda>cm.
     case annotation cm configCMdbidAnnotation of
       None \<Rightarrow> fail ErrNoDBIDfound
     | Some dbid \<Rightarrow> ret dbid)"

text \<open>Patroni's configuration without its \<open>pause\<close> key; \<open>None\<close> is \<open>json.Unmarshal\<close>'s error.\<close>

definition resume_config :: "(string \<Rightarrow> string option) \<Rightarrow> string \<Rightarrow> string option" where
  "resume_config f64 configs = (case unmarshal_any_map f64 configs of
       None \<Rightarrow> None
     | Some config \<Rightarrow> Some (marshal_any_map (map_option (map_del configPauseKey) config)))"

definition SetDBId :: "wctx \<Rightarrow> string \<Rightarrow> unit kop" where
  "SetDBId C dbid = bnd (getConfigCM C) (\<lambda>cm.
     bnd (of_option (set_annotation configCMdbidAnnotation dbid cm)) (\<lambda>cm.
     case annotation cm configCMconfigAnnotation of
       None \<Rightarrow> fail ErrNoConfigAnnotation
     | Some configs \<Rightarrow>
         (case resume_config (ke_f64 (wx_env C)) configs of
            None \<Rightarrow> fail JsonError
          | Some configb \<Rightarrow>
              bnd (of_option (set_annotation configCMconfigAnnotation configb cm)) (\<lambda>cm.
              bnd (kupdate (wx_env C) ConfigMapT cm) (\<lambda>_. ret ())))))"

definition GetPrimaryInitdbArgs :: "wctx \<Rightarrow> string kop" where
  "GetPrimaryInitdbArgs C = bnd (getConfigCM C) (\<lambda>cm.
     ret (case annotation cm configCMPrimaryInitdbArgs of None \<Rightarrow> [] | Some a \<Rightarrow> a))"

definition SetPrimaryInitdbArgs :: "wctx \<Rightarrow> string \<Rightarrow> unit kop" where
  "SetPrimaryInitdbArgs C args = bnd (getConfigCM C) (\<lambda>cm.
     bnd (of_option (set_annotation configCMPrimaryInitdbArgs args cm)) (\<lambda>cm.
     bnd (kupdate (wx_env C) ConfigMapT cm) (\<lambda>_. ret ())))"

text \<open>The later check overwrites the error of the earlier one.\<close>

definition GetSecondaryStreamArgs :: "wctx \<Rightarrow> (string \<times> string) kop" where
  "GetSecondaryStreamArgs C = bnd (getConfigCM C) (\<lambda>cm.
     case (annotation cm configCMLatestCheckpointLocation, annotation cm configCMdbidAnnotation) of
       (_, None) \<Rightarrow> fail ErrNoDBIDfound
     | (None, Some _) \<Rightarrow> fail ErrNoLatestCheckpointLocationFound
     | (Some loc, Some dbid) \<Rightarrow> ret (loc, dbid))"

definition SetLatestCheckpointLocation :: "wctx \<Rightarrow> string \<Rightarrow> unit kop" where
  "SetLatestCheckpointLocation C loc = bnd (getConfigCM C) (\<lambda>cm.
     bnd (of_option (set_annotation configCMLatestCheckpointLocation loc cm)) (\<lambda>cm.
     bnd (kupdate (wx_env C) ConfigMapT cm) (\<lambda>_. ret ())))"

definition ClearUpgradeAnnotations :: "wctx \<Rightarrow> unit kop" where
  "ClearUpgradeAnnotations C = bnd (getConfigCM C) (\<lambda>cm.
     let cm = del_annotation configCMPrimaryInitdbArgs cm;
         cm = del_annotation configCMLatestCheckpointLocation cm
     in bnd (kupdate (wx_env C) ConfigMapT cm) (\<lambda>_. ret ()))"

text \<open>The index in the leader's pod name: the digits after its last dash.\<close>

definition GetSyncLeader :: "wctx \<Rightarrow> int kop" where
  "GetSyncLeader C = bnd inst (\<lambda>p.
     if length (pp_volumes p) > 1 then
       bnd (kget (wx_env C) ConfigMapT (pp_namespace p) (cmName p syncCMName)) (\<lambda>cm.
       case annotation cm syncCMLeaderAnnotation of
         None \<Rightarrow> fail ErrNoSyncLeader
       | Some leader \<Rightarrow>
           (case sscanf_int (last (split_on (CHR ''-'') leader)) of
              None \<Rightarrow> fail ScanError
            | Some index \<Rightarrow> ret index))
     else ret 0)"

end
