(* ===== verification/Upgrade_Jobs.thy ===== *)
theory Upgrade_Jobs
  imports StatefulSet Configmap
begin

section \<open>Upgrade jobs: \<open>private/upgrade/common.go\<close> and \<open>common/common.go\<close>\<close>

text \<open>
  Three steps of an upgrade run the operator's own helper program in a job against the
  database; they implement the \<open>UpgradeJob\<close> interface. Others run a shell script on a data
  volume. A finished job is read through the last line of its pod's log.
\<close>

definition UpgradeMODEPre :: string where "UpgradeMODEPre = ''preupgrade''"
definition UpgradeMODEPreSync :: string where "UpgradeMODEPreSync = ''preupgrade-sync''"
definition UpgradeMODEPauseFlag :: string where "UpgradeMODEPauseFlag = ''pause''"
definition UpgradeMODEPost :: string where "UpgradeMODEPost = ''postuprgrade''"
definition upgradeModeEnvVar :: string where "upgradeModeEnvVar = ''MODE''"
definition postgresqlMaintenancePort :: int where "postgresqlMaintenancePort = 55432"

lemmas upgrade_modes = UpgradeMODEPre_def UpgradeMODEPreSync_def UpgradeMODEPost_def

text \<open>What the preupgrade helper returns.\<close>

record config =
  cfg_Locale :: string
  cfg_Encoding :: string
  cfg_DataChecksums :: bool
  cfg_MaxPreparedTransactions :: int

subsection \<open>The \<open>UpgradeJob\<close> interface and its implementations\<close>

record upgrade_job =
  uj_mode :: string
  uj_deadline :: int
  uj_port :: int
  uj_customize :: "pod_spec \<Rightarrow> pod_spec option"

definition preupgradeJob :: upgrade_job where
  "preupgradeJob = \<lparr>uj_mode = UpgradeMODEPre, uj_deadline = 300, uj_port = PostgresPort,
     uj_customize = Some\<rparr>"

definition preupgradeSync_CustomizePodSpec :: "pod_spec \<Rightarrow> pod_spec option" where
  "preupgradeSync_CustomizePodSpec ps = (case ps_containers ps of
       [] \<Rightarrow> None
     | c # cs \<Rightarrow> Some (ps\<lparr>ps_containers :=
         add_envs [env_val (to_upper UpgradeMODEPauseFlag) ''true''] c # cs\<rparr>))"

definition preupgradeSyncJob :: upgrade_job where
  "preupgradeSyncJob = \<lparr>uj_mode = UpgradeMODEPreSync, uj_deadline = 300,
     uj_port = postgresqlMaintenancePort, uj_customize = preupgradeSync_CustomizePodSpec\<rparr>"

definition postupgradeJob :: upgrade_job where
  "postupgradeJob = \<lparr>uj_mode = UpgradeMODEPost, uj_deadline = 3600, uj_port = PostgresPort,
     uj_customize = Some\<rparr>"

subsection \<open>\<open>ensureUpgradeJob\<close>, \<open>cleanupJob\<close>\<close>

definition upgradeJobname :: "patroni \<Rightarrow> upgrade_job \<Rightarrow> string" where
  "upgradeJobname p j = pp_name p @ ''-'' @ uj_mode j"

definition upgrade_job_envs :: "patroni \<Rightarrow> upgrade_job \<Rightarrow> env_var list" where
  "upgrade_job_envs p j =
    [env_val ''DBHOST'' (pp_name p),
     env_val ''DBPORT'' (show_int (uj_port j)),
     env_val ''DBUSER'' PatroniSuperuserUsername,
     env_from ''DBPASSWORD'' (SecretKeyRef (secret_Name p) SuperUserPasswordKey),
     env_val ''DBNAME'' ''postgres'',
     env_val upgradeModeEnvVar (uj_mode j),
     env_val ''CLUSTER_NAME'' (pp_name p),
     env_val ''CLUSTER_SIZE'' (show_nat (length (pp_volumes p)))]"

definition upgrade_job_pod :: "wctx \<Rightarrow> patroni \<Rightarrow> upgrade_job \<Rightarrow> pod_spec" where
  "upgrade_job_pod C p j = zero_pod_spec
     \<lparr>ps_service_links := Some False,
      ps_containers := [zero_container
        \<lparr>ct_name := uj_mode j, ct_image := ke_upgrade_image (wx_env C), ct_command := [''/upgrade''],
         ct_env := upgrade_job_envs p j,
         ct_resources := zero_resources\<lparr>rs_requests := Some [(''cpu'', ''10m''), (''memory'', ''64Mi'')]\<rparr>,
         ct_security := Some ContainerSecurityContext\<rparr>],
      ps_restart_policy := ''Never'', ps_security := Some GenericPodSecurityContext\<rparr>"

definition ensureUpgradeJob :: "wctx \<Rightarrow> upgrade_job \<Rightarrow> job kop" where
  "ensureUpgradeJob C j = bnd inst (\<lambda>p.
     bnd (found (kget (wx_env C) JobT (pp_namespace p) (upgradeJobname p j))) (\<lambda>r. case r of
       Some job \<Rightarrow> ret job
     | None \<Rightarrow>
         bnd (of_option (uj_customize j (upgrade_job_pod C p j))) (\<lambda>pod.
         let job = new_job (upgradeJobname p j)
           \<lparr>js_deadline = Some (uj_deadline j), js_completions = None, js_selector = None,
            js_template = zero_pod_template\<lparr>pt_labels := CommonLabels p, pt_spec := pod\<rparr>\<rparr> in
         bnd (set_meta_of C JobT job) (\<lambda>job.
         kcreate (wx_env C) JobT job))))"

text \<open>The sum is an \<open>int32\<close> sum.\<close>

definition job_finished :: "job \<Rightarrow> bool" where
  "job_finished job \<longleftrightarrow> int32_pos (job_succeeded job + job_failed job)"

definition cleanupJob :: "wctx \<Rightarrow> job \<Rightarrow> unit kop" where
  "cleanupJob C job =
     when_op (job_finished job) (kdelete (wx_env C) JobT job Background)"

subsection \<open>Reading a job's result\<close>

text \<open>
  The first pod the job's selector finds, the last line of its log, one read into a buffer of
  2048 bytes. The two readers in the source differ in the text of one error and in the type
  they decode into. The selector is the map of labels that the API server generated for the job;
  \<open>LabelSelectorAsSelector\<close> has an error for a malformed one only, which this is not.
\<close>

definition list_pods :: "kube_env \<Rightarrow> string \<Rightarrow> string_map option \<Rightarrow> pod list kop" where
  "list_pods E ns sel = bnd (ask E (RListPods ns sel))
     (decode_as (\<lambda>x. case x of KPodList l \<Rightarrow> Some l | _ \<Rightarrow> None))"

definition read_job_log :: "wctx \<Rightarrow> job \<Rightarrow> string \<Rightarrow> string kop" where
  "read_job_log C job no_pod =
     bnd (list_pods (wx_env C) (m_namespace (job_meta job)) (js_selector (job_spec_of job))) (\<lambda>pods.
     case pods of
       [] \<Rightarrow> fail (ErrText no_pod)
     | pod # _ \<Rightarrow>
         bnd (ask (wx_env C) (RReadLogs (pod_namespace pod) (pod_name pod) 1)) (\<lambda>x.
         bnd (decode_as (\<lambda>x. case x of KBytes b \<Rightarrow> Some b | _ \<Rightarrow> None) x) (\<lambda>logs.
         let buf = take 2048 logs in
         if buf = [] then fail (ErrText ''short read from pod logs'') else ret buf)))"

text \<open>\<open>json.Unmarshal\<close> into a struct; a value of the wrong type is an error like bad syntax.\<close>

definition unmarshal_struct :: "(string \<times> 'c field) list \<Rightarrow> 'c \<Rightarrow> string \<Rightarrow> 'c option" where
  "unmarshal_struct fs c s = (case parse_json s of
       None \<Rightarrow> None
     | Some j \<Rightarrow> (let (c', ok) = decode_struct fs c j in if ok then Some c' else None))"

definition config_fields :: "(string \<times> config field) list" where
  "config_fields =
    [(''Locale'', string_field (\<lambda>s c. c\<lparr>cfg_Locale := s\<rparr>)),
     (''Encoding'', string_field (\<lambda>s c. c\<lparr>cfg_Encoding := s\<rparr>)),
     (''DataChecksums'', bool_field (\<lambda>b c. c\<lparr>cfg_DataChecksums := b\<rparr>)),
     (''MaxPreparedTransactions'', int_field (\<lambda>n c. c\<lparr>cfg_MaxPreparedTransactions := n\<rparr>))]"

definition zero_config :: config where
  "zero_config = \<lparr>cfg_Locale = [], cfg_Encoding = [], cfg_DataChecksums = False,
     cfg_MaxPreparedTransactions = 0\<rparr>"

definition unmarshal_config :: "string \<Rightarrow> config option" where
  "unmarshal_config s = unmarshal_struct config_fields zero_config s"

definition getInitdbArgsFromJob :: "wctx \<Rightarrow> job \<Rightarrow> config kop" where
  "getInitdbArgsFromJob C job =
     bnd (read_job_log C job ''no pod found for preprocess job'') (\<lambda>buf.
     case unmarshal_config buf of None \<Rightarrow> fail JsonError | Some c \<Rightarrow> ret c)"

record upgradeJobResult =
  OldLatestCheckpointLocation :: string
  NewDatabaseSystemIdentifier :: string

definition result_fields :: "(string \<times> upgradeJobResult field) list" where
  "result_fields =
    [(''oldLatestCheckpointLocation'', string_field (\<lambda>s r. r\<lparr>OldLatestCheckpointLocation := s\<rparr>)),
     (''newDatabaseSystemIdentifier'', string_field (\<lambda>s r. r\<lparr>NewDatabaseSystemIdentifier := s\<rparr>))]"

definition getResultFromPrimaryUpgradeJob :: "wctx \<Rightarrow> job \<Rightarrow> upgradeJobResult kop" where
  "getResultFromPrimaryUpgradeJob C job =
     bnd (read_job_log C job ''no pod found for upgrade job'') (\<lambda>buf.
     case unmarshal_struct result_fields
            \<lparr>OldLatestCheckpointLocation = [], NewDatabaseSystemIdentifier = []\<rparr> buf of
       None \<Rightarrow> fail JsonError | Some r \<Rightarrow> ret r)"

subsection \<open>Jobs on a data volume\<close>

text \<open>
  The pod the primary upgrade, the move and the secondary upgrades run in; \<open>init\<close> doubles the
  dollar signs of the embedded scripts, since Kubernetes expands \<open>$(...)\<close> in commands.
\<close>

definition escape_script :: "string \<Rightarrow> string" where
  "escape_script s = replace_all (CHR ''$'') ''$$'' s"

text \<open>\<open>xs[i]\<close> of Go; \<open>None\<close> is the index panic.\<close>

definition go_index :: "'a list \<Rightarrow> int \<Rightarrow> 'a option" where
  "go_index xs i = (if 0 \<le> i \<and> i < int (length xs) then Some (xs ! nat i) else None)"

definition data_pod_spec ::
  "wctx \<Rightarrow> patroni \<Rightarrow> string \<Rightarrow> string \<Rightarrow> env_var list \<Rightarrow> string \<Rightarrow> pod_spec" where
  "data_pod_spec C p name script envs claim = zero_pod_spec
     \<lparr>ps_containers := [zero_container
        \<lparr>ct_name := name, ct_image := Image_Image C,
         ct_command := [''sh'', ''-c'', escape_script script], ct_env := envs,
         ct_mounts := [\<lparr>vm_name = VolumeName, vm_path = DataVolumeMountPath\<rparr>],
         ct_resources := zero_resources\<lparr>rs_requests := rs_requests (spec_resources (pp_spec_of p))\<rparr>,
         ct_security := Some ContainerSecurityContext\<rparr>],
      ps_volumes := [\<lparr>vo_name = VolumeName, vo_claim = claim\<rparr>],
      ps_security := Some DatabasePodSecurityContext,
      ps_pull_secrets := spec_pull_secrets (pp_spec_of p),
      ps_node_selector := spec_node_selector (pp_spec_of p),
      ps_tolerations := spec_tolerations (pp_spec_of p)\<rparr>"

definition data_job_spec :: "patroni \<Rightarrow> int32 option \<Rightarrow> pod_spec \<Rightarrow> job_spec" where
  "data_job_spec p completions pod =
    \<lparr>js_deadline = Some 600, js_completions = completions, js_selector = None,
     js_template = zero_pod_template\<lparr>pt_labels := CommonLabels p,
       pt_spec := pod\<lparr>ps_restart_policy := ''OnFailure''\<rparr>\<rparr>\<rparr>"

end
