(* ===== verification/Upgrade_Steps.thy ===== *)
theory Upgrade_Steps
  imports Upgrade_Jobs
begin

section \<open>The steps of an upgrade: \<open>private/upgrade\<close>\<close>

text \<open>
  One \<open>handle\<close> per step, each called again on every reconcile until it says it is done. A
  handler creates its job (or stateful set) on the first call, looks at its status on the
  later ones, and deletes it when it has finished either way.
\<close>

text \<open>The texts of the package's error variables.\<close>

fun error_text :: "error \<Rightarrow> string" where
  "error_text ErrPreupgradeJobFailed = ''preupgrade job failed''"
| "error_text ErrMaxPreparedTransactionsNotZero =
     ''max_prepared_transactions not zero, cannot continue''"
| "error_text ErrPreupgradeSyncJobFailed = ''preupgrade-sync job failed''"
| "error_text ErrPrimaryUpgradeJobFailed = ''primary upgrade job failed''"
| "error_text ErrSecondaryUpgradeJobFailed = ''secondary upgrade job failed''"
| "error_text ErrPrimaryUpgradeMoveJobFailed = ''primary upgrade move job failed''"
| "error_text ErrPostupgradeJobFailed = ''preupgrade job failed''"
| "error_text (ErrText t) = t"
| "error_text _ = []"

subsection \<open>\<open>preupgrade.go\<close>\<close>

definition parseConfigToInitdbArgs :: "config \<Rightarrow> string" where
  "parseConfigToInitdbArgs c = join '' ''
     ((if cfg_Locale c \<noteq> [] then [''--locale='' @ cfg_Locale c] else []) @
      (if cfg_Encoding c \<noteq> [] then [''--encoding='' @ cfg_Encoding c] else []) @
      (if cfg_DataChecksums c then [''--data-checksums''] else []))"

text \<open>
  A succeeded job is deleted also when its result forbids the upgrade, and only then is the
  reason returned.
\<close>

definition preupgrade_handle :: "wctx \<Rightarrow> bool kop" where
  "preupgrade_handle C =
     bnd (ensureUpgradeJob C preupgradeJob) (\<lambda>job.
     bnd (if int32_pos (job_succeeded job) then
            bnd (getInitdbArgsFromJob C job) (\<lambda>cfg.
            if cfg_MaxPreparedTransactions cfg \<noteq> 0
            then ret (False, Some ErrMaxPreparedTransactionsNotZero)
            else bnd (SetPrimaryInitdbArgs C (parseConfigToInitdbArgs cfg)) (\<lambda>_. ret (True, None)))
          else ret (False, None)) (\<lambda>(done, err2).
     bnd (cleanupJob C job) (\<lambda>_.
     if int32_pos (job_failed job) then fail ErrPreupgradeJobFailed
     else case err2 of Some e \<Rightarrow> fail e | None \<Rightarrow> ret done)))"

subsection \<open>\<open>scaledown.go\<close>, \<open>preupgrade-scaledown.go\<close>\<close>

text \<open>What is read is the server's answer to the update. The second handler embeds the first.\<close>

definition scaledown_handle :: "wctx \<Rightarrow> bool kop" where
  "scaledown_handle C =
     bnd (GetK8SStatefulSet C) (\<lambda>sts.
     bnd (kupdate (wx_env C) StatefulSetT (sts\<lparr>sts_spec := (sts_spec sts)\<lparr>ss_replicas := Some 0\<rparr>\<rparr>)) (\<lambda>sts.
     bnd (set_status (\<lambda>st. st\<lparr>st_ready := sts_ready sts\<rparr>)) (\<lambda>_.
     ret (sts_available sts = 0))))"

definition preupgradeScaledown_handle :: "wctx \<Rightarrow> bool kop" where
  "preupgradeScaledown_handle C = scaledown_handle C"

subsection \<open>\<open>preupgrade-sync.go\<close>\<close>

definition preupgradeSync_handle :: "wctx \<Rightarrow> bool kop" where
  "preupgradeSync_handle C = bnd inst (\<lambda>p.
     if length (pp_volumes p) = 1 then ret True
     else
       bnd (ReconcileSts C [sts_withPostgresqlPort_Patch (uj_port preupgradeSyncJob),
                            withPausedPatroni_Patch]) (\<lambda>_.
       bnd (ReconcileService C [withPostgresqlPort_Patch (uj_port preupgradeSyncJob),
                                withPatroniAPI_Patch]) (\<lambda>_.
       bnd (ensureUpgradeJob C preupgradeSyncJob) (\<lambda>job.
       bnd (cleanupJob C job) (\<lambda>_.
       if int32_pos (job_failed job) then fail ErrPreupgradeSyncJobFailed
       else ret (int32_pos (job_succeeded job)))))))"

subsection \<open>\<open>primary.go\<close>\<close>

definition primary_envs :: "patroni \<Rightarrow> string \<Rightarrow> string \<Rightarrow> env_var list" where
  "primary_envs p dbid initdbArgs =
    [env_val ''DB_SYSTEM_ID'' dbid,
     env_val ''OLD'' (show_int (pp_version p)),
     env_val ''NEW'' (show_int (pp_upgrade_version p)),
     env_val ''INITDB_ARGS'' initdbArgs]"

definition primary_jobname :: "patroni \<Rightarrow> string" where
  "primary_jobname p = pp_name p @ ''-up''"

definition create_primary_job :: "wctx \<Rightarrow> unit kop" where
  "create_primary_job C = bnd inst (\<lambda>p.
     bnd (GetPrimaryInitdbArgs C) (\<lambda>initdbArgs.
     bnd (GetSyncLeader C) (\<lambda>leaderIndex.
     bnd (GetDBId C) (\<lambda>dbid.
     bnd (of_option (go_index (pp_volumes p) leaderIndex)) (\<lambda>vol.
     let job = new_job (primary_jobname p) (data_job_spec p (Some 1)
       (data_pod_spec C p ''primary-upgrade'' (ke_primary_upgrade (wx_env C))
         (primary_envs p dbid initdbArgs) (vs_claim vol))) in
     bnd (set_meta_of C JobT job) (\<lambda>job.
     bnd (kcreate (wx_env C) JobT job) (\<lambda>_. ret ())))))))"

definition record_primary_result :: "wctx \<Rightarrow> upgradeJobResult \<Rightarrow> unit kop" where
  "record_primary_result C r =
     bnd (when_op (OldLatestCheckpointLocation r \<noteq> [])
       (SetLatestCheckpointLocation C (OldLatestCheckpointLocation r))) (\<lambda>_.
     SetDBId C (NewDatabaseSystemIdentifier r))"

definition primary_handle :: "wctx \<Rightarrow> bool kop" where
  "primary_handle C = bnd inst (\<lambda>p.
     bnd (found (kget (wx_env C) JobT (pp_namespace p) (primary_jobname p))) (\<lambda>r. case r of
       None \<Rightarrow> bnd (create_primary_job C) (\<lambda>_. ret False)
     | Some job \<Rightarrow>
         bnd (when_op (int32_pos (job_succeeded job))
           (bnd (getResultFromPrimaryUpgradeJob C job) (record_primary_result C))) (\<lambda>_.
         bnd (cleanupJob C job) (\<lambda>_.
         if int32_pos (job_failed job) then fail ErrPrimaryUpgradeJobFailed
         else ret (int32_pos (job_succeeded job))))))"

subsection \<open>\<open>secondary-stream.go\<close>, \<open>secondary-client.go\<close>, \<open>secondary.go\<close>\<close>

definition rsyncPort :: int where "rsyncPort = 5873"
definition rsyncPortName :: string where "rsyncPortName = ''rsync''"

definition pstream_name :: "patroni \<Rightarrow> string" where
  "pstream_name p = pp_name p @ ''-pstream''"

definition pstream_labels :: "patroni \<Rightarrow> string_map" where
  "pstream_labels p = map_set ''upgrade'' ''pstream'' (CommonLabels p)"

definition pstream_pod :: "wctx \<Rightarrow> patroni \<Rightarrow> string \<Rightarrow> pod_spec" where
  "pstream_pod C p claim =
     (let ps = data_pod_spec C p ''pstream'' (ke_primary_stream (wx_env C)) [] claim
      in ps\<lparr>ps_containers := map (\<lambda>c. c
           \<lparr>ct_ports := [\<lparr>cp_name = rsyncPortName, cp_port = word_of_int rsyncPort\<rparr>],
            ct_readiness := Some \<lparr>pr_handler = TCPSocket (StrPort rsyncPortName),
              pr_initial_delay = 0, pr_success_threshold = 0\<rparr>\<rparr>) (ps_containers ps)\<rparr>)"

definition pstream_sts :: "wctx \<Rightarrow> patroni \<Rightarrow> string \<Rightarrow> statefulset" where
  "pstream_sts C p claim = (new_statefulset (pstream_name p))
     \<lparr>sts_spec := zero_statefulset_spec
       \<lparr>ss_selector := pstream_labels p, ss_service_name := pstream_name p,
        ss_template := zero_pod_template\<lparr>pt_labels := pstream_labels p,
          pt_spec := pstream_pod C p claim\<rparr>\<rparr>\<rparr>"

definition pstream_service :: "patroni \<Rightarrow> statefulset \<Rightarrow> service" where
  "pstream_service p sts = (new_service (pstream_name p))
     \<lparr>svc_meta := (new_meta (pstream_name p))\<lparr>m_namespace := pp_namespace p\<rparr>,
      svc_selector := pt_labels (ss_template (sts_spec sts)),
      svc_ports := [\<lparr>sp_name = rsyncPortName, sp_port = word_of_int rsyncPort,
        sp_target = StrPort rsyncPortName\<rparr>]\<rparr>"

definition upgradeSecondariesEnsurestreamer :: "wctx \<Rightarrow> int \<Rightarrow> statefulset kop" where
  "upgradeSecondariesEnsurestreamer C leader = bnd inst (\<lambda>p.
     bnd (found (kget (wx_env C) StatefulSetT (pp_namespace p) (pstream_name p))) (\<lambda>r.
     bnd (case r of
            Some sts \<Rightarrow> ret sts
          | None \<Rightarrow>
              bnd (of_option (go_index (pp_volumes p) leader)) (\<lambda>vol.
              bnd (set_meta_of C StatefulSetT (pstream_sts C p (vs_claim vol))) (\<lambda>sts.
              kcreate (wx_env C) StatefulSetT sts))) (\<lambda>sts.
     bnd (found (kget (wx_env C) ServiceT (pp_namespace p) (pstream_name p))) (\<lambda>r. case r of
       Some _ \<Rightarrow> ret sts
     | None \<Rightarrow>
         let s = pstream_service p sts in
         bnd (of_sum (ke_set_owner (wx_env C) (KStatefulSet sts) (svc_meta s))) (\<lambda>os.
         bnd (kcreate (wx_env C) ServiceT (s\<lparr>svc_meta := (svc_meta s)\<lparr>m_owners := os\<rparr>\<rparr>)) (\<lambda>_.
         ret sts))))))"

definition secondary_jobname :: "patroni \<Rightarrow> nat \<Rightarrow> string" where
  "secondary_jobname p idx = indexed (pp_name p @ ''-sup'') idx"

definition secondary_envs :: "patroni \<Rightarrow> string \<Rightarrow> string \<Rightarrow> string \<Rightarrow> env_var list" where
  "secondary_envs p sts_name loc newid =
    [env_val ''PRIMARY_ADDRESS'' sts_name,
     env_val ''DB_CHECKPOINT'' loc,
     env_val ''OLD'' (show_int (pp_version p)),
     env_val ''NEW'' (show_int (pp_upgrade_version p)),
     env_val ''NEW_DB_SYSTEM_ID'' newid]"

definition ensure_secondary_job ::
  "wctx \<Rightarrow> statefulset \<Rightarrow> string \<Rightarrow> string \<Rightarrow> nat \<times> volume_status \<Rightarrow> job kop" where
  "ensure_secondary_job C sts loc newid iv = bnd inst (\<lambda>p.
     let (idx, vol) = iv in
     bnd (found (kget (wx_env C) JobT (pp_namespace p) (secondary_jobname p idx))) (\<lambda>r. case r of
       Some job \<Rightarrow> ret job
     | None \<Rightarrow>
         let job = new_job (secondary_jobname p idx) (data_job_spec p None
           (data_pod_spec C p ''secondary-upgrade'' (ke_secondary_upgrade (wx_env C))
             (secondary_envs p (m_name (sts_meta sts)) loc newid) (vs_claim vol))) in
         bnd (set_meta_of C JobT job) (\<lambda>job.
         kcreate (wx_env C) JobT job)))"

definition upgradeSecondariesEnsureseclients ::
  "wctx \<Rightarrow> int \<Rightarrow> statefulset \<Rightarrow> job list kop" where
  "upgradeSecondariesEnsureseclients C leader sts =
     bnd (GetSecondaryStreamArgs C) (\<lambda>(loc, newid). bnd inst (\<lambda>p.
     for_acc (enumerate 0 (pp_volumes p)) [] (\<lambda>iv jobs.
       if int (fst iv) = leader then ret jobs
       else bnd (ensure_secondary_job C sts loc newid iv) (\<lambda>job. ret (jobs @ [job])))))"

definition count_secondary :: "wctx \<Rightarrow> job \<Rightarrow> nat \<times> nat \<Rightarrow> (nat \<times> nat) kop" where
  "count_secondary C job sf = (let (succeeded, failed) = sf in
     if int32_pos (job_succeeded job) then ret (succeeded + 1, failed)
     else if int32_pos (job_failed job) then
       bnd (kdelete (wx_env C) JobT job Foreground) (\<lambda>_. ret (succeeded, failed + 1))
     else ret (succeeded, failed))"

definition secondary_handle :: "wctx \<Rightarrow> bool kop" where
  "secondary_handle C = bnd inst (\<lambda>p.
     if length (pp_volumes p) = 1 then ret True
     else
       bnd (GetSyncLeader C) (\<lambda>leader.
       bnd (upgradeSecondariesEnsurestreamer C leader) (\<lambda>sts.
       bnd (upgradeSecondariesEnsureseclients C leader sts) (\<lambda>jobs.
       bnd (for_acc jobs (0, 0) (count_secondary C)) (\<lambda>(succeeded, failed).
       if failed > 0 then fail ErrSecondaryUpgradeJobFailed
       else if succeeded = length jobs then
         bnd (kdelete (wx_env C) StatefulSetT sts Background) (\<lambda>_.
         bnd (for_each jobs (\<lambda>job. kdelete (wx_env C) JobT job Background)) (\<lambda>_.
         ret True))
       else ret False)))))"

subsection \<open>\<open>primary-move.go\<close>\<close>

definition move_jobname :: "patroni \<Rightarrow> string" where
  "move_jobname p = pp_name p @ ''-move''"

definition create_move_job :: "wctx \<Rightarrow> unit kop" where
  "create_move_job C = bnd inst (\<lambda>p.
     bnd (GetSyncLeader C) (\<lambda>leaderIndex.
     bnd (of_option (go_index (pp_volumes p) leaderIndex)) (\<lambda>vol.
     let job = new_job (move_jobname p) (data_job_spec p (Some 1)
       (data_pod_spec C p ''primary-upgrade-move'' (ke_primary_move (wx_env C)) [] (vs_claim vol))) in
     bnd (set_meta_of C JobT job) (\<lambda>job.
     bnd (kcreate (wx_env C) JobT job) (\<lambda>_. ret ())))))"

definition move_handle :: "wctx \<Rightarrow> bool kop" where
  "move_handle C = bnd inst (\<lambda>p.
     bnd (found (kget (wx_env C) JobT (pp_namespace p) (move_jobname p))) (\<lambda>r. case r of
       None \<Rightarrow> bnd (create_move_job C) (\<lambda>_. ret False)
     | Some job \<Rightarrow>
         bnd (when_op (int32_pos (job_succeeded job))
           (set_status (\<lambda>st. st\<lparr>st_version := st_upgrade_version st\<rparr>))) (\<lambda>_.
         bnd (cleanupJob C job) (\<lambda>_.
         if int32_pos (job_failed job) then fail ErrPrimaryUpgradeMoveJobFailed
         else ret (int32_pos (job_succeeded job))))))"

subsection \<open>\<open>postupgrade.go\<close>\<close>

definition postupgrade_handle :: "wctx \<Rightarrow> bool kop" where
  "postupgrade_handle C =
     bnd (ReconcileSts C []) (\<lambda>sts.
     bnd (service_Reconcile C) (\<lambda>_. bnd inst (\<lambda>p.
     if sint (sts_ready sts) \<noteq> int (length (pp_nodes p)) then ret False
     else
       bnd (ensureUpgradeJob C postupgradeJob) (\<lambda>job.
       bnd (cleanupJob C job) (\<lambda>_.
       if int32_pos (job_failed job) then fail ErrPostupgradeJobFailed
       else ret (int32_pos (job_succeeded job)))))))"

end
