(* ===== verification/Upgrade.thy ===== *)
theory Upgrade
  imports Upgrade_Steps
begin

section \<open>The upgrade state machine: \<open>private/upgrade/upgrade.go\<close>\<close>

text \<open>
  The cluster state in the status names the step to run. \<open>init\<close> chains the handlers in the
  order of a list, each the next of the one before.
\<close>

datatype handler =
    PreupgradeHandler
  | PreupgradeScaledownHandler
  | PreupgradeSyncHandler
  | ScaledownHandler
  | PrimaryUpgradeHandler
  | SecondaryUpgradeHandler
  | PrimaryUpgradeMoveHandler
  | PostupgradeHandler

fun handler_name :: "handler \<Rightarrow> pg_state" where
  "handler_name PreupgradeHandler = StateUpgradePreupgrade"
| "handler_name PreupgradeScaledownHandler = StateUpgradePreupgradeScaleDown"
| "handler_name PreupgradeSyncHandler = StateUpgradePreupgradeSync"
| "handler_name ScaledownHandler = StateUpgradeScaleDown"
| "handler_name PrimaryUpgradeHandler = StateUpgradePrimary"
| "handler_name SecondaryUpgradeHandler = StateUpgradeSecondaries"
| "handler_name PrimaryUpgradeMoveHandler = StateUpgradePrimaryMove"
| "handler_name PostupgradeHandler = StateUpgradePostupgrade"

fun handler_handle :: "handler \<Rightarrow> wctx \<Rightarrow> bool kop" where
  "handler_handle PreupgradeHandler = preupgrade_handle"
| "handler_handle PreupgradeScaledownHandler = preupgradeScaledown_handle"
| "handler_handle PreupgradeSyncHandler = preupgradeSync_handle"
| "handler_handle ScaledownHandler = scaledown_handle"
| "handler_handle PrimaryUpgradeHandler = primary_handle"
| "handler_handle SecondaryUpgradeHandler = secondary_handle"
| "handler_handle PrimaryUpgradeMoveHandler = move_handle"
| "handler_handle PostupgradeHandler = postupgrade_handle"

definition upgrade_handlers :: "handler list" where
  "upgrade_handlers = [PreupgradeHandler, PreupgradeScaledownHandler, PreupgradeSyncHandler,
     ScaledownHandler, PrimaryUpgradeHandler, SecondaryUpgradeHandler, PrimaryUpgradeMoveHandler,
     PostupgradeHandler]"

record upgradestep =
  us_handler :: handler
  us_next :: "handler option"

fun chain :: "handler list \<Rightarrow> (pg_state \<times> upgradestep) list" where
  "chain [] = []"
| "chain (h # hs) =
     (handler_name h, \<lparr>us_handler = h, us_next = (case hs of [] \<Rightarrow> None | h' # _ \<Rightarrow> Some h')\<rparr>) # chain hs"

definition upgrademap :: "pg_state \<Rightarrow> upgradestep option" where
  "upgrademap st = map_of (chain upgrade_handlers) st"

text \<open>The result is \<open>ctrl.Result\<close>'s \<open>Requeue\<close>.\<close>

definition Handle :: "wctx \<Rightarrow> bool kop" where
  "Handle C = bnd inst (\<lambda>p. case upgrademap (pp_state p) of
       None \<Rightarrow> bnd (set_status (\<lambda>st. st\<lparr>st_state := StateUpgradePreupgrade\<rparr>)) (\<lambda>_. ret True)
     | Some step \<Rightarrow>
         bnd (handler_handle (us_handler step) C) (\<lambda>done.
         if \<not> done then ret False
         else
           bnd (case us_next step of
                  Some h \<Rightarrow> set_status (\<lambda>st. st\<lparr>st_state := handler_name h\<rparr>)
                | None \<Rightarrow>
                    bnd (set_status (\<lambda>st. st\<lparr>st_state := StateReady, st_upgrade_version := 0\<rparr>)) (\<lambda>_.
                    ClearUpgradeAnnotations C)) (\<lambda>_.
           ret True)))"

end
