(* ===== verification/Reconciler.thy ===== *)
theory Reconciler
  imports Upgrade
begin

section \<open>The reconciler: \<open>controllers/patronipostgres_controller.go\<close>\<close>

text \<open>
  One reconcile of one instance: fetch it, initialise its status if it is new, then either run
  a step of an upgrade, or start one, or bring every owned object to the desired state. The
  status is written back at the end by a deferred function, if no error is being returned;
  when the handler panics the error is still nil, so it is written then too.
\<close>

definition unwrap_patroni :: "kobj \<Rightarrow> patroni option" where
  "unwrap_patroni x = (case x of KPatroni p \<Rightarrow> Some p | _ \<Rightarrow> None)"

definition set_inst :: "patroni \<Rightarrow> unit kop" where
  "set_inst p = modify (\<lambda>s. s\<lparr>ks_inst := p\<rparr>)"

definition get_instance :: "kube_env \<Rightarrow> string \<Rightarrow> string \<Rightarrow> patroni kop" where
  "get_instance E ns n =
     bnd (ask E (RGet PatroniKind ns n None)) (decode_as unwrap_patroni)"

text \<open>\<open>Status().Update\<close> replaces the instance by the server's answer.\<close>

definition status_update :: "kube_env \<Rightarrow> unit kop" where
  "status_update E = bnd inst (\<lambda>p.
     bnd (ask E (RStatusUpdate p)) (\<lambda>x.
     bnd (decode_as unwrap_patroni x) set_inst))"

definition deferred_update :: "kube_env \<Rightarrow> bool kop \<Rightarrow> bool kop" where
  "deferred_update E m = (\<lambda>s. case m s of
       (Ok x, t) \<Rightarrow> bnd (status_update E) (\<lambda>_. ret x) t
     | (Err e, t) \<Rightarrow> (Err e, t)
     | (Panic, t) \<Rightarrow> (Panic, snd (status_update E t)))"

text \<open>Go's \<open>%v\<close> of a list of integers.\<close>

definition show_ints :: "int list \<Rightarrow> string" where
  "show_ints vs = ''['' @ join '' '' (map show_int vs) @ '']''"

definition unsupported_upgrade :: "patroni \<Rightarrow> error" where
  "unsupported_upgrade p = ErrText (''upgrade to version '' @ show_int (spec_version (pp_spec_of p)) @
     '' not supported. Available versions: '' @ show_ints (st_upgrade_versions (pp_status_of p)))"

definition reconcilers :: "(wctx \<Rightarrow> unit kop) list" where
  "reconcilers = [pvc_Reconcile, secret_Reconcile, configmap_Reconcile, rbac_Reconcile,
     service_Reconcile, statefulset_Reconcile, networkpolicy_Reconcile, pdb_Reconcile]"

definition reconcile_body :: "wctx \<Rightarrow> bool kop" where
  "reconcile_body C = bnd inst (\<lambda>p.
     if pp_upgrade_version p \<noteq> 0 then Handle C
     else if pp_state p = StateReady \<and> pp_version p \<noteq> spec_version (pp_spec_of p) then
       (if spec_version (pp_spec_of p) \<in> set (st_upgrade_versions (pp_status_of p)) then
          bnd (GetSyncLeader C) (\<lambda>_.
          bnd (set_status (\<lambda>st. st\<lparr>st_upgrade_version := spec_version (pp_spec_of p)\<rparr>)) (\<lambda>_.
          ret True))
        else fail (unsupported_upgrade p))
     else bnd (for_each reconcilers (\<lambda>f. f C)) (\<lambda>_. ret False))"

text \<open>The first lines of a reconcile give a new instance its version and first state.\<close>

definition initialize :: "kube_env \<Rightarrow> unit kop" where
  "initialize E = bnd inst (\<lambda>p.
     if pp_state p = StateUnset then
       (if GetImage (spec_version (pp_spec_of p)) = None
        then fail (ErrText (''unsupported version '' @ show_int (spec_version (pp_spec_of p))))
        else
          bnd (set_status (\<lambda>st. st\<lparr>st_version := spec_version (pp_spec_of p),
            st_state := StateScaling, st_volumes := []\<rparr>)) (\<lambda>_.
          status_update E))
     else ret ())"

definition Reconcile :: "kube_env \<Rightarrow> string \<Rightarrow> string \<Rightarrow> bool kop" where
  "Reconcile E ns n =
     bnd (found (get_instance E ns n)) (\<lambda>r. case r of
       None \<Rightarrow> ret False
     | Some p \<Rightarrow>
         bnd (set_inst p) (\<lambda>_.
         if spec_ignore (pp_spec_of p) then ret False
         else
           bnd (initialize E) (\<lambda>_. bnd inst (\<lambda>p.
           bnd (of_sum (New E p)) (\<lambda>C.
           deferred_update E (reconcile_body C))))))"

end
