(* ===== verification/Effects.thy ===== *)
theory Effects
  imports Reconciler
begin

section \<open>What each operation may ask and change\<close>

text \<open>
  For every operation of the operator: the requests it may send, and the part of the instance
  it leaves alone. Two whitelists of requests, one for the steps of an upgrade and one for the
  reconcilers, bound all of them; \<open>core\<close> is the instance without its count of ready replicas,
  which any step may record.
\<close>

subsection \<open>Whitelists\<close>

fun upgrade_object :: "kobj \<Rightarrow> bool" where
  "upgrade_object (KConfigMap _) = True"
| "upgrade_object (KService _) = True"
| "upgrade_object (KStatefulSet _) = True"
| "upgrade_object (KJob _) = True"
| "upgrade_object _ = False"

text \<open>
  A step of an upgrade creates services, stateful sets and jobs, updates config maps, services
  and stateful sets, deletes jobs and stateful sets, and reads pods and their logs.
\<close>

fun upgrade_request :: "request \<Rightarrow> bool" where
  "upgrade_request (RGet k _ _ _) \<longleftrightarrow> k \<in> {ConfigMapKind, ServiceKind, StatefulSetKind, JobKind}"
| "upgrade_request (RCreate x) \<longleftrightarrow> (case x of KService _ \<Rightarrow> True | KStatefulSet _ \<Rightarrow> True | KJob _ \<Rightarrow> True | _ \<Rightarrow> False)"
| "upgrade_request (RUpdate x) \<longleftrightarrow> (case x of KConfigMap _ \<Rightarrow> True | KService _ \<Rightarrow> True | KStatefulSet _ \<Rightarrow> True | _ \<Rightarrow> False)"
| "upgrade_request (RDelete x _) \<longleftrightarrow> (case x of KStatefulSet _ \<Rightarrow> True | KJob _ \<Rightarrow> True | _ \<Rightarrow> False)"
| "upgrade_request (RListPods _ _) = True"
| "upgrade_request (RReadLogs _ _ _) = True"
| "upgrade_request _ = False"

text \<open>
  A reconcile of the owned objects patches nothing but claims, deletes nothing but claims and
  never touches a job, a pod or the instance.
\<close>

fun owned_request :: "request \<Rightarrow> bool" where
  "owned_request (RGet k _ _ _) \<longleftrightarrow> k \<notin> {PVCKind, JobKind, PatroniKind}"
| "owned_request (RCreate x) \<longleftrightarrow> (case x of KJob _ \<Rightarrow> False | KPatroni _ \<Rightarrow> False | KPVCList _ \<Rightarrow> False
      | KPodList _ \<Rightarrow> False | KBytes _ \<Rightarrow> False | _ \<Rightarrow> True)"
| "owned_request (RUpdate x) \<longleftrightarrow> (case x of KJob _ \<Rightarrow> False | KPatroni _ \<Rightarrow> False | KPVCList _ \<Rightarrow> False
      | KPodList _ \<Rightarrow> False | KBytes _ \<Rightarrow> False | KPVC _ \<Rightarrow> False | _ \<Rightarrow> True)"
| "owned_request (RPatch x y) \<longleftrightarrow> (case (x, y) of (KPVC _, KPVC _) \<Rightarrow> True | _ \<Rightarrow> False)"
| "owned_request (RDelete x _) \<longleftrightarrow> (case x of KPVC _ \<Rightarrow> True | _ \<Rightarrow> False)"
| "owned_request (RListPVCs _ _) = True"
| "owned_request (RRand _) = True"
| "owned_request _ = False"

definition core :: "patroni \<Rightarrow> patroni" where
  "core p = upd_status (\<lambda>st. st\<lparr>st_ready := 0\<rparr>) p"

lemma core_ready [simp]: "core (upd_status (\<lambda>st. st\<lparr>st_ready := n\<rparr>) p) = core p"
  by (simp add: core_def)

lemma core_eq:
  assumes "core p = core q"
  shows "pp_namespace p = pp_namespace q" "pp_name p = pp_name q" "pp_spec_of p = pp_spec_of q"
    "pp_volumes p = pp_volumes q" "pp_version p = pp_version q" "pp_state p = pp_state q"
    "pp_upgrade_version p = pp_upgrade_version q"
    "st_upgrade_versions (pp_status_of p) = st_upgrade_versions (pp_status_of q)"
  using assms by (cases p; cases q; cases "pp_status_of p"; cases "pp_status_of q"; simp add: core_def)+

subsection \<open>Operations that only read\<close>

fun read_request :: "request \<Rightarrow> bool" where
  "read_request (RGet _ _ _ _) = True"
| "read_request (RListPVCs _ _) = True"
| "read_request (RListPods _ _) = True"
| "read_request (RReadLogs _ _ _) = True"
| "read_request _ = False"

lemma getConfigCM_asks [eff_intro]:
  "(\<And>ns n. P (RGet ConfigMapKind ns n None)) \<Longrightarrow> keeps (asks P) (getConfigCM C)"
  unfolding getConfigCM_def by (intro eff_intro) (simp add: kube_types)

lemma getConfigCM_same [eff_intro]: "keeps (same f) (getConfigCM C)"
  unfolding getConfigCM_def by (intro eff_intro)

lemma cm_readers_asks [eff_intro]:
  assumes "\<And>ns n. P (RGet ConfigMapKind ns n None)"
  shows "keeps (asks P) (GetDBId C)" "keeps (asks P) (GetPrimaryInitdbArgs C)"
    "keeps (asks P) (GetSecondaryStreamArgs C)" "keeps (asks P) (GetSyncLeader C)"
  unfolding GetDBId_def GetPrimaryInitdbArgs_def GetSecondaryStreamArgs_def GetSyncLeader_def
  by (intro eff_intro; simp add: assms kube_types)+

lemma cm_readers_same [eff_intro]:
  "keeps (same f) (GetDBId C)" "keeps (same f) (GetPrimaryInitdbArgs C)"
  "keeps (same f) (GetSecondaryStreamArgs C)" "keeps (same f) (GetSyncLeader C)"
  unfolding GetDBId_def GetPrimaryInitdbArgs_def GetSecondaryStreamArgs_def GetSyncLeader_def
  by (intro eff_intro)+

lemma cm_writers_asks [eff_intro]:
  assumes "\<And>ns n. P (RGet ConfigMapKind ns n None)" and "\<And>x. P (RUpdate (KConfigMap x))"
  shows "keeps (asks P) (SetDBId C v)" "keeps (asks P) (SetPrimaryInitdbArgs C v)"
    "keeps (asks P) (SetLatestCheckpointLocation C v)" "keeps (asks P) (ClearUpgradeAnnotations C)"
  unfolding SetDBId_def SetPrimaryInitdbArgs_def SetLatestCheckpointLocation_def
    ClearUpgradeAnnotations_def Let_def
  by (intro eff_intro; simp add: assms kube_types)+

lemma cm_writers_same [eff_intro]:
  "keeps (same f) (SetDBId C v)" "keeps (same f) (SetPrimaryInitdbArgs C v)"
  "keeps (same f) (SetLatestCheckpointLocation C v)" "keeps (same f) (ClearUpgradeAnnotations C)"
  unfolding SetDBId_def SetPrimaryInitdbArgs_def SetLatestCheckpointLocation_def
    ClearUpgradeAnnotations_def Let_def
  by (intro eff_intro)+

lemma read_job_log_asks [eff_intro]:
  "(\<And>ns l. P (RListPods ns l)) \<Longrightarrow> (\<And>ns n k. P (RReadLogs ns n k)) \<Longrightarrow>
   keeps (asks P) (read_job_log C j msg)"
  unfolding read_job_log_def list_pods_def Let_def by (intro eff_intro) auto

lemma read_job_log_same [eff_intro]: "keeps (same f) (read_job_log C j msg)"
  unfolding read_job_log_def list_pods_def Let_def by (intro eff_intro)

lemma job_results_asks [eff_intro]:
  assumes "\<And>ns l. P (RListPods ns l)" and "\<And>ns n k. P (RReadLogs ns n k)"
  shows "keeps (asks P) (getInitdbArgsFromJob C j)"
    "keeps (asks P) (getResultFromPrimaryUpgradeJob C j)"
  unfolding getInitdbArgsFromJob_def getResultFromPrimaryUpgradeJob_def
  by (intro eff_intro; simp add: assms)+

lemma job_results_same [eff_intro]:
  "keeps (same f) (getInitdbArgsFromJob C j)"
  "keeps (same f) (getResultFromPrimaryUpgradeJob C j)"
  unfolding getInitdbArgsFromJob_def getResultFromPrimaryUpgradeJob_def by (intro eff_intro)+

subsection \<open>Building blocks\<close>

lemma set_meta_of_asks [eff_intro]: "keeps (asks P) (set_meta_of C T x)"
  unfolding set_meta_of_def by (intro eff_intro)

lemma set_meta_of_same [eff_intro]: "keeps (same f) (set_meta_of C T x)"
  unfolding set_meta_of_def by (intro eff_intro)

lemma adopt_or_create_asks [eff_intro]:
  assumes "\<And>ns m. P (RGet (kt_kind T) ns m None)" and "\<And>x. P (RCreate (kt_wrap T x))"
    and "\<And>x. P (RUpdate (kt_wrap T x))" and "keeps (asks P) new"
  shows "keeps (asks P) (adopt_or_create C T n new)"
  unfolding adopt_or_create_def by (intro eff_intro assms)

lemma adopt_or_create_same [eff_intro]:
  "keeps (same f) new \<Longrightarrow> keeps (same f) (adopt_or_create C T n new)"
  unfolding adopt_or_create_def by (intro eff_intro)

lemma create_or_set_asks [eff_intro]:
  assumes "\<And>ns m. P (RGet (kt_kind T) ns m None)" and "\<And>x. P (RCreate (kt_wrap T x))"
    and "\<And>x. P (RUpdate (kt_wrap T x))"
  shows "keeps (asks P) (create_or_set C T n new fill)"
  unfolding create_or_set_def Let_def by (intro eff_intro assms)

lemma create_or_set_same [eff_intro]: "keeps (same f) (create_or_set C T n new fill)"
  unfolding create_or_set_def Let_def by (intro eff_intro)

subsection \<open>Services and stateful sets\<close>

lemma ReconcileService_asks [eff_intro]:
  assumes "\<And>ns m x. P (RGet ServiceKind ns m x)" and "\<And>x. P (RCreate (KService x))"
    and "\<And>x. P (RUpdate (KService x))"
  shows "keeps (asks P) (ReconcileService C ps)"
  unfolding ReconcileService_def Let_def by (intro eff_intro; simp add: assms kube_types)

lemma ReconcileService_same [eff_intro]: "keeps (same f) (ReconcileService C ps)"
  unfolding ReconcileService_def Let_def by (intro eff_intro)

lemma GetK8SStatefulSet_asks [eff_intro]:
  "(\<And>ns n. P (RGet StatefulSetKind ns n None)) \<Longrightarrow> keeps (asks P) (GetK8SStatefulSet C)"
  unfolding GetK8SStatefulSet_def by (intro eff_intro) (simp add: kube_types)

lemma GetK8SStatefulSet_same [eff_intro]: "keeps (same f) (GetK8SStatefulSet C)"
  unfolding GetK8SStatefulSet_def by (intro eff_intro)

lemma ReconcileSts_asks [eff_intro]:
  assumes "\<And>ns m x. P (RGet StatefulSetKind ns m x)" and "\<And>x. P (RCreate (KStatefulSet x))"
    and "\<And>x. P (RUpdate (KStatefulSet x))"
  shows "keeps (asks P) (ReconcileSts C ps)"
  unfolding ReconcileSts_def Let_def by (intro eff_intro; simp add: assms kube_types)

lemma ReconcileSts_same [eff_intro]:
  "(\<And>n p. f (upd_status (\<lambda>st. st\<lparr>st_ready := n\<rparr>) p) = f p) \<Longrightarrow> keeps (same f) (ReconcileSts C ps)"
  unfolding ReconcileSts_def Let_def by (intro eff_intro) simp

subsection \<open>Upgrade jobs\<close>

lemma ensureUpgradeJob_asks [eff_intro]:
  assumes "\<And>ns m x. P (RGet JobKind ns m x)" and "\<And>x. P (RCreate (KJob x))"
  shows "keeps (asks P) (ensureUpgradeJob C j)"
  unfolding ensureUpgradeJob_def Let_def by (intro eff_intro; simp add: assms kube_types)

lemma ensureUpgradeJob_same [eff_intro]: "keeps (same f) (ensureUpgradeJob C j)"
  unfolding ensureUpgradeJob_def Let_def by (intro eff_intro)

lemma cleanupJob_asks [eff_intro]:
  "(\<And>x. P (RDelete (KJob x) Background)) \<Longrightarrow> keeps (asks P) (cleanupJob C j)"
  unfolding cleanupJob_def by (intro eff_intro) (simp add: kube_types)

lemma cleanupJob_same [eff_intro]: "keeps (same f) (cleanupJob C j)"
  unfolding cleanupJob_def by (intro eff_intro)

subsection \<open>The handlers of an upgrade\<close>

lemma create_jobs_asks [eff_intro]:
  "keeps (asks upgrade_request) (create_primary_job C)"
  "keeps (asks upgrade_request) (create_move_job C)"
  "keeps (asks upgrade_request) (ensure_secondary_job C sts loc newid iv)"
  "keeps (asks upgrade_request) (count_secondary C job sf)"
  unfolding create_primary_job_def create_move_job_def ensure_secondary_job_def count_secondary_def
    Let_def
  by (intro eff_intro; simp add: kube_types)+

lemma create_jobs_same [eff_intro]:
  "keeps (same f) (create_primary_job C)"
  "keeps (same f) (create_move_job C)"
  "keeps (same f) (ensure_secondary_job C sts loc newid iv)"
  "keeps (same f) (count_secondary C job sf)"
  unfolding create_primary_job_def create_move_job_def ensure_secondary_job_def count_secondary_def
    Let_def
  by (intro eff_intro)+

lemma record_primary_result_asks [eff_intro]:
  "keeps (asks upgrade_request) (record_primary_result C r)"
  unfolding record_primary_result_def by (intro eff_intro) simp_all

lemma record_primary_result_same [eff_intro]: "keeps (same f) (record_primary_result C r)"
  unfolding record_primary_result_def by (intro eff_intro)

lemma secondaries_asks [eff_intro]:
  "keeps (asks upgrade_request) (upgradeSecondariesEnsurestreamer C leader)"
  "keeps (asks upgrade_request) (upgradeSecondariesEnsureseclients C leader sts)"
  unfolding upgradeSecondariesEnsurestreamer_def upgradeSecondariesEnsureseclients_def Let_def
  by (intro eff_intro; simp add: kube_types)+

lemma secondaries_same [eff_intro]:
  "keeps (same f) (upgradeSecondariesEnsurestreamer C leader)"
  "keeps (same f) (upgradeSecondariesEnsureseclients C leader sts)"
  unfolding upgradeSecondariesEnsurestreamer_def upgradeSecondariesEnsureseclients_def Let_def
  by (intro eff_intro)+

lemma service_Reconcile_same [eff_intro]: "keeps (same f) (service_Reconcile C)"
  unfolding service_Reconcile_def by (intro eff_intro)

lemma handler_asks: "keeps (asks upgrade_request) (handler_handle h C)"
  by (cases h;
      simp only: handler_handle.simps preupgrade_handle_def preupgradeScaledown_handle_def
        scaledown_handle_def preupgradeSync_handle_def primary_handle_def secondary_handle_def
        move_handle_def postupgrade_handle_def service_Reconcile_def Let_def;
      intro eff_intro; simp add: kube_types)

lemma handler_same:
  assumes "\<And>n p. f (upd_status (\<lambda>st. st\<lparr>st_ready := n\<rparr>) p) = f p"
    and "h = PrimaryUpgradeMoveHandler \<Longrightarrow>
      (\<And>p. f (upd_status (\<lambda>st. st\<lparr>st_version := st_upgrade_version st\<rparr>) p) = f p)"
  shows "keeps (same f) (handler_handle h C)"
  using assms by (cases h;
      simp only: handler_handle.simps preupgrade_handle_def preupgradeScaledown_handle_def
        scaledown_handle_def preupgradeSync_handle_def primary_handle_def secondary_handle_def
        move_handle_def postupgrade_handle_def Let_def;
      intro eff_intro; simp)

lemma Handle_asks: "keeps (asks upgrade_request) (Handle C)"
  unfolding Handle_def by (intro eff_intro handler_asks) simp_all

subsection \<open>The reconcilers\<close>

lemma pvc_asks [eff_intro]: "keeps (asks owned_request) (pvc_Reconcile C)"
  unfolding pvc_Reconcile_def list_pvcs_def reconcile_node_def delete_pvc_def Let_def
  by (intro eff_intro; simp add: kube_types)

lemma pvc_same [eff_intro]:
  "(\<And>v p. f (upd_status (\<lambda>st. st\<lparr>st_volumes := v st\<rparr>) p) = f p) \<Longrightarrow> keeps (same f) (pvc_Reconcile C)"
  unfolding pvc_Reconcile_def list_pvcs_def reconcile_node_def delete_pvc_def Let_def
  by (intro eff_intro; simp)

lemma new_secret_asks [eff_intro]: "keeps (asks owned_request) (new_secret E p)"
  unfolding new_secret_def genSecret_def by (intro eff_intro; simp)

lemma new_secret_same [eff_intro]: "keeps (same f) (new_secret E p)"
  unfolding new_secret_def genSecret_def by (intro eff_intro; simp)

lemma simple_reconcilers_asks [eff_intro]:
  "keeps (asks owned_request) (secret_Reconcile C)"
  "keeps (asks owned_request) (configmap_Reconcile C)"
  "keeps (asks owned_request) (rbac_Reconcile C)"
  "keeps (asks owned_request) (networkpolicy_Reconcile C)"
  "keeps (asks owned_request) (pdb_Reconcile C)"
  "keeps (asks owned_request) (service_Reconcile C)"
  "keeps (asks owned_request) (statefulset_Reconcile C)"
  unfolding secret_Reconcile_def configmap_Reconcile_def rbac_Reconcile_def
    reconcileServiceAccount_def reconcileRole_def reconcileRoleBinding_def
    networkpolicy_Reconcile_def pdb_Reconcile_def service_Reconcile_def statefulset_Reconcile_def
  by (intro eff_intro; simp add: kube_types)+

lemma simple_reconcilers_same [eff_intro]:
  "keeps (same f) (secret_Reconcile C)"
  "keeps (same f) (configmap_Reconcile C)"
  "keeps (same f) (rbac_Reconcile C)"
  "keeps (same f) (networkpolicy_Reconcile C)"
  "keeps (same f) (pdb_Reconcile C)"
  unfolding secret_Reconcile_def configmap_Reconcile_def rbac_Reconcile_def
    reconcileServiceAccount_def reconcileRole_def reconcileRoleBinding_def
    networkpolicy_Reconcile_def pdb_Reconcile_def
  by (intro eff_intro)+

lemma reconcilers_asks: "f \<in> set reconcilers \<Longrightarrow> keeps (asks owned_request) (f C)"
  by (auto simp: reconcilers_def intro: eff_intro)

end
