(* ===== verification/Client_Props.thy ===== *)
theory Client_Props
  imports Effects
begin

section \<open>The shapes of a reconcile, once for every type\<close>

text \<open>
  The two blocks the source repeats for each type of object, \<open>adopt_or_create\<close> and
  \<open>create_or_set\<close>, proved in the interface every type implements.
\<close>

subsection \<open>One read, then a decision\<close>

text \<open>The state after one more call.\<close>

definition after :: "kube_env \<Rightarrow> request \<Rightarrow> kstate \<Rightarrow> kstate" where
  "after E q s = s\<lparr>ks_hist := ks_hist s @ [(q, ke_api E (ks_hist s) q)]\<rparr>"

lemma after_sel [simp]:
  "ks_inst (after E q s) = ks_inst s"
  "ks_hist (after E q s) = ks_hist s @ [(q, ke_api E (ks_hist s) q)]"
  by (simp_all add: after_def)

lemma ask_after: "ask E q s = (case ke_api E (ks_hist s) q of
    Inl e \<Rightarrow> (Err e, after E q s) | Inr x \<Rightarrow> (Ok x, after E q s))"
  by (simp add: ask_run after_def split: sum.splits)

text \<open>Metadata as \<open>SetMeta\<close> leaves it: this instance's namespace and labels, and an owner.\<close>

definition meta_ok :: "patroni \<Rightarrow> object_meta \<Rightarrow> object_meta \<Rightarrow> bool" where
  "meta_ok p m m' \<longleftrightarrow> m' = m\<lparr>m_namespace := pp_namespace p, m_labels := CommonLabels p,
     m_owners := m_owners m'\<rparr>"

lemma meta_okD:
  assumes "meta_ok p m m'"
  shows "m_name m' = m_name m" "m_annotations m' = m_annotations m"
    "m_namespace m' = pp_namespace p" "m_labels m' = CommonLabels p"
  using assms unfolding meta_ok_def by (cases m; cases m'; simp)+

text \<open>The interface of each type, without unfolding the type.\<close>

lemma kube_sel:
  "kt_kind ConfigMapT = ConfigMapKind" "kt_wrap ConfigMapT = KConfigMap" "kt_meta ConfigMapT = cm_meta"
  "kt_set_meta ConfigMapT = (\<lambda>m x. x\<lparr>cm_meta := m\<rparr>)"
  "kt_kind SecretT = SecretKind" "kt_wrap SecretT = KSecret" "kt_meta SecretT = sec_meta"
  "kt_set_meta SecretT = (\<lambda>m x. x\<lparr>sec_meta := m\<rparr>)"
  "kt_kind ServiceAccountT = ServiceAccountKind" "kt_wrap ServiceAccountT = KServiceAccount" "kt_meta ServiceAccountT = sa_meta"
  "kt_set_meta ServiceAccountT = (\<lambda>m x. x\<lparr>sa_meta := m\<rparr>)"
  "kt_kind RoleT = RoleKind" "kt_wrap RoleT = KRole" "kt_meta RoleT = role_meta"
  "kt_set_meta RoleT = (\<lambda>m x. x\<lparr>role_meta := m\<rparr>)"
  "kt_kind RoleBindingT = RoleBindingKind" "kt_wrap RoleBindingT = KRoleBinding" "kt_meta RoleBindingT = rb_meta"
  "kt_set_meta RoleBindingT = (\<lambda>m x. x\<lparr>rb_meta := m\<rparr>)"
  "kt_kind ServiceT = ServiceKind" "kt_wrap ServiceT = KService" "kt_meta ServiceT = svc_meta"
  "kt_set_meta ServiceT = (\<lambda>m x. x\<lparr>svc_meta := m\<rparr>)"
  "kt_kind StatefulSetT = StatefulSetKind" "kt_wrap StatefulSetT = KStatefulSet" "kt_meta StatefulSetT = sts_meta"
  "kt_set_meta StatefulSetT = (\<lambda>m x. x\<lparr>sts_meta := m\<rparr>)"
  "kt_kind NetworkPolicyT = NetworkPolicyKind" "kt_wrap NetworkPolicyT = KNetworkPolicy" "kt_meta NetworkPolicyT = np_meta"
  "kt_set_meta NetworkPolicyT = (\<lambda>m x. x\<lparr>np_meta := m\<rparr>)"
  "kt_kind PDBT = PDBKind" "kt_wrap PDBT = KPDB" "kt_meta PDBT = pdb_meta"
  "kt_set_meta PDBT = (\<lambda>m x. x\<lparr>pdb_meta := m\<rparr>)"
  "kt_kind JobT = JobKind" "kt_wrap JobT = KJob" "kt_meta JobT = job_meta"
  "kt_set_meta JobT = (\<lambda>m x. x\<lparr>job_meta := m\<rparr>)"
  by (simp_all add: kube_types)

lemma set_meta_of_cases:
  "set_meta_of C T x s = (r, t) \<Longrightarrow> t = s \<and> ((\<exists>e. r = Err e) \<or>
     (\<exists>m. r = Ok (kt_set_meta T m x) \<and> meta_ok (ks_inst s) (kt_meta T x) m))"
  by (auto simp: set_meta_of_def bnd_run SetMeta_run Let_def ret_run meta_ok_def split: sum.splits)

text \<open>
  What an object that is brought to the desired state every time ends in: an update of the
  object that was read, with new metadata and the desired fields, or the creation of a new one.
\<close>

definition brought_to ::
  "kube_env \<Rightarrow> patroni \<Rightarrow> request \<Rightarrow> ('a \<Rightarrow> kobj) \<Rightarrow> 'a \<Rightarrow> (object_meta \<Rightarrow> 'a \<Rightarrow> 'a) \<Rightarrow>
   ('a \<Rightarrow> object_meta) \<Rightarrow> kstate \<Rightarrow> kstate \<Rightarrow> bool" where
  "brought_to E p q wrap new fill meta s t \<longleftrightarrow>
     (case ke_api E (ks_hist s) q of
        Inr z \<Rightarrow> \<exists>x m. z = wrap x \<and> meta_ok p (meta x) m \<and>
          t = after E (RUpdate (wrap (fill m x))) (after E q s)
      | Inl e \<Rightarrow> e = NotFound \<and> (\<exists>m. meta_ok p (meta new) m \<and>
          t = after E (RCreate (wrap (fill m new))) (after E q s)))"

lemma brought_to_inst: "brought_to E p q wrap new fill meta s t \<Longrightarrow> ks_inst t = ks_inst s"
  by (auto simp: brought_to_def split: sum.splits)

context api_object
begin

lemma kget_after:
  "found (kget E T ns n) s =
     (let q = RGet (kt_kind T) ns n None in case ke_api E (ks_hist s) q of
        Inl e \<Rightarrow> (if e = NotFound then Ok None else Err e, after E q s)
      | Inr y \<Rightarrow> (case kt_unwrap T y of None \<Rightarrow> Err DecodeError | Some x \<Rightarrow> Ok (Some x), after E q s))"
  by (simp add: found_def kget_def attempt_run bnd_run ask_after decode_as_def ret_run fail_run Let_def
      split: sum.splits option.splits)

lemma write_after:
  "kcreate E T x s = (r, t) \<Longrightarrow> t = after E (RCreate (kt_wrap T x)) s \<and> r \<noteq> Panic"
  "kupdate E T x s = (r, t) \<Longrightarrow> t = after E (RUpdate (kt_wrap T x)) s \<and> r \<noteq> Panic"
  by (auto simp: kcreate_def kupdate_def bnd_run ask_after decode_as_def ret_run fail_run
      split: sum.splits option.splits)

lemma update_after:
  "bnd (kupdate E T x) (\<lambda>_. ret ()) s = (r, t) \<Longrightarrow>
   t = after E (RUpdate (kt_wrap T x)) s \<and> r \<noteq> Panic"
  by (auto simp: kupdate_def bnd_run ask_after decode_as_def ret_run fail_run
      split: sum.splits option.splits)

text \<open>What an existing object, or a new one, turns into before it is written.\<close>

definition prepared :: "patroni \<Rightarrow> 'a \<Rightarrow> ('a \<Rightarrow> 'a) \<Rightarrow> 'a \<Rightarrow> bool" where
  "prepared p x fill y \<longleftrightarrow> (\<exists>m. meta_ok p (kt_meta T x) m \<and> y = fill (kt_set_meta T m x))"

lemma create_after:
  "bnd (kcreate E T x) (\<lambda>_. ret ()) s = (r, t) \<Longrightarrow>
   t = after E (RCreate (kt_wrap T x)) s \<and> r \<noteq> Panic"
  by (auto simp: kcreate_def bnd_run ask_after decode_as_def ret_run fail_run
      split: sum.splits option.splits)

lemma set_and_write:
  assumes "bnd (set_meta_of C T x) f s = (r, t)"
    and "\<And>y r t. f y s = (r, t) \<Longrightarrow> t = after E (q y) s \<and> r \<noteq> Panic"
  shows "r \<noteq> Panic \<and> (t = s \<and> (\<exists>e. r = Err e) \<or> (\<exists>y. prepared (ks_inst s) x id y \<and> t = after E (q y) s))"
proof -
  obtain a v where a: "set_meta_of C T x s = (a, v)" by fastforce
  from set_meta_of_cases [OF a] consider (err) e where "a = Err e" "v = s"
    | (ok) m where "a = Ok (kt_set_meta T m x)" "v = s" "meta_ok (ks_inst s) (kt_meta T x) m"
    by blast
  then show ?thesis
  proof cases
    case err
    with a assms(1) show ?thesis by (auto simp: bnd_run)
  next
    case ok
    with a assms(1) have "f (kt_set_meta T m x) s = (r, t)" by (simp add: bnd_run)
    from assms(2) [OF this] ok show ?thesis by (auto simp: prepared_def)
  qed
qed

lemma kget_into_after:
  "found (kget_into E T ns n y) s =
     (let q = RGet (kt_kind T) ns n (Some (kt_wrap T y)) in case ke_api E (ks_hist s) q of
        Inl e \<Rightarrow> (if e = NotFound then Ok None else Err e, after E q s)
      | Inr y \<Rightarrow> (case kt_unwrap T y of None \<Rightarrow> Err DecodeError | Some x \<Rightarrow> Ok (Some x), after E q s))"
  by (simp add: found_def kget_into_def attempt_run bnd_run ask_after decode_as_def ret_run fail_run
      Let_def split: sum.splits option.splits)

text \<open>
  A read \<open>m\<close> by the request \<open>q\<close>, then metadata, the desired fields and the write; \<open>fill\<close> may
  depend on whether the object is new.
\<close>

lemma bring_trace:
  assumes "bnd (found m) (\<lambda>r. bnd (set_meta_of C T (case r of None \<Rightarrow> new | Some x \<Rightarrow> x))
      (\<lambda>x. create_or_update (wx_env C) T (r = None) (fill x))) s = (r, t)"
    and "found m s = (case ke_api (wx_env C) (ks_hist s) q of
        Inl e \<Rightarrow> (if e = NotFound then Ok None else Err e, after (wx_env C) q s)
      | Inr y \<Rightarrow> (case kt_unwrap T y of None \<Rightarrow> Err DecodeError | Some x \<Rightarrow> Ok (Some x), after (wx_env C) q s))"
  shows "r \<noteq> Panic \<and> (t = after (wx_env C) q s \<and> (\<exists>e. r = Err e) \<or>
    brought_to (wx_env C) (ks_inst s) q (kt_wrap T) new (\<lambda>m x. fill (kt_set_meta T m x)) (kt_meta T) s t)"
proof -
  let ?s = "after (wx_env C) q s"
  have step: "r \<noteq> Panic \<and> (t = ?s \<and> (\<exists>e. r = Err e) \<or> (\<exists>m. meta_ok (ks_inst s) (kt_meta T x) m \<and>
      t = after (wx_env C) (if create then RCreate (kt_wrap T (fill (kt_set_meta T m x)))
        else RUpdate (kt_wrap T (fill (kt_set_meta T m x)))) ?s))"
    if "bnd (set_meta_of C T x) (\<lambda>x'. create_or_update (wx_env C) T create (fill x')) ?s = (r, t)"
    for x create
    using that set_meta_of_cases [of C T x ?s]
    by (fastforce simp: bnd_def create_or_update_def dest: write_after
        split: prod.splits res.splits if_splits)
  show ?thesis
  proof (cases "ke_api (wx_env C) (ks_hist s) q")
    case (Inl e)
    with assms step [of new True] show ?thesis
      by (auto simp: bnd_run brought_to_def split: if_splits)
  next
    case (Inr z)
    show ?thesis
    proof (cases "kt_unwrap T z")
      case None
      with Inr assms show ?thesis by (auto simp: bnd_run)
    next
      case (Some x)
      with Inr assms step [of x False] wrap_inj [OF Some] show ?thesis
        by (auto simp: bnd_run brought_to_def)
    qed
  qed
qed

lemma create_or_set_trace:
  assumes "create_or_set C T n new fill s = (r, t)"
  shows "r \<noteq> Panic \<and> (let p = ks_inst s; q = RGet (kt_kind T) (pp_namespace p) n None in
    t = after (wx_env C) q s \<and> (\<exists>e. r = Err e) \<or>
    brought_to (wx_env C) p q (kt_wrap T) new (\<lambda>m x. fill (kt_set_meta T m x)) (kt_meta T) s t)"
  using bring_trace [of "kget (wx_env C) T (pp_namespace (ks_inst s)) n" C new fill s r t] assms
  by (simp add: create_or_set_def bnd_run [of inst] inst_run Let_def kget_after)

lemma create_or_set_unit:
  assumes "bnd (create_or_set C T n new fill) (\<lambda>_. ret ()) s = (r, t)"
  shows "r \<noteq> Panic \<and> (let p = ks_inst s; q = RGet (kt_kind T) (pp_namespace p) n None in
    t = after (wx_env C) q s \<and> (\<exists>e. r = Err e) \<or>
    brought_to (wx_env C) p q (kt_wrap T) new (\<lambda>m x. fill (kt_set_meta T m x)) (kt_meta T) s t)"
proof -
  from assms obtain r' where r': "create_or_set C T n new fill s = (r', t)"
    "r = Panic \<longleftrightarrow> r' = Panic" "(\<exists>e. r = Err e) \<longleftrightarrow> (\<exists>e. r' = Err e)"
    by (auto simp: bnd_def ret_def split: prod.splits res.splits)
  from create_or_set_trace [OF r'(1)] r'(2,3) show ?thesis by (simp add: Let_def)
qed

lemma adopt_or_create_trace:
  assumes "adopt_or_create C T n new s = (r, t)"
    and "ke_api (wx_env C) (ks_hist s) (RGet (kt_kind T) (pp_namespace (ks_inst s)) n None) = Inr (kt_wrap T x)"
  shows "let q = RGet (kt_kind T) (pp_namespace (ks_inst s)) n None in
    (if m_owners (kt_meta T x) = [] then
       (t = after (wx_env C) q s \<and> (\<exists>e. r = Err e)) \<or>
       (\<exists>y. prepared (ks_inst s) x id y \<and> r \<noteq> Panic \<and>
          t = after (wx_env C) (RUpdate (kt_wrap T y)) (after (wx_env C) q s))
     else r = Ok () \<and> t = after (wx_env C) q s)"
proof -
  let ?q = "RGet (kt_kind T) (pp_namespace (ks_inst s)) n None"
  let ?s = "after (wx_env C) ?q s"
  have "when_op (m_owners (kt_meta T x) = []) (bnd (set_meta_of C T x) (\<lambda>x'.
      bnd (kupdate (wx_env C) T x') (\<lambda>_. ret ()))) ?s = (r, t)"
    using assms by (simp add: adopt_or_create_def bnd_run inst_run kget_after Let_def unwrap_wrap)
  then show ?thesis
    using set_and_write [of C x "\<lambda>x'. bnd (kupdate (wx_env C) T x') (\<lambda>_. ret ())" ?s r t
        "wx_env C" "\<lambda>y. RUpdate (kt_wrap T y)"] update_after
    by (cases "m_owners (kt_meta T x) = []") (auto simp: Let_def ret_run)
qed

end

end
