(* ===== verification/Samples.thy ===== *)
theory Samples
  imports Reconciler
begin

section \<open>Sample instances and environments\<close>

text \<open>
  Concrete values the witnesses evaluate the model at: an instance with two nodes, and
  environments given by what their API server answers.
\<close>

definition sample_node :: node where
  "sample_node = \<lparr>nd_storage_class = ''standard'', nd_access_mode = [],
     nd_tags = \<lparr>nt_nosync = False, nt_nofailover = False\<rparr>\<rparr>"

definition sample_spec :: "int \<Rightarrow> pp_spec" where
  "sample_spec v = \<lparr>spec_ignore = False, spec_version = v,
     spec_nodes = [sample_node, sample_node], spec_volume_size = ''1Gi'', spec_service_type = [],
     spec_annotations = [], spec_anti_affinity_key = [], spec_pull_secrets = [],
     spec_node_selector = [], spec_affinity = None, spec_tolerations = [],
     spec_resources = zero_resources, spec_extra_containers = [], spec_access_control = [],
     spec_additional_ingress = []\<rparr>"

definition sample_status :: "pg_state \<Rightarrow> int \<Rightarrow> int \<Rightarrow> int list \<Rightarrow> pp_status" where
  "sample_status st v target offered = \<lparr>st_volumes =
      [\<lparr>vs_claim = ''pgdata-db-0'', vs_phase = ''Bound'', vs_capacity = ''1Gi''\<rparr>,
       \<lparr>vs_claim = ''pgdata-db-1'', vs_phase = ''Bound'', vs_capacity = ''1Gi''\<rparr>],
     st_ready = 0, st_version = v, st_state = st,
     st_upgrade_version = target, st_upgrade_versions = offered\<rparr>"

definition sample :: "int \<Rightarrow> pp_status \<Rightarrow> patroni" where
  "sample v st = \<lparr>pp_namespace = ''ns'', pp_name = ''db'', pp_uid = ''u1'',
     pp_spec_of = sample_spec v, pp_status_of = st\<rparr>"

text \<open>The status of an instance the operator has not seen yet.\<close>

definition new_status :: pp_status where
  "new_status = \<lparr>st_volumes = [], st_ready = 0, st_version = 0, st_state = StateUnset,
     st_upgrade_version = 0, st_upgrade_versions = []\<rparr>"

definition sample_env :: "(event list \<Rightarrow> request \<Rightarrow> error + kobj) \<Rightarrow> kube_env" where
  "sample_env api = \<lparr>ke_api = api, ke_set_owner = (\<lambda>_ _. Inr [''u1'']), ke_order = (\<lambda>_ xs. xs),
     ke_f64 = (\<lambda>_. None), ke_upgrade_image = ''operator'', ke_primary_upgrade = [],
     ke_primary_stream = [], ke_secondary_upgrade = [], ke_primary_move = []\<rparr>"

text \<open>A server that keeps one instance, acknowledges status updates and nothing else.\<close>

definition status_only :: "patroni \<Rightarrow> event list \<Rightarrow> request \<Rightarrow> error + kobj" where
  "status_only p h q = (case q of
       RGet k _ _ _ \<Rightarrow> if k = PatroniKind then Inr (KPatroni p) else Inl (ApiError ''down'')
     | RStatusUpdate p' \<Rightarrow> Inr (KPatroni p')
     | _ \<Rightarrow> Inl (ApiError ''down''))"

definition sample_state :: "patroni \<Rightarrow> kstate" where
  "sample_state p = \<lparr>ks_inst = p, ks_hist = []\<rparr>"

definition sample_ctx :: "(event list \<Rightarrow> request \<Rightarrow> error + kobj) \<Rightarrow> wctx" where
  "sample_ctx api = \<lparr>wx_env = sample_env api, wx_image = images ! 1\<rparr>"

lemmas sample_defs = sample_node_def sample_spec_def sample_status_def sample_def sample_env_def
  status_only_def sample_state_def sample_ctx_def

lemma scan_samples:
  "sscanf_int ''0'' = Some 0" "sscanf_int ''1'' = Some 1" "sscanf_int ''x'' = None"
  by code_simp+

end
