(* ===== verification/Access_Props.thy ===== *)
theory Access_Props
  imports Client_Props Samples
begin

section \<open>Properties of the credentials, RBAC and network policy\<close>

text \<open>
  The reconcilers of \<open>Access\<close> instantiate the two shapes of \<open>Client_Props\<close>, through the
  interpretations of \<open>api_object\<close> for their types.
\<close>

subsection \<open>The secret\<close>








subsection \<open>RBAC, network policy, disruption budget\<close>

text \<open>
  The role binding gives the cluster's service account the role of the same name. The
  reference to the role, which Kubernetes refuses to change, is written only when the binding is
  created; an existing one keeps what it refers to, while its subjects are put right.
\<close>

theorem role_binding_kept:
  "case reconcileRoleBinding C s of (r, t) \<Rightarrow> r \<noteq> Panic \<and>
    (let p = ks_inst s; q = RGet RoleBindingKind (pp_namespace p) (pp_name p) None;
         sub = [\<lparr>sj_kind = ''ServiceAccount'', sj_name = pp_name p\<rparr>] in
     t = after (wx_env C) q s \<and> (\<exists>e. r = Err e) \<or>
     brought_to (wx_env C) p q KRoleBinding
       \<lparr>rb_meta = new_meta (pp_name p), rb_role_ref = \<lparr>rr_group = ''rbac.authorization.k8s.io'',
          rr_kind = ''Role'', rr_name = pp_name p\<rparr>, rb_subjects = []\<rparr>
       (\<lambda>m x. x\<lparr>rb_meta := m, rb_subjects := sub\<rparr>) rb_meta s t)"
proof -
  obtain r t where run: "reconcileRoleBinding C s = (r, t)" by fastforce
  have "bnd (create_or_set C RoleBindingT (pp_name (ks_inst s))
       \<lparr>rb_meta = new_meta (pp_name (ks_inst s)), rb_role_ref = \<lparr>rr_group = ''rbac.authorization.k8s.io'',
          rr_kind = ''Role'', rr_name = pp_name (ks_inst s)\<rparr>, rb_subjects = []\<rparr>
       (\<lambda>b. b\<lparr>rb_subjects := [\<lparr>sj_kind = ''ServiceAccount'', sj_name = pp_name (ks_inst s)\<rparr>]\<rparr>))
       (\<lambda>_. ret ()) s = (r, t)"
    using run by (simp add: reconcileRoleBinding_def bnd_run [of inst] inst_run ServiceAccountName_def)
  from rb.create_or_set_unit [OF this] run show ?thesis
    by (simp add: Let_def kube_sel)
qed

text \<open>
  The network policy selects the cluster's own pods and lets in, in this order: those pods
  themselves on every port, the peers of \<open>accessControl\<close> on the PostgreSQL port only, and
  whatever the user's additional rules allow; nothing of an older policy survives.
\<close>

theorem network_policy_desired:
  "case networkpolicy_Reconcile C s of (r, t) \<Rightarrow> r \<noteq> Panic \<and>
    (let p = ks_inst s; q = RGet NetworkPolicyKind (pp_namespace p) (pp_name p) None;
         rules = IngressRule [PodPeer (CommonLabels p)] [] #
           IngressRule (spec_access_control (pp_spec_of p)) [IntPort 5432] #
           spec_additional_ingress (pp_spec_of p) in
     t = after (wx_env C) q s \<and> (\<exists>e. r = Err e) \<or>
     brought_to (wx_env C) p q KNetworkPolicy
       \<lparr>np_meta = new_meta (pp_name p), np_pod_selector = [], np_ingress = []\<rparr>
       (\<lambda>m x. x\<lparr>np_meta := m, np_pod_selector := CommonLabels p, np_ingress := rules\<rparr>) np_meta s t)"
proof -
  obtain r t where run: "networkpolicy_Reconcile C s = (r, t)" by fastforce
  have "bnd (create_or_set C NetworkPolicyT (pp_name (ks_inst s))
       \<lparr>np_meta = new_meta (pp_name (ks_inst s)), np_pod_selector = [], np_ingress = []\<rparr>
       (\<lambda>n. n\<lparr>np_pod_selector := CommonLabels (ks_inst s), np_ingress := policy_ingress (ks_inst s)\<rparr>))
       (\<lambda>_. ret ()) s = (r, t)"
    using run by (simp add: networkpolicy_Reconcile_def bnd_run [of inst] inst_run)
  from np.create_or_set_unit [OF this] run show ?thesis
    by (simp add: Let_def kube_sel policy_ingress_def FromInt_def PostgresPort_def)
qed

end
