(* ===== verification/Service_Props.thy ===== *)
theory Service_Props
  imports Access_Props
begin

section \<open>Properties of the services\<close>

text \<open>
  The contract of a patch on a service, and the exact writes of a service reconcile with and
  without the patches an upgrade applies.
\<close>

subsection \<open>The \<open>Patch\<close> interface\<close>

text \<open>
  What \<open>ReconcileService\<close> relies on when it runs patches: on a service that has a port, each
  returns, leaves a port, and changes nothing but the ports.
\<close>

locale service_patching =
  fixes patch :: service_patch
  assumes patches: "svc_ports s \<noteq> [] \<Longrightarrow>
    \<exists>ps. ps \<noteq> [] \<and> patch s = Some (s\<lparr>svc_ports := ps\<rparr>)"
begin

lemma no_panic: "svc_ports s \<noteq> [] \<Longrightarrow> patch s \<noteq> None"
  using patches by fastforce

lemma then_patch:
  assumes "service_patching q"
  shows "service_patching (\<lambda>s. Option.bind (patch s) q)"
proof
  fix s :: service
  assume "svc_ports s \<noteq> []"
  then obtain ps where ps: "ps \<noteq> []" "patch s = Some (s\<lparr>svc_ports := ps\<rparr>)"
    using patches by blast
  with service_patching.patches [OF assms, of "s\<lparr>svc_ports := ps\<rparr>"]
  show "\<exists>ps. ps \<noteq> [] \<and> Option.bind (patch s) q = Some (s\<lparr>svc_ports := ps\<rparr>)" by auto
qed

end

interpretation svc_port_patch: service_patching "withPostgresqlPort_Patch p" for p
  by unfold_locales (auto simp: withPostgresqlPort_Patch_def split: list.splits)

interpretation svc_api_patch: service_patching withPatroniAPI_Patch
  by unfold_locales (auto simp: withPatroniAPI_Patch_def)

lemma apply_service_patches_patching:
  "list_all service_patching qs \<Longrightarrow> service_patching (apply_service_patches qs)"
proof (induction qs)
  case Nil
  show ?case by unfold_locales auto
next
  case (Cons q qs)
  then have "service_patching (\<lambda>s. Option.bind (q s) (apply_service_patches qs))"
    by (auto intro: service_patching.then_patch)
  then show ?case by (simp add: service_patching_def)
qed

subsection \<open>What is written\<close>

definition write_main :: "wctx \<Rightarrow> patroni \<Rightarrow> service_patch list \<Rightarrow> service kop" where
  "write_main C p patches =
     bnd (found (kget (wx_env C) ServiceT (pp_namespace p) (pp_name p))) (\<lambda>r.
     bnd (set_meta_of C ServiceT (case r of None \<Rightarrow> new_service (pp_name p) | Some s \<Rightarrow> s)) (\<lambda>s.
     create_or_update (wx_env C) ServiceT (r = None)
       (the (apply_service_patches patches (main_service_fields p s)))))"

definition write_headless :: "wctx \<Rightarrow> patroni \<Rightarrow> service \<Rightarrow> service kop" where
  "write_headless C p s =
     bnd (found (kget_into (wx_env C) ServiceT (pp_namespace p) (HeadlessServiceName p) s)) (\<lambda>r.
     bnd (set_meta_of C ServiceT (case r of None \<Rightarrow> new_service (HeadlessServiceName p) | Some s \<Rightarrow> s)) (\<lambda>s.
     create_or_update (wx_env C) ServiceT (r = None) (headless_service_fields p s)))"

text \<open>With patches that keep the contract the run is the two writes, one after the other.\<close>

lemma ReconcileService_writes:
  assumes "list_all service_patching patches"
  shows "ReconcileService C patches = bnd inst (\<lambda>p.
    bnd (write_main C p patches) (\<lambda>s. bnd (write_headless C p s) (\<lambda>_. ret ())))"
proof -
  have "\<exists>y. apply_service_patches patches (main_service_fields p s) = Some y" for p s
    using service_patching.no_panic [OF apply_service_patches_patching [OF assms]]
    by (simp add: main_service_fields_def)
  then have total: "of_option (apply_service_patches patches (main_service_fields p s)) =
      ret (the (apply_service_patches patches (main_service_fields p s)))" for p s
    by (metis of_option_simps(2) option.sel)
  show ?thesis
    by (simp add: total ReconcileService_def write_main_def write_headless_def Let_def bnd_assoc)
qed

lemma write_main_trace:
  assumes "write_main C (ks_inst s) patches s = (r, t)"
  shows "r \<noteq> Panic \<and> (let p = ks_inst s; q = RGet ServiceKind (pp_namespace p) (pp_name p) None in
    t = after (wx_env C) q s \<and> (\<exists>e. r = Err e) \<or>
    brought_to (wx_env C) p q KService (new_service (pp_name p)) (\<lambda>m x.
      the (apply_service_patches patches (main_service_fields p (x\<lparr>svc_meta := m\<rparr>)))) svc_meta s t)"
  using svc.bring_trace [OF assms [unfolded write_main_def] svc.kget_after [unfolded Let_def]]
  by (simp add: kube_sel Let_def)

lemma write_headless_trace:
  assumes "write_headless C (ks_inst s) x s = (r, t)"
  shows "r \<noteq> Panic \<and> (let p = ks_inst s;
      q = RGet ServiceKind (pp_namespace p) (pp_name p @ ''-headless'') (Some (KService x)) in
    t = after (wx_env C) q s \<and> (\<exists>e. r = Err e) \<or>
    brought_to (wx_env C) p q KService (new_service (pp_name p @ ''-headless'')) (\<lambda>m y.
      y\<lparr>svc_meta := m, svc_cluster_ip := ''None'', svc_selector := master_selector p\<rparr>) svc_meta s t)"
  using svc.bring_trace [OF assms [unfolded write_headless_def] svc.kget_into_after [unfolded Let_def]]
  by (simp add: kube_sel Let_def headless_service_fields_def HeadlessServiceName_def)

lemma two_writes:
  assumes "bnd m (\<lambda>x. bnd (f x) (\<lambda>_. ret ())) s = (r, t)" "m s = (Ok x, u)" "f x u = (b, v)"
  shows "t = v \<and> (r = Panic \<longleftrightarrow> b = Panic) \<and> ((\<exists>e. r = Err e) \<longleftrightarrow> (\<exists>e. b = Err e))"
  using assms by (cases b) (auto simp: bnd_run ret_run)

text \<open>
  C38. A reconcile of the services first brings the main service, then the headless one to the
  desired state, and never panics, with no patches or with the two of the maintenance stage. The
  main service selects the leader's pod and has exactly the desired ports: PostgreSQL's own, or
  in maintenance the port 55432 and Patroni's API, whatever ports it had. The headless service
  has no cluster address. A failed call ends the reconcile, and only a call that failed.
\<close>

theorem service_reconcile_trace:
  "case ReconcileService C (if up then [withPostgresqlPort_Patch 55432, withPatroniAPI_Patch] else []) s of
    (r, t) \<Rightarrow> r \<noteq> Panic \<and>
    (let p = ks_inst s; E = wx_env C;
         q = RGet ServiceKind (pp_namespace p) (pp_name p) None;
         hq = (\<lambda>x. RGet ServiceKind (pp_namespace p) (pp_name p @ ''-headless'') (Some (KService x)));
         ports = (if up then [\<lparr>sp_name = ''postgres'', sp_port = 55432, sp_target = IntPort 55432\<rparr>,
                              \<lparr>sp_name = ''patroni'', sp_port = 8008, sp_target = IntPort 8008\<rparr>]
                  else [\<lparr>sp_name = ''postgres'', sp_port = 5432, sp_target = IntPort 5432\<rparr>]);
         main = brought_to E p q KService (new_service (pp_name p))
           (\<lambda>m x. x\<lparr>svc_meta := m, svc_type := spec_service_type (pp_spec_of p),
              svc_selector := master_selector p, svc_ports := ports\<rparr>) svc_meta;
         headless = (\<lambda>x. brought_to E p (hq x) KService (new_service (pp_name p @ ''-headless''))
           (\<lambda>m y. y\<lparr>svc_meta := m, svc_cluster_ip := ''None'', svc_selector := master_selector p\<rparr>) svc_meta) in
     (\<exists>e. r = Err e) \<and> (t = after E q s \<or> main s t) \<or>
     (\<exists>u x. main s u \<and> ((\<exists>e. r = Err e) \<and> t = after E (hq x) u \<or> headless x u t)))"
proof -
  let ?ps = "if up then [withPostgresqlPort_Patch 55432, withPatroniAPI_Patch] else []"
  let ?p = "ks_inst s"
  obtain r t where run: "ReconcileService C ?ps s = (r, t)" by fastforce
  have fill: "the (apply_service_patches ?ps (main_service_fields ?p (x\<lparr>svc_meta := m\<rparr>))) =
      x\<lparr>svc_meta := m, svc_type := spec_service_type (pp_spec_of ?p), svc_selector := master_selector ?p,
        svc_ports := (if up then [\<lparr>sp_name = ''postgres'', sp_port = 55432, sp_target = IntPort 55432\<rparr>,
            \<lparr>sp_name = ''patroni'', sp_port = 8008, sp_target = IntPort 8008\<rparr>]
          else [\<lparr>sp_name = ''postgres'', sp_port = 5432, sp_target = IntPort 5432\<rparr>])\<rparr>" for m x
    by (simp add: main_service_fields_def postgres_port_def PostgresPortName_def PostgresPort_def
        FromInt_def withPostgresqlPort_Patch_def withPatroniAPI_Patch_def)
  have "list_all service_patching ?ps"
    by (simp add: svc_port_patch.service_patching_axioms svc_api_patch.service_patching_axioms)
  from run [unfolded ReconcileService_writes [OF this]]
  have run': "bnd (write_main C ?p ?ps) (\<lambda>x. bnd (write_headless C ?p x) (\<lambda>_. ret ())) s = (r, t)"
    by (simp add: bnd_run [of inst] inst_run)
  obtain a u where a: "write_main C ?p ?ps s = (a, u)" by fastforce
  note main = write_main_trace [OF a, unfolded fill Let_def]
  show ?thesis
  proof (cases a)
    case (Ok x)
    with main have u: "ks_inst u = ?p" by (auto dest: brought_to_inst)
    obtain b v where b: "write_headless C ?p x u = (b, v)" by fastforce
    from two_writes [OF run' a [unfolded Ok] this] write_headless_trace [of C u x, unfolded u Let_def, OF b] main [unfolded Ok]
    show ?thesis unfolding run Let_def prod.case by blast
  next
    case (Err e)
    with a run' have "r = Err e" "t = u" by (simp_all add: bnd_run)
    with main [unfolded Err] show ?thesis unfolding run Let_def prod.case by blast
  next
    case Panic
    with main show ?thesis by simp
  qed
qed

end
