(* ===== verification/Sts_Props.thy ===== *)
theory Sts_Props
  imports Service_Props
begin

section \<open>Properties of the stateful set\<close>

text \<open>
  The contract of a patch on a pod template, the one write of a stateful set reconcile, when a
  cluster counts as ready, and the variables of the node tags.
\<close>

subsection \<open>The \<open>Patch\<close> interface\<close>

text \<open>
  What \<open>ReconcileSts\<close> relies on when it runs patches: on a template with a container, each
  returns and changes nothing but the first container, whose environment it may extend and whose
  stop hook it may set. The extension is the same for every set.
\<close>

locale sts_patching =
  fixes patch :: sts_patch_fun and envs :: "env_var list" and hook :: "string list option \<Rightarrow> string list option"
  assumes patches: "ps_containers (sts_pod s) = c # cs \<Longrightarrow> patch s =
    Some (set_containers (c\<lparr>ct_env := ct_env c @ envs, ct_pre_stop := hook (ct_pre_stop c)\<rparr> # cs) s)"
begin

lemma no_panic: "ps_containers (sts_pod s) \<noteq> [] \<Longrightarrow> patch s \<noteq> None"
  by (cases "ps_containers (sts_pod s)") (simp_all add: patches)

end

lemma set_containers_sel [simp]:
  "ps_containers (sts_pod (set_containers cs s)) = cs"
  "set_containers ds (set_containers cs s) = set_containers ds s"
  by (simp_all add: set_containers_def)

interpretation sts_port_patch: sts_patching "sts_withPostgresqlPort_Patch p"
    "[env_val ''POSTGRESQL_PORT'' (show_int p)]" id for p
  by unfold_locales (simp add: sts_withPostgresqlPort_Patch_def on_first_container_def add_envs_def)

interpretation sts_pause_patch: sts_patching withPausedPatroni_Patch
    "[env_val ''PGDATA'' ''/var/lib/postgresql/data'']" "\<lambda>_. Some [''sh'', ''-c'', pre_stop_script]"
  by unfold_locales
    (simp add: withPausedPatroni_Patch_def on_first_container_def add_envs_def DataVolumeMountPath_def)

lemma no_patch: "sts_patching Some [] id"
  by unfold_locales (simp add: set_containers_def)

context sts_patching
begin

lemma then_patch:
  assumes "sts_patching q envs' hook'"
  shows "sts_patching (\<lambda>s. Option.bind (patch s) q) (envs @ envs') (hook' \<circ> hook)"
  by unfold_locales (simp add: patches sts_patching.patches [OF assms])

end

text \<open>The two lists the program runs, as one patch each.\<close>

lemma apply_sts_patches_patching:
  "sts_patching (apply_sts_patches (if up then [sts_withPostgresqlPort_Patch 55432, withPausedPatroni_Patch] else []))
     (if up then [env_val ''POSTGRESQL_PORT'' ''55432'', env_val ''PGDATA'' ''/var/lib/postgresql/data''] else [])
     (if up then (\<lambda>_. Some [''sh'', ''-c'', pre_stop_script]) else id)"
proof (cases up)
  case True
  have "apply_sts_patches [sts_withPostgresqlPort_Patch 55432, withPausedPatroni_Patch] =
      (\<lambda>s. Option.bind (sts_withPostgresqlPort_Patch 55432 s) withPausedPatroni_Patch)"
    by (rule ext) (auto split: Option.bind_splits)
  moreover have "show_int 55432 = ''55432''" 
    by (simp add: show_int_def show_nat.simps digit_chars)
  ultimately show ?thesis
    using True sts_port_patch.then_patch [OF sts_pause_patch.sts_patching_axioms, of 55432]
    by (simp add: comp_def)
next
  case False
  then show ?thesis using no_patch by (simp add: fun_eq_iff sts_patching_def)
qed

subsection \<open>What is written\<close>

abbreviation maintenance :: "bool \<Rightarrow> sts_patch_fun list" where
  "maintenance up \<equiv> (if up then [sts_withPostgresqlPort_Patch 55432, withPausedPatroni_Patch] else [])"

text \<open>
  The container that runs PostgreSQL, in maintenance on another port and with a stop hook, and
  the pod template around it: the pod of the source, then the user's own containers.
\<close>

definition desired_container :: "wctx \<Rightarrow> patroni \<Rightarrow> bool \<Rightarrow> container" where
  "desired_container C p up = (postgres_container C p)
    \<lparr>ct_env := postgres_envs p @
       (if up then [env_val ''POSTGRESQL_PORT'' ''55432'', env_val ''PGDATA'' ''/var/lib/postgresql/data'']
        else []) @ genNodeTagsEnvs p,
     ct_pre_stop := (if up then Some [''sh'', ''-c'', pre_stop_script] else None)\<rparr>"

definition desired_template :: "wctx \<Rightarrow> patroni \<Rightarrow> bool \<Rightarrow> pod_template" where
  "desired_template C p up = (sts_pod_template C p)
    \<lparr>pt_spec := (pt_spec (sts_pod_template C p))
       \<lparr>ps_containers := desired_container C p up # spec_extra_containers (pp_spec_of p)\<rparr>\<rparr>"

definition desired_sts :: "wctx \<Rightarrow> patroni \<Rightarrow> bool \<Rightarrow> object_meta \<Rightarrow> statefulset \<Rightarrow> statefulset" where
  "desired_sts C p up m x = x\<lparr>sts_meta := m, sts_spec := (sts_spec x)
    \<lparr>ss_min_ready := 60, ss_replicas := Some (word_of_int (int (length (pp_nodes p)))),
     ss_template := desired_template C p up\<rparr>\<rparr>"

lemma postgres_container_sel:
  "ct_env (postgres_container C p) = postgres_envs p" "ct_pre_stop (postgres_container C p) = None"
  by (simp_all add: postgres_container_def zero_container_def)

lemma sts_patched:
  "\<exists>y. apply_sts_patches (maintenance up) (sts_fields C p (x\<lparr>sts_meta := m\<rparr>)) = Some y \<and>
     (\<exists>z. on_first_container (add_envs (genNodeTagsEnvs p)) y = Some z \<and>
        add_extra_containers p z = desired_sts C p up m x)"
proof -
  have "ps_containers (sts_pod (sts_fields C p (x\<lparr>sts_meta := m\<rparr>))) = [postgres_container C p]"
    by (simp add: sts_fields_def sts_pod_template_def)
  from sts_patching.patches [OF apply_sts_patches_patching this, of up] show ?thesis
    by (simp add: on_first_container_def add_extra_containers_def desired_sts_def desired_container_def
        desired_template_def postgres_container_sel)
      (simp add: set_containers_def sts_fields_def add_envs_def)
qed

text \<open>The write of the desired set; the count of ready replicas is recorded even if it failed.\<close>

definition finish_sts :: "wctx \<Rightarrow> bool \<Rightarrow> statefulset \<Rightarrow> statefulset kop" where
  "finish_sts C create x =
     bnd (attempt (create_or_update (wx_env C) StatefulSetT create x)) (\<lambda>w.
     let x' = (case w of Inr x' \<Rightarrow> x' | Inl _ \<Rightarrow> x) in
     bnd (set_status (\<lambda>st. st\<lparr>st_ready := sts_ready x'\<rparr>)) (\<lambda>_.
     case w of Inl e \<Rightarrow> fail e | Inr _ \<Rightarrow> ret x'))"

lemma finish_sts_write:
  assumes "finish_sts C create x s = (r, t)"
  obtains n u where "create_or_update (wx_env C) StatefulSetT create x s = (r, u)" "ks_inst u = ks_inst s"
    "r \<noteq> Panic \<Longrightarrow> t = u\<lparr>ks_inst := upd_status (\<lambda>st. st\<lparr>st_ready := n\<rparr>) (ks_inst s)\<rparr>"
    "\<And>y. r = Ok y \<Longrightarrow> n = sts_ready y"
proof -
  obtain a u where a: "create_or_update (wx_env C) StatefulSetT create x s = (a, u)" by fastforce
  moreover have "ks_inst u = ks_inst s"
    using keepsD [OF create_or_update_same a, of id] by (simp add: same_def)
  ultimately show ?thesis
    using assms that by (cases a) (auto simp: finish_sts_def bnd_run attempt_run set_status_run ret_run fail_run)
qed

lemma patch_then:
  "bnd (of_option (apply_sts_patches (maintenance up) (sts_fields C p x))) (\<lambda>y.
   bnd (of_option (on_first_container (add_envs (genNodeTagsEnvs p)) y)) (\<lambda>z.
   let z' = add_extra_containers p z in f z')) = f (desired_sts C p up (sts_meta x) x)"
  using sts_patched [where m = "sts_meta x" and x = x and up = up and C = C and p = p] by auto

lemma ReconcileSts_finish:
  "ReconcileSts C (maintenance up) = bnd inst (\<lambda>p.
     bnd (found (GetK8SStatefulSet C)) (\<lambda>r.
     bnd (set_meta_of C StatefulSetT (case r of None \<Rightarrow> new_statefulset (pp_name p) | Some s \<Rightarrow> s)) (\<lambda>x.
     let y = (if r = None then x\<lparr>sts_spec := initial_sts_spec p\<rparr> else x) in
     finish_sts C (r = None) (desired_sts C p up (sts_meta y) y))))"
  unfolding ReconcileSts_def patch_then finish_sts_def [symmetric] by (simp only: Let_def)

lemma finish_sts_trace:
  assumes "bnd (set_meta_of C StatefulSetT x) (\<lambda>x. let y = (if create then x\<lparr>sts_spec := sp\<rparr> else x) in
      finish_sts C create (desired_sts C p up (sts_meta y) y)) s = (r, t)"
    and "ks_inst s = p"
  shows "r \<noteq> Panic \<and> (t = s \<and> (\<exists>e. r = Err e) \<or> (\<exists>m u n. meta_ok p (sts_meta x) m \<and>
    u = after (wx_env C) (if create then RCreate (KStatefulSet (desired_sts C p up m (x\<lparr>sts_spec := sp\<rparr>)))
      else RUpdate (KStatefulSet (desired_sts C p up m x))) s \<and>
    t = u\<lparr>ks_inst := upd_status (\<lambda>st. st\<lparr>st_ready := n\<rparr>) p\<rparr> \<and> (\<forall>y. r = Ok y \<longrightarrow> n = sts_ready y)))"
proof -
  obtain a v where a: "set_meta_of C StatefulSetT x s = (a, v)" by fastforce
  from set_meta_of_cases [OF a] consider (err) e where "a = Err e" "v = s"
    | (ok) m where "a = Ok (x\<lparr>sts_meta := m\<rparr>)" "v = s" "meta_ok p (sts_meta x) m"
    by (auto simp: kube_sel assms(2))
  then show ?thesis
  proof cases
    case err
    with a assms(1) show ?thesis by (auto simp: bnd_run)
  next
    case ok
    let ?y = "desired_sts C p up m (if create then x\<lparr>sts_spec := sp\<rparr> else x)"
    have "desired_sts C p up m (y\<lparr>sts_meta := m'\<rparr>) = desired_sts C p up m y" for y m'
      by (simp add: desired_sts_def)
    moreover have "x\<lparr>sts_meta := m, sts_spec := sp\<rparr> = x\<lparr>sts_spec := sp, sts_meta := m\<rparr>" by simp
    ultimately have "finish_sts C create ?y s = (r, t)"
      using a ok assms(1) by (simp only: bnd_run prod.case res.case Let_def) (auto split: if_splits)
    then obtain n u where u: "create_or_update (wx_env C) StatefulSetT create ?y s = (r, u)"
      and "r \<noteq> Panic \<Longrightarrow> t = u\<lparr>ks_inst := upd_status (\<lambda>st. st\<lparr>st_ready := n\<rparr>) p\<rparr>"
      and "\<And>y. r = Ok y \<Longrightarrow> n = sts_ready y"
      using finish_sts_write [of C create ?y s r t] assms(2) by metis
    moreover from u have "r \<noteq> Panic" "u = after (wx_env C) (if create
        then RCreate (KStatefulSet (desired_sts C p up m (x\<lparr>sts_spec := sp\<rparr>)))
        else RUpdate (KStatefulSet (desired_sts C p up m x))) s"
      by (auto simp: create_or_update_def kube_sel split: if_splits dest: sts.write_after)
    ultimately show ?thesis using ok by blast
  qed
qed

text \<open>A run is a read and a write, and records the ready replicas if it came to the write.\<close>

lemma ReconcileSts_trace:
  assumes "ReconcileSts C (maintenance up) s = (r, t)"
  shows "r \<noteq> Panic \<and> (let p = ks_inst s; E = wx_env C; q = RGet StatefulSetKind (pp_namespace p) (pp_name p) None in
    t = after E q s \<and> (\<exists>e. r = Err e) \<or>
    (\<exists>u n. brought_to E p q KStatefulSet ((new_statefulset (pp_name p))\<lparr>sts_spec := initial_sts_spec p\<rparr>)
        (desired_sts C p up) sts_meta s u \<and>
      t = u\<lparr>ks_inst := upd_status (\<lambda>st. st\<lparr>st_ready := n\<rparr>) p\<rparr> \<and> (\<forall>y. r = Ok y \<longrightarrow> n = sts_ready y)))"
proof -
  let ?p = "ks_inst s" and ?E = "wx_env C"
  let ?q = "RGet StatefulSetKind (pp_namespace ?p) (pp_name ?p) None"
  have meta: "sts_meta ((new_statefulset n)\<lparr>sts_spec := sp\<rparr>) = sts_meta (new_statefulset n)" for n sp
    by simp
  have get: "found (GetK8SStatefulSet C) s = found (kget ?E StatefulSetT (pp_namespace ?p) (pp_name ?p)) s"
    by (simp add: found_def attempt_run bnd_run GetK8SStatefulSet_def inst_run)
  note finish = finish_sts_trace [unfolded Let_def, where p = ?p and up = up and C = C and s = "after ?E ?q s" and r = r and t = t]
  note run = assms [unfolded ReconcileSts_finish bnd_run [of inst] inst_run prod.case res.case
      bnd_run [of "found _"] get sts.kget_after Let_def]
  show ?thesis
  proof (cases "ke_api ?E (ks_hist s) ?q")
    case (Inl e)
    with run finish [of "new_statefulset (pp_name ?p)" True "initial_sts_spec ?p"]
    show ?thesis
      by (simp add: kube_sel Let_def brought_to_def meta split: if_splits) blast+
  next
    case (Inr z)
    show ?thesis
    proof (cases "kt_unwrap StatefulSetT z")
      case None
      with run Inr show ?thesis by (auto simp: kube_sel Let_def)
    next
      case (Some x)
      with run Inr finish [of x False] sts.wrap_inj [OF Some] show ?thesis
        by (simp add: kube_sel Let_def brought_to_def) blast
    qed
  qed
qed

text \<open>
  C39. A reconcile of the stateful set never panics, with no patches or with the two of the
  maintenance stage. It reads the set and then either stops with an error or writes it once. The
  template written is always the desired one: the image of the running version, the environment
  in its order, in maintenance the other port and the stop hook, the users' containers last. An
  existing set keeps its selector, claim templates, service name and pod management policy; a new
  one gets the initial ones. The ready replicas of the result are recorded in the status, and
  nothing else of the instance changes.
\<close>

theorem sts_reconcile_trace:
  "case ReconcileSts C (if up then [sts_withPostgresqlPort_Patch 55432, withPausedPatroni_Patch] else []) s of
    (r, t) \<Rightarrow> r \<noteq> Panic \<and>
    (let p = ks_inst s; q = RGet StatefulSetKind (pp_namespace p) (pp_name p) None in
     t = after (wx_env C) q s \<and> (\<exists>e. r = Err e) \<or>
     (\<exists>u n. brought_to (wx_env C) p q KStatefulSet
         ((new_statefulset (pp_name p))\<lparr>sts_spec := initial_sts_spec p\<rparr>)
         (\<lambda>m x. x\<lparr>sts_meta := m, sts_spec := (sts_spec x)
            \<lparr>ss_min_ready := 60, ss_replicas := Some (word_of_int (int (length (spec_nodes (pp_spec_of p))))),
             ss_template := desired_template C p up\<rparr>\<rparr>) sts_meta s u \<and>
       t = u\<lparr>ks_inst := upd_status (\<lambda>st. st\<lparr>st_ready := n\<rparr>) p\<rparr> \<and>
       (case r of Ok y \<Rightarrow> n = sts_ready y | _ \<Rightarrow> True)))"
proof -
  obtain r t where run: "ReconcileSts C (maintenance up) s = (r, t)" by fastforce
  have "(\<forall>y. r = Ok y \<longrightarrow> n = sts_ready y) \<longleftrightarrow> (case r of Ok y \<Rightarrow> n = sts_ready y | _ \<Rightarrow> True)" for n
    by (auto split: res.splits)
  with ReconcileSts_trace [OF run] show ?thesis
    unfolding run prod.case desired_sts_def [abs_def] by (simp only: Let_def simp_thms)
qed

subsection \<open>Ready or scaling\<close>

lemma ReconcileSts_inst:
  assumes "ReconcileSts C [] s = (r, t)"
  shows "r \<noteq> Panic \<and> (\<exists>n. ks_inst t = upd_status (\<lambda>st. st\<lparr>st_ready := n\<rparr>) (ks_inst s) \<and>
    (\<forall>y. r = Ok y \<longrightarrow> n = sts_ready y))"
proof -
  have "\<exists>n. ks_inst s = upd_status (\<lambda>st. st\<lparr>st_ready := n\<rparr>) (ks_inst s)"
    by (rule exI [of _ "st_ready (pp_status_of (ks_inst s))"]) simp
  with ReconcileSts_trace [of C False s r t] assms show ?thesis
    by (auto simp: Let_def dest: brought_to_inst)
qed

text \<open>
  C40. When the stateful set has been reconciled the cluster is ready if every node's replica is,
  and scaling up or down otherwise; the upgrades on offer are refreshed exactly when it is ready.
  A reconcile that fails changes neither the state nor the offer. None panics.
\<close>

theorem cluster_ready:
  "case statefulset_Reconcile C s of (r, t) \<Rightarrow> r \<noteq> Panic \<and>
    (\<exists>n. ks_inst t = upd_status (\<lambda>st. case r of
         Ok _ \<Rightarrow>
           if sint n = int (length (spec_nodes (pp_spec_of (ks_inst s))))
           then st\<lparr>st_ready := n, st_state := StateReady,
             st_upgrade_versions := image_UpgradeVersions (wx_image C) (st_version st)\<rparr>
           else st\<lparr>st_ready := n, st_state := StateScaling\<rparr>
       | _ \<Rightarrow> st\<lparr>st_ready := n\<rparr>) (ks_inst s))"
proof -
  obtain a u where a: "ReconcileSts C [] s = (a, u)" by fastforce
  from ReconcileSts_inst [OF a] obtain n where n: "a \<noteq> Panic"
    "ks_inst u = upd_status (\<lambda>st. st\<lparr>st_ready := n\<rparr>) (ks_inst s)" "\<And>y. a = Ok y \<Longrightarrow> n = sts_ready y"
    by blast
  show ?thesis
  proof (cases a)
    case (Ok y)
    with a n show ?thesis
      by (auto simp: statefulset_Reconcile_def bnd_run inst_run set_status_run intro: exI [of _ n])
  next
    case (Err e)
    with a n show ?thesis
      by (auto simp: statefulset_Reconcile_def bnd_run intro: exI [of _ n])
  qed (use n in simp)
qed

subsection \<open>Node tags\<close>

definition tag_name :: "patroni \<Rightarrow> nat \<Rightarrow> string \<Rightarrow> string" where
  "tag_name p i tag = ''PATRONI_NODE_'' @ replace_all (CHR ''-'') ''_'' (pp_name p) @ ''_'' @ show_nat i
     @ ''_TAG_'' @ tag"

lemma underscore_show_nat: "CHR ''_'' \<notin> set (show_nat n)"
  using show_nat_digits [of "CHR ''_''" n] by (auto simp: is_digit_def)

lemma tag_name_inject:
  "tag_name p i tag = tag_name p j tag' \<longleftrightarrow> i = j \<and> tag = tag'"
proof
  assume "tag_name p i tag = tag_name p j tag'"
  then have eq: "show_nat i @ ''_TAG_'' @ tag = show_nat j @ ''_TAG_'' @ tag'"
    by (simp add: tag_name_def)
  have "takeWhile (\<lambda>c. c \<noteq> CHR ''_'') (show_nat n @ ''_TAG_'' @ u) = show_nat n" for n u
    using underscore_show_nat [of n] by (induction "show_nat n" rule: list.induct)
      (auto simp: takeWhile_tail takeWhile_append2)
  with eq have "show_nat i = show_nat j" by metis
  with eq show "i = j \<and> tag = tag'" by simp
qed simp

definition tag_envs :: "patroni \<Rightarrow> nat \<times> node \<Rightarrow> env_var list" where
  "tag_envs p = (\<lambda>(i, nd).
     (if nt_nosync (nd_tags nd) then [env_val (tag_name p i ''nosync'') ''true''] else []) @
     (if nt_nofailover (nd_tags nd) then [env_val (tag_name p i ''nofailover'') ''true''] else []))"

lemma genNodeTagsEnvs_map: "genNodeTagsEnvs p = concat (map (tag_envs p) (enumerate 0 (pp_nodes p)))"
proof -
  have env: "node_tag_env (replace_all (CHR ''-'') ''_'' (pp_name p)) i tag =
      env_val (tag_name p i tag) ''true''" for i tag
    by (simp add: node_tag_env_def tag_name_def)
  show ?thesis by (simp add: env genNodeTagsEnvs_def tag_envs_def Let_def cong: if_cong)
qed

lemma tag_envs_names:
  "e \<in> set (concat (map (tag_envs p) (enumerate k nds))) \<Longrightarrow> \<exists>i tag. k \<le> i \<and> ev_name e = tag_name p i tag"
  by (fastforce simp: tag_envs_def in_set_enumerate_eq env_val_def split: if_splits)

lemma tag_envs_distinct: "distinct (map ev_name (concat (map (tag_envs p) (enumerate k nds))))"
proof (induction nds arbitrary: k)
  case (Cons nd nds)
  let ?B = "concat (map (tag_envs p) (enumerate (Suc k) nds))"
  have "set (map ev_name ?B) \<inter> range (tag_name p k) = {}"
  proof (rule equals0I)
    fix n
    assume "n \<in> set (map ev_name ?B) \<inter> range (tag_name p k)"
    then obtain e tag where e: "e \<in> set ?B" "ev_name e = tag_name p k tag"
      unfolding set_map by (elim IntE imageE rangeE) metis
    from tag_envs_names [OF e(1)] e(2) show False by (auto simp: tag_name_inject)
  qed
  moreover have "set (map ev_name (tag_envs p (k, nd))) \<subseteq> range (tag_name p k)"
    by (auto simp: tag_envs_def env_val_def)
  ultimately have "set (map ev_name (tag_envs p (k, nd))) \<inter> set (map ev_name ?B) = {}"
    by (meson disjoint_iff subset_iff)
  moreover have "distinct (map ev_name (tag_envs p (k, nd)))"
    by (auto simp: tag_envs_def env_val_def tag_name_inject)
  ultimately show ?case using Cons [of "Suc k"]
    by (simp only: enumerate_simps list.map concat.simps map_append distinct_append simp_thms)
qed simp

text \<open>
  The tags Patroni is told: the container gets one variable for each tag set on a node and
  no other, each under a name that determines the node's number and the tag, each once and with
  the value true.
\<close>

theorem node_tags:
  "set (genNodeTagsEnvs p) =
     (\<lambda>i. env_val (tag_name p i ''nosync'') ''true'') ` {i. i < length (pp_nodes p) \<and> nt_nosync (nd_tags (pp_nodes p ! i))} \<union>
     (\<lambda>i. env_val (tag_name p i ''nofailover'') ''true'') ` {i. i < length (pp_nodes p) \<and> nt_nofailover (nd_tags (pp_nodes p ! i))} \<and>
   distinct (map ev_name (genNodeTagsEnvs p)) \<and>
   (tag_name p i tag = tag_name p j tag') = (i = j \<and> tag = tag')"
proof -
  have "set (genNodeTagsEnvs p) = (\<Union>i \<in> {..< length (pp_nodes p)}. set (tag_envs p (i, pp_nodes p ! i)))"
    by (force simp: genNodeTagsEnvs_map in_set_enumerate_eq Bex_def)
  then have "set (genNodeTagsEnvs p) =
     (\<lambda>i. env_val (tag_name p i ''nosync'') ''true'') ` {i. i < length (pp_nodes p) \<and> nt_nosync (nd_tags (pp_nodes p ! i))} \<union>
     (\<lambda>i. env_val (tag_name p i ''nofailover'') ''true'') ` {i. i < length (pp_nodes p) \<and> nt_nofailover (nd_tags (pp_nodes p ! i))}"
    by (auto simp: tag_envs_def split: if_splits)
  with tag_envs_distinct [of p 0 "pp_nodes p"] show ?thesis
    by (simp add: tag_name_inject genNodeTagsEnvs_map)
qed

end
