(* ===== verification/Job_Props.thy ===== *)
theory Job_Props
  imports Sts_Props
begin

section \<open>Properties of the upgrade jobs\<close>

text \<open>
  The interface of an upgrade job, interpreted for the three there are, and the job that is
  created from it.
\<close>

subsection \<open>The \<open>UpgradeJob\<close> interface\<close>

text \<open>
  What \<open>ensureUpgradeJob\<close> relies on when it lets a job customise its pod: with one container in
  the pod it returns, and all it changes is that this container's environment gets more
  variables.
\<close>

locale upgradejob =
  fixes j :: upgrade_job and extra :: "env_var list"
  assumes customize: "ps_containers ps = [c] \<Longrightarrow>
    uj_customize j ps = Some (ps\<lparr>ps_containers := [c\<lparr>ct_env := ct_env c @ extra\<rparr>]\<rparr>)"

interpretation preupgrade: upgradejob preupgradeJob "[]"
  by unfold_locales (simp add: preupgradeJob_def)

interpretation preupgrade_sync: upgradejob preupgradeSyncJob "[env_val ''PAUSE'' ''true'']"
proof
  fix ps :: pod_spec and c
  have "to_upper UpgradeMODEPauseFlag = ''PAUSE''" by code_simp
  then show "ps_containers ps = [c] \<Longrightarrow> uj_customize preupgradeSyncJob ps =
      Some (ps\<lparr>ps_containers := [c\<lparr>ct_env := ct_env c @ [env_val ''PAUSE'' ''true'']\<rparr>]\<rparr>)"
    by (simp add: preupgradeSyncJob_def preupgradeSync_CustomizePodSpec_def add_envs_def)
qed

interpretation postupgrade: upgradejob postupgradeJob "[]"
  by unfold_locales (simp add: postupgradeJob_def)

lemma unwrap_job: "kt_unwrap JobT x = (case x of KJob y \<Rightarrow> Some y | _ \<Rightarrow> None)"
  by (simp add: JobT_def)

text \<open>The job as it is created, before its metadata.\<close>

definition desired_job :: "wctx \<Rightarrow> patroni \<Rightarrow> upgrade_job \<Rightarrow> env_var list \<Rightarrow> job" where
  "desired_job C p j extra = new_job (upgradeJobname p j)
     \<lparr>js_deadline = Some (uj_deadline j), js_completions = None, js_selector = None,
      js_template = zero_pod_template\<lparr>pt_labels := CommonLabels p,
        pt_spec := (upgrade_job_pod C p j)\<lparr>ps_containers :=
          [(hd (ps_containers (upgrade_job_pod C p j)))\<lparr>ct_env := upgrade_job_envs p j @ extra\<rparr>]\<rparr>\<rparr>\<rparr>"

context upgradejob
begin

lemma ensure_trace:
  assumes "ensureUpgradeJob C j s = (r, t)"
  shows "r \<noteq> Panic \<and> (let p = ks_inst s; E = wx_env C; q = RGet JobKind (pp_namespace p) (upgradeJobname p j) None in
    case ke_api E (ks_hist s) q of
      Inr x \<Rightarrow> t = after E q s \<and> (case x of KJob job \<Rightarrow> r = Ok job | _ \<Rightarrow> r = Err DecodeError)
    | Inl e \<Rightarrow> if e \<noteq> NotFound then r = Err e \<and> t = after E q s
        else (\<exists>e. r = Err e) \<and> t = after E q s \<or>
          (\<exists>m. meta_ok p (new_meta (upgradeJobname p j)) m \<and>
             kcreate E JobT ((desired_job C p j extra)\<lparr>job_meta := m\<rparr>) (after E q s) = (r, t)))"
proof -
  let ?p = "ks_inst s" and ?E = "wx_env C"
  let ?q = "RGet JobKind (pp_namespace ?p) (upgradeJobname ?p j) None"
  let ?s = "after ?E ?q s"
  have pod: "uj_customize j (upgrade_job_pod C ?p j) = Some ((upgrade_job_pod C ?p j)\<lparr>ps_containers :=
      [(hd (ps_containers (upgrade_job_pod C ?p j)))\<lparr>ct_env := upgrade_job_envs ?p j @ extra\<rparr>]\<rparr>)"
    using customize [of "upgrade_job_pod C ?p j"] by (simp add: upgrade_job_pod_def)
  have new: "r \<noteq> Panic \<and> ((\<exists>e. r = Err e) \<and> t = ?s \<or>
      (\<exists>m. meta_ok ?p (new_meta (upgradeJobname ?p j)) m \<and>
         kcreate ?E JobT ((desired_job C ?p j extra)\<lparr>job_meta := m\<rparr>) ?s = (r, t)))"
    if run: "bnd (set_meta_of C JobT (desired_job C ?p j extra)) (kcreate ?E JobT) ?s = (r, t)"
  proof -
    obtain a v where a: "set_meta_of C JobT (desired_job C ?p j extra) ?s = (a, v)" by fastforce
    from set_meta_of_cases [OF a] run a job.write_after(1) [of ?E _ ?s r t] show ?thesis
      by (auto simp: bnd_run kube_sel desired_job_def new_job_def)
  qed
  show ?thesis
  proof (cases "ke_api ?E (ks_hist s) ?q")
    case (Inl e)
    with assms new show ?thesis
      by (auto simp: ensureUpgradeJob_def bnd_run [of inst] inst_run bnd_run [of "found _"] job.kget_after
          kube_sel Let_def pod desired_job_def split: if_splits)
  next
    case (Inr x)
    with assms show ?thesis
      by (cases x) (auto simp: ensureUpgradeJob_def bnd_run inst_run job.kget_after kube_sel Let_def
          unwrap_job ret_run)
  qed
qed

lemma ensure_desired:
  "case ensureUpgradeJob C j s of (r, t) \<Rightarrow> r \<noteq> Panic \<and> (let p = ks_inst s; E = wx_env C;
       q = RGet JobKind (pp_namespace p) (pp_name p @ ''-'' @ uj_mode j) None in
     case ke_api E (ks_hist s) q of
       Inr x \<Rightarrow> t = after E q s \<and> (case x of KJob job \<Rightarrow> r = Ok job | _ \<Rightarrow> r = Err DecodeError)
     | Inl e \<Rightarrow> if e \<noteq> NotFound then r = Err e \<and> t = after E q s
         else (\<exists>e. r = Err e) \<and> t = after E q s \<or>
           (\<exists>job. t = after E (RCreate (KJob job)) (after E q s) \<and>
              m_name (job_meta job) = pp_name p @ ''-'' @ uj_mode j \<and> m_namespace (job_meta job) = pp_namespace p \<and>
              js_deadline (job_spec_of job) = Some (uj_deadline j) \<and>
              map (\<lambda>c. (ct_image c, ct_command c, ct_env c)) (ps_containers (pt_spec (js_template (job_spec_of job)))) =
                [(ke_upgrade_image E, [''/upgrade''], upgrade_job_envs p j @ extra)]))"
proof -
  let ?p = "ks_inst s"
  obtain r t where run: "ensureUpgradeJob C j s = (r, t)" by fastforce
  have job: "\<exists>job. t = after (wx_env C) (RCreate (KJob job)) u \<and>
      m_name (job_meta job) = pp_name ?p @ ''-'' @ uj_mode j \<and> m_namespace (job_meta job) = pp_namespace ?p \<and>
      js_deadline (job_spec_of job) = Some (uj_deadline j) \<and>
      map (\<lambda>c. (ct_image c, ct_command c, ct_env c)) (ps_containers (pt_spec (js_template (job_spec_of job)))) =
        [(ke_upgrade_image (wx_env C), [''/upgrade''], upgrade_job_envs ?p j @ extra)]"
    if "meta_ok ?p (new_meta (upgradeJobname ?p j)) m \<and>
      kcreate (wx_env C) JobT ((desired_job C ?p j extra)\<lparr>job_meta := m\<rparr>) u = (r, t)" for m u
    by (rule exI [of _ "(desired_job C ?p j extra)\<lparr>job_meta := m\<rparr>"])
      (use meta_okD [OF conjunct1 [OF that]] job.write_after(1) [OF conjunct2 [OF that]] in
        \<open>simp add: desired_job_def new_job_def new_meta_def upgradeJobname_def upgrade_job_pod_def kube_sel\<close>)
  have name: "pp_name ?p @ ''-'' @ uj_mode j = upgradeJobname ?p j" by (simp add: upgradeJobname_def)
  note trace = ensure_trace [OF run, unfolded Let_def]
  show ?thesis
  proof (cases "ke_api (wx_env C) (ks_hist s) (RGet JobKind (pp_namespace ?p) (upgradeJobname ?p j) None)")
    case (Inl e)
    show ?thesis
    proof (cases "e = NotFound")
      case True
      with trace Inl job show ?thesis
        unfolding run prod.case Let_def name by (simp only: sum.case simp_thms if_False) blast
    next
      case False
      with trace Inl show ?thesis unfolding run prod.case Let_def name by simp
    qed
  next
    case (Inr x)
    with trace show ?thesis unfolding run prod.case Let_def name by simp
  qed
qed

end

text \<open>
  C36. Each of the three helper jobs is created at most once: a job that exists, finished or not,
  is returned as it is after a single read; only if there is none is one created, under a name of
  its own, with the credentials, the port and the mode of its step and the size of the cluster in
  its environment. Customising the pod never panics.
\<close>

theorem upgrade_job_ensured:
  "list_all (\<lambda>(j, name, port, deadline, extra).
    case ensureUpgradeJob C j s of (r, t) \<Rightarrow> r \<noteq> Panic \<and>
    (let p = ks_inst s; E = wx_env C;
         q = RGet JobKind (pp_namespace p) (pp_name p @ ''-'' @ name) None in
     case ke_api E (ks_hist s) q of
       Inr x \<Rightarrow> t = after E q s \<and> (case x of KJob job \<Rightarrow> r = Ok job | _ \<Rightarrow> r = Err DecodeError)
     | Inl e \<Rightarrow> if e \<noteq> NotFound then r = Err e \<and> t = after E q s
         else (\<exists>e. r = Err e) \<and> t = after E q s \<or>
           (\<exists>job. t = after E (RCreate (KJob job)) (after E q s) \<and>
              m_name (job_meta job) = pp_name p @ ''-'' @ name \<and> m_namespace (job_meta job) = pp_namespace p \<and>
              js_deadline (job_spec_of job) = Some deadline \<and>
              map (\<lambda>c. (ct_image c, ct_command c, ct_env c)) (ps_containers (pt_spec (js_template (job_spec_of job)))) =
                [(ke_upgrade_image E, [''/upgrade''],
                  [env_val ''DBHOST'' (pp_name p), env_val ''DBPORT'' port, env_val ''DBUSER'' ''postgres'',
                   env_from ''DBPASSWORD'' (SecretKeyRef (pp_name p) ''superuser-password''),
                   env_val ''DBNAME'' ''postgres'', env_val ''MODE'' name, env_val ''CLUSTER_NAME'' (pp_name p),
                   env_val ''CLUSTER_SIZE'' (show_nat (length (pp_volumes p)))] @ extra)])))
   [(preupgradeJob, ''preupgrade'', ''5432'', 300, []),
    (preupgradeSyncJob, ''preupgrade-sync'', ''55432'', 300, [env_val ''PAUSE'' ''true'']),
    (postupgradeJob, ''postuprgrade'', ''5432'', 3600, [])]"
proof -
  have port: "show_int 5432 = ''5432''" "show_int 55432 = ''55432''"
    by (simp_all add: show_int_def show_nat.simps digit_chars)
  have fields: "uj_mode preupgradeJob = ''preupgrade''" "uj_deadline preupgradeJob = 300"
    "uj_port preupgradeJob = 5432" "uj_mode preupgradeSyncJob = ''preupgrade-sync''"
    "uj_deadline preupgradeSyncJob = 300" "uj_port preupgradeSyncJob = 55432"
    "uj_mode postupgradeJob = ''postuprgrade''" "uj_deadline postupgradeJob = 3600"
    "uj_port postupgradeJob = 5432"
    by (simp_all add: preupgradeJob_def preupgradeSyncJob_def postupgradeJob_def upgrade_modes
        PostgresPort_def postgresqlMaintenancePort_def)
  note envs = upgrade_job_envs_def PatroniSuperuserUsername_def secret_Name_def
    SuperUserPasswordKey_def upgradeModeEnvVar_def port
  show ?thesis
    unfolding list.pred_inject(2) prod.case
    using preupgrade.ensure_desired [where C = C and s = s, unfolded fields envs]
      preupgrade_sync.ensure_desired [where C = C and s = s, unfolded fields envs]
      postupgrade.ensure_desired [where C = C and s = s, unfolded fields envs]
    by (intro conjI list.pred_inject(1))
qed

end
