(* ===== verification/Config_Props.thy ===== *)
theory Config_Props
  imports Client_Props Samples
begin

section \<open>Properties of the config maps\<close>

text \<open>
  How the operator passes values to itself and to Patroni through annotations of the
  \<open>config\<close> map, and how it reads the leader's index out of the \<open>sync\<close> map.
\<close>

subsection \<open>Reading the map\<close>

definition config_read :: "patroni \<Rightarrow> request" where
  "config_read p = RGet ConfigMapKind (pp_namespace p) (cmName p configCMName) None"

lemma getConfigCM_after:
  "getConfigCM C s = (case ke_api (wx_env C) (ks_hist s) (config_read (ks_inst s)) of
       Inl e \<Rightarrow> (Err e, after (wx_env C) (config_read (ks_inst s)) s)
     | Inr (KConfigMap cm) \<Rightarrow> (Ok cm, after (wx_env C) (config_read (ks_inst s)) s)
     | Inr _ \<Rightarrow> (Err DecodeError, after (wx_env C) (config_read (ks_inst s)) s))"
  by (simp add: getConfigCM_def kget_def bnd_run inst_run ask_after config_read_def ConfigMapT_def
      decode_as_def ret_run fail_run split: sum.splits kobj.splits)

lemma annotation_set:
  "set_annotation k v cm = Some cm' \<Longrightarrow>
   annotation cm' l = (if l = k then Some v else annotation cm l)"
  by (auto simp: set_annotation_def annotation_def split: option.splits)

lemma set_annotation_rest:
  "set_annotation k v cm = Some cm' \<Longrightarrow> m_annotations (cm_meta cm') \<noteq> None \<and>
   cm' = cm\<lparr>cm_meta := (cm_meta cm)\<lparr>m_annotations := m_annotations (cm_meta cm')\<rparr>\<rparr>"
  by (auto simp: set_annotation_def split: option.splits)

lemma set_annotation_None: "set_annotation k v cm = None \<longleftrightarrow> m_annotations (cm_meta cm) = None"
  by (simp add: set_annotation_def split: option.splits)

subsection \<open>Writing annotations\<close>

text \<open>The update a write should end in: the map that was read, with other annotations.\<close>

definition writes_annotations ::
  "kube_env \<Rightarrow> request \<Rightarrow> config_map \<Rightarrow> (string \<Rightarrow> string option) \<Rightarrow> kstate \<Rightarrow> kstate \<Rightarrow> bool" where
  "writes_annotations E q cm f s t \<longleftrightarrow> (\<exists>cm'.
     t = after E (RUpdate (KConfigMap cm')) (after E q s) \<and> annotation cm' = f \<and>
     cm' = cm\<lparr>cm_meta := (cm_meta cm)\<lparr>m_annotations := m_annotations (cm_meta cm')\<rparr>\<rparr>)"

lemma kupdate_cm_run:
  "bnd (kupdate E ConfigMapT cm) (\<lambda>_. ret ()) s = (r, t) \<Longrightarrow>
   r \<noteq> Panic \<and> t = after E (RUpdate (KConfigMap cm)) s"
  by (auto simp: kupdate_def bnd_run ask_after ConfigMapT_def decode_as_def ret_run fail_run
      split: sum.splits kobj.splits)

lemma SetDBId_stored:
  assumes cm: "ke_api (wx_env C) (ks_hist s) (config_read (ks_inst s)) = Inr (KConfigMap cm)"
    and ann: "m_annotations (cm_meta cm) \<noteq> None"
    and configs: "annotation cm configCMconfigAnnotation = Some configs"
    and configb: "resume_config (ke_f64 (wx_env C)) configs = Some configb"
    and run: "SetDBId C dbid s = (r, t)"
  shows "r \<noteq> Panic \<and> writes_annotations (wx_env C) (config_read (ks_inst s)) cm
      ((annotation cm)(configCMdbidAnnotation := Some dbid,
         configCMconfigAnnotation := Some configb)) s t"
proof -
  from ann obtain cm1 where cm1: "set_annotation configCMdbidAnnotation dbid cm = Some cm1"
    by (auto simp: set_annotation_def)
  have look: "annotation cm1 configCMconfigAnnotation = annotation cm configCMconfigAnnotation"
    using annotation_set [OF cm1] by (simp add: cm_keys)
  obtain cm2 where cm2: "set_annotation configCMconfigAnnotation configb cm1 = Some cm2"
    using set_annotation_rest [OF cm1] by (auto simp: set_annotation_def split: option.splits)
  let ?s = "after (wx_env C) (config_read (ks_inst s)) s"
  have "bnd (kupdate (wx_env C) ConfigMapT cm2) (\<lambda>_. ret ()) ?s = (r, t)"
    using cm cm1 cm2 look configs configb run
    by (simp add: SetDBId_def bnd_run getConfigCM_after ret_run)
  note kupdate_cm_run [OF this]
  moreover have "annotation cm2 = (annotation cm)(configCMdbidAnnotation := Some dbid,
      configCMconfigAnnotation := Some configb)"
    using annotation_set [OF cm1] annotation_set [OF cm2] by auto
  moreover have "cm2 = cm\<lparr>cm_meta := (cm_meta cm)\<lparr>m_annotations := m_annotations (cm_meta cm2)\<rparr>\<rparr>"
    using set_annotation_rest [OF cm1] set_annotation_rest [OF cm2]
    by (cases cm; cases "cm_meta cm"; cases cm1; cases cm2) auto
  ultimately show ?thesis
    unfolding writes_annotations_def by blast
qed

text \<open>
  C33. After the primary's data has been upgraded, \<open>SetDBId\<close> writes the new system identifier
  and resumes Patroni in one update: of the \<open>config\<close> map exactly two annotations change, the
  identifier and Patroni's configuration without its pause. If the configuration is missing or
  is no JSON object, nothing is written; a map without any annotation panics, since the source
  assigns into a nil map.
\<close>

theorem set_dbid_writes:
  "case (ke_api (wx_env C) (ks_hist s) (config_read (ks_inst s)), SetDBId C dbid s) of
     (Inr (KConfigMap cm), (r, t)) \<Rightarrow>
       (case annotation cm configCMconfigAnnotation of
          None \<Rightarrow> t = after (wx_env C) (config_read (ks_inst s)) s \<and>
            r = (if m_annotations (cm_meta cm) = None then Panic else Err ErrNoConfigAnnotation)
        | Some configs \<Rightarrow> (case resume_config (ke_f64 (wx_env C)) configs of
            None \<Rightarrow> t = after (wx_env C) (config_read (ks_inst s)) s \<and> r = Err JsonError
          | Some configb \<Rightarrow> r \<noteq> Panic \<and>
              writes_annotations (wx_env C) (config_read (ks_inst s)) cm
                ((annotation cm)(configCMdbidAnnotation := Some dbid,
                   configCMconfigAnnotation := Some configb)) s t))
   | (_, (r, t)) \<Rightarrow> t = after (wx_env C) (config_read (ks_inst s)) s \<and> (\<exists>e. r = Err e)"
proof -
  obtain r t where run: "SetDBId C dbid s = (r, t)" by fastforce
  show ?thesis
  proof (cases "\<exists>cm. ke_api (wx_env C) (ks_hist s) (config_read (ks_inst s)) = Inr (KConfigMap cm)")
    case False
    then show ?thesis
      by (auto simp: SetDBId_def bnd_run getConfigCM_after split: sum.splits kobj.splits)
  next
    case True
    then obtain cm where cm: "ke_api (wx_env C) (ks_hist s) (config_read (ks_inst s)) = Inr (KConfigMap cm)"
      by blast
    show ?thesis
    proof (cases "m_annotations (cm_meta cm)")
      case None
      then have "annotation cm k = None" for k by (simp add: annotation_def)
      with None cm show ?thesis
        by (simp add: SetDBId_def bnd_run getConfigCM_after set_annotation_def panic_run)
    next
      case (Some m)
      then obtain cm1 where cm1: "set_annotation configCMdbidAnnotation dbid cm = Some cm1"
        by (simp add: set_annotation_def)
      have look: "annotation cm1 configCMconfigAnnotation = annotation cm configCMconfigAnnotation"
        using annotation_set [OF cm1] by (simp add: cm_keys)
      show ?thesis
      proof (cases "annotation cm configCMconfigAnnotation")
        case None
        with cm cm1 look Some show ?thesis
          by (simp add: SetDBId_def bnd_run getConfigCM_after ret_run fail_run)
      next
        case configs: (Some configs)
        show ?thesis
        proof (cases "resume_config (ke_f64 (wx_env C)) configs")
          case None
          with cm cm1 look configs show ?thesis
            by (simp add: SetDBId_def bnd_run getConfigCM_after ret_run fail_run)
        next
          case configb: (Some configb)
          from SetDBId_stored [OF cm _ configs configb run] cm configs configb run Some
          show ?thesis by simp
        qed
      qed
    qed
  qed
qed

subsection \<open>Resuming Patroni\<close>

lemma all_some_Some: "all_some xs = Some ys \<longleftrightarrow> xs = map Some ys"
  by (induction xs arbitrary: ys) (auto split: option.splits)

lemma map_Some_origin: "map f xs = map Some ys \<Longrightarrow> y \<in> set ys \<Longrightarrow> \<exists>x \<in> set xs. f x = Some y"
  by (induction xs arbitrary: ys) auto

lemma set_put_key: "set (put_key k v m) \<subseteq> insert (k, v) (set m)"
  by (induction k v m rule: put_key.induct) auto

lemma set_key_map: "set (key_map kvs) \<subseteq> set kvs"
proof -
  have "set (foldl (\<lambda>m kv. put_key (fst kv) (snd kv) m) m kvs) \<subseteq> set m \<union> set kvs" for m
  proof (induction kvs arbitrary: m)
    case (Cons kv kvs)
    from Cons [of "put_key (fst kv) (snd kv) m"] set_put_key [of "fst kv" "snd kv" m]
    show ?case by auto
  qed simp
  from this [of "[]"] show ?thesis by (simp add: key_map_def)
qed

text \<open>What the code relies on when it prints what it read: a reprinted number is a number.\<close>

definition prints_numbers :: "(string \<Rightarrow> string option) \<Rightarrow> bool" where
  "prints_numbers f64 \<longleftrightarrow> (\<forall>l l'. f64 l = Some l' \<longrightarrow> scan_number l' = Some (l', []))"

lemma to_any_wf:
  assumes "prints_numbers f64"
  shows "to_any f64 j = Some j' \<Longrightarrow> json_utf8 j \<Longrightarrow> json_wf j' \<and> json_utf8 j'"
proof (induction j arbitrary: j')
  case (JNum lit)
  with assms show ?case by (auto simp: prints_numbers_def)
next
  case (JArr vs)
  then obtain ws where m: "map (to_any f64) vs = map Some ws" and j': "j' = JArr ws"
    by (auto simp: all_some_Some)
  have "json_wf w \<and> json_utf8 w" if "w \<in> set ws" for w
    using map_Some_origin [OF m that] JArr.IH JArr.prems(2) by (auto simp: list_all_iff)
  with j' show ?case by (simp add: list_all_iff)
next
  case (JObj ms)
  then obtain kvs where m: "map (\<lambda>kv. map_option (Pair (fst kv)) (to_any f64 (snd kv))) ms = map Some kvs"
    and j': "j' = JObj (key_map kvs)"
    by (auto simp: all_some_Some)
  have "valid_utf8 (fst kv) \<and> json_wf (snd kv) \<and> json_utf8 (snd kv)" if "kv \<in> set kvs" for kv
  proof -
    from map_Some_origin [OF m that] obtain mv
      where "mv \<in> set ms" "map_option (Pair (fst mv)) (to_any f64 (snd mv)) = Some kv" by blast
    with JObj.IH [of mv "snd mv"] JObj.prems(2) show ?thesis
      by (cases mv) (auto simp: Basic_BNFs.snds.simps list_all_iff)
  qed
  with set_key_map [of kvs] j' show ?case by (auto simp: list_all_iff)
qed auto

lemma map_del_subset: "set (map_del k m) \<subseteq> set m"
  by (induction m) auto

text \<open>
  C34. The configuration Patroni finds after the resume is the one it had without its \<open>pause\<close>
  key: what \<open>resume_config\<close> prints reads back as an object that maps \<open>pause\<close> to nothing and
  every other key to the value it had.
\<close>

theorem resume_config_unpauses:
  assumes "prints_numbers f64" and "unmarshal_any_map f64 configs = Some (Some m)"
  shows "\<exists>m'. resume_config f64 configs = Some (marshal (JObj m')) \<and>
    parse_json (marshal (JObj m')) = Some (JObj m') \<and>
    map_of m' = (map_of m)(''pause'' := None)"
proof -
  from assms(2) obtain j where "parse_json configs = Some j" "to_any f64 j = Some (JObj m)"
    by (auto simp: unmarshal_any_map_def split: option.splits json.splits)
  from to_any_wf [OF assms(1) this(2) parse_json_utf8 [OF this(1)]] map_del_subset [of "''pause''" m]
  have "json_wf (JObj (map_del ''pause'' m))" "json_utf8 (JObj (map_del ''pause'' m))"
    by (auto simp: list_all_iff)
  from parse_json_marshal [OF this] assms(2) show ?thesis
    by (auto simp: resume_config_def marshal_any_map_def configPauseKey_def)
qed

definition sample_config :: "(string \<times> json) list" where
  "sample_config = [(''pause'', JBool True), (''ttl'', JNum ''30'')]"

definition sample_f64 :: "string \<Rightarrow> string option" where
  "sample_f64 l = (if l = ''30'' then Some l else None)"

lemma sample_number: "scan_number ''30'' = Some (''30'', [])"
  by code_simp

lemma sample_config_read: "unmarshal_any_map sample_f64 (marshal (JObj sample_config)) = Some (Some sample_config)"
proof -
  have "parse_json (marshal (JObj sample_config)) = Some (JObj sample_config)"
    by (rule parse_json_marshal) (simp_all add: sample_config_def sample_number)
  then show ?thesis
    by (simp add: unmarshal_any_map_def sample_config_def sample_f64_def key_map_def)
qed

lemma resume_config_unpauses_witness:
  "\<exists>m'. resume_config sample_f64 (marshal (JObj sample_config)) = Some (marshal (JObj m')) \<and>
    parse_json (marshal (JObj m')) = Some (JObj m') \<and>
    map_of m' = [''ttl'' \<mapsto> JNum ''30'']"
proof -
  have "prints_numbers sample_f64"
    by (simp add: prints_numbers_def sample_f64_def sample_number)
  moreover have "(map_of sample_config)(''pause'' := None) = [''ttl'' \<mapsto> JNum ''30'']"
    by (auto simp: sample_config_def)
  ultimately show ?thesis
    using resume_config_unpauses [OF _ sample_config_read] by simp
qed

subsection \<open>Clearing and reading\<close>

text \<open>
  When an upgrade ends, exactly the two notes the operator had left for itself are
  removed: the one update keeps every other annotation, and the map's data, labels and owners.
  This works on a map without annotations too, and cannot panic.
\<close>

theorem clear_removes_notes:
  "case (ke_api (wx_env C) (ks_hist s) (config_read (ks_inst s)), ClearUpgradeAnnotations C s) of
     (Inr (KConfigMap cm), (r, t)) \<Rightarrow> r \<noteq> Panic \<and>
       writes_annotations (wx_env C) (config_read (ks_inst s)) cm
         ((annotation cm)(''primary-initdb-args'' := None, ''latest-checkpoint-location'' := None)) s t
   | (_, (r, t)) \<Rightarrow> t = after (wx_env C) (config_read (ks_inst s)) s \<and> (\<exists>e. r = Err e)"
proof -
  obtain r t where run: "ClearUpgradeAnnotations C s = (r, t)" by fastforce
  show ?thesis
  proof (cases "\<exists>cm. ke_api (wx_env C) (ks_hist s) (config_read (ks_inst s)) = Inr (KConfigMap cm)")
    case False
    then show ?thesis
      by (auto simp: ClearUpgradeAnnotations_def bnd_run getConfigCM_after split: sum.splits kobj.splits)
  next
    case True
    then obtain cm where cm: "ke_api (wx_env C) (ks_hist s) (config_read (ks_inst s)) = Inr (KConfigMap cm)"
      by blast
    let ?cm = "del_annotation configCMLatestCheckpointLocation (del_annotation configCMPrimaryInitdbArgs cm)"
    from run cm have "bnd (kupdate (wx_env C) ConfigMapT ?cm) (\<lambda>_. ret ())
        (after (wx_env C) (config_read (ks_inst s)) s) = (r, t)"
      by (simp add: ClearUpgradeAnnotations_def bnd_run getConfigCM_after Let_def)
    note upd = kupdate_cm_run [OF this]
    have "annotation ?cm = (annotation cm)(''primary-initdb-args'' := None, ''latest-checkpoint-location'' := None)"
      by (auto simp: annotation_def del_annotation_def cm_keys split: option.splits)
    moreover have "?cm = cm\<lparr>cm_meta := (cm_meta cm)\<lparr>m_annotations := m_annotations (cm_meta ?cm)\<rparr>\<rparr>"
      by (simp add: del_annotation_def)
    ultimately have "writes_annotations (wx_env C) (config_read (ks_inst s)) cm
        ((annotation cm)(''primary-initdb-args'' := None, ''latest-checkpoint-location'' := None)) s t"
      using upd unfolding writes_annotations_def by blast
    with upd cm run show ?thesis by simp
  qed
qed

text \<open>
  C35. The leader's index. A cluster of at most one volume is led by member 0, and nothing is
  asked. Otherwise the leader Patroni names, \<open>prefix-index\<close> with any prefix, dashes included,
  gives back that index; a missing name is \<open>ErrNoSyncLeader\<close>.
\<close>

theorem sync_leader_index:
  "(length (pp_volumes (ks_inst s)) \<le> 1 \<longrightarrow> GetSyncLeader C s = (Ok 0, s)) \<and>
   (length (pp_volumes (ks_inst s)) > 1 \<longrightarrow>
    (let q = RGet ConfigMapKind (pp_namespace (ks_inst s)) (pp_name (ks_inst s) @ ''-sync'') None in
     \<forall>cm. ke_api (wx_env C) (ks_hist s) q = Inr (KConfigMap cm) \<longrightarrow>
       (annotation cm ''leader'' = None \<longrightarrow> GetSyncLeader C s = (Err ErrNoSyncLeader, after (wx_env C) q s)) \<and>
       (\<forall>prefix i. i < 2 ^ 63 \<longrightarrow> annotation cm ''leader'' = Some (indexed prefix i) \<longrightarrow>
          GetSyncLeader C s = (Ok (int i), after (wx_env C) q s))))"
  by (simp add: GetSyncLeader_def bnd_run inst_run ret_run fail_run kget_def ask_after Let_def
      ConfigMapT_def decode_as_def cmName_def syncCMName_def syncCMLeaderAnnotation_def
      sscanf_show_nat)

lemma sync_leader_index_witness:
  "GetSyncLeader (sample_ctx (\<lambda>_ _. Inr (KConfigMap \<lparr>cm_meta = (new_meta ''db-sync'')
       \<lparr>m_annotations := Some [(''leader'', indexed ''my-db'' 1)]\<rparr>, cm_data = []\<rparr>)))
     (sample_state (sample 15 (sample_status StateReady 15 0 []))) =
   (Ok 1, after (sample_env (\<lambda>_ _. Inr (KConfigMap \<lparr>cm_meta = (new_meta ''db-sync'')
       \<lparr>m_annotations := Some [(''leader'', indexed ''my-db'' 1)]\<rparr>, cm_data = []\<rparr>)))
      (RGet ConfigMapKind ''ns'' ''db-sync'' None)
      (sample_state (sample 15 (sample_status StateReady 15 0 []))))"
  using sync_leader_index [of "sample_state (sample 15 (sample_status StateReady 15 0 []))"
      "sample_ctx (\<lambda>_ _. Inr (KConfigMap \<lparr>cm_meta = (new_meta ''db-sync'')
       \<lparr>m_annotations := Some [(''leader'', indexed ''my-db'' 1)]\<rparr>, cm_data = []\<rparr>))"]
  by (simp add: sample_defs annotation_def Let_def)

end
