(* ===== verification/Step_Props.thy ===== *)
theory Step_Props
  imports Job_Props Config_Props Upgrade
begin

section \<open>Properties of the upgrade steps\<close>

text \<open>
  What the handlers of an upgrade have asked, been told and written when they say they are done,
  and the notes that one step leaves in the config map for a later one.
\<close>

subsection \<open>What a run was told\<close>

text \<open>\<open>told s t q x\<close>: between \<open>s\<close> and \<open>t\<close> the server answered the request \<open>q\<close> with the object \<open>x\<close>.\<close>

definition told :: "kstate \<Rightarrow> kstate \<Rightarrow> request \<Rightarrow> kobj \<Rightarrow> bool" where
  "told s t q x \<longleftrightarrow> (\<exists>es. ks_hist t = ks_hist s @ es \<and> (q, Inr x) \<in> set es)"

abbreviation extends :: "kstate \<Rightarrow> kstate \<Rightarrow> bool" where
  "extends \<equiv> asks (\<lambda>_. True)"

lemma extends_after [intro]: "extends s (after E q s)"
  by (simp add: asks_def)

lemma extends_inst [intro]: "extends s t \<Longrightarrow> extends s (t\<lparr>ks_inst := p\<rparr>)"
  by (simp add: asks_def)

lemma told_after: "ke_api E (ks_hist s) q = Inr x \<Longrightarrow> told s (after E q s) q x"
  by (simp add: told_def)

lemma told_mono:
  assumes "told s' u q x" and "extends s s'" and "extends u t"
  shows "told s t q x"
proof -
  from assms obtain es es' es'' where "ks_hist s' = ks_hist s @ es" "ks_hist u = ks_hist s' @ es'"
    "ks_hist t = ks_hist u @ es''" "(q, Inr x) \<in> set es'"
    unfolding told_def asks_def by metis
  then show ?thesis unfolding told_def by simp
qed

lemma handler_extends: "handler_handle h C s = (r, t) \<Longrightarrow> extends s t"
  using asks_mono [OF handler_asks, of "\<lambda>_. True"] by (auto dest: keepsD)

lemma extends_ops:
  "ensureUpgradeJob C j s = (a, t) \<Longrightarrow> extends s t" "cleanupJob C job s = (b, t) \<Longrightarrow> extends s t"
  "ReconcileSts C qs s = (c, t) \<Longrightarrow> extends s t" "ReconcileService C ps s = (d, t) \<Longrightarrow> extends s t"
  "getInitdbArgsFromJob C job s = (e, t) \<Longrightarrow> extends s t" "SetPrimaryInitdbArgs C v s = (f, t) \<Longrightarrow> extends s t"
  "getResultFromPrimaryUpgradeJob C job s = (g, t) \<Longrightarrow> extends s t"
  "record_primary_result C res s = (h, t) \<Longrightarrow> extends s t"
  unfolding record_primary_result_def
  by (erule keepsD [rotated], intro eff_intro; simp)+

lemma ask_Ok: "ask E q s = (Ok x, t) \<longleftrightarrow> ke_api E (ks_hist s) q = Inr x \<and> t = after E q s"
  by (auto simp: ask_after split: sum.splits)

lemma decode_as_Ok: "decode_as f x s = (Ok y, t) \<longleftrightarrow> f x = Some y \<and> t = s"
  by (auto simp: decode_as_def ret_inv fail_inv split: option.splits)

lemma bytes_Some: "(case x of KBytes b \<Rightarrow> Some b | _ \<Rightarrow> None) = Some y \<longleftrightarrow> x = KBytes y"
  by (cases x) auto

subsection \<open>A job that is found or made\<close>

definition job_call :: "patroni \<Rightarrow> string \<Rightarrow> request \<Rightarrow> bool" where
  "job_call p n q \<longleftrightarrow> q = RGet JobKind (pp_namespace p) n None \<or>
     (\<exists>job. q = RCreate (KJob job) \<and> m_name (job_meta job) = n \<and> m_namespace (job_meta job) = pp_namespace p)"

lemma kget_job:
  "found (kget E JobT ns n) s = (r, t) \<Longrightarrow> t = after E (RGet JobKind ns n None) s \<and> r \<noteq> Panic \<and>
     (\<forall>job. r = Ok (Some job) \<longrightarrow> told s t (RGet JobKind ns n None) (KJob job))"
  by (auto simp: job.kget_after kube_sel Let_def unwrap_job told_def
      split: sum.splits if_splits option.splits kobj.splits)

lemma kcreate_told:
  "kcreate E JobT job s = (Ok job', t) \<Longrightarrow> told s t (RCreate (KJob job)) (KJob job')"
  by (auto simp: kcreate_def bnd_run ask_after decode_as_def unwrap_job kube_sel ret_run fail_run told_def
      split: sum.splits option.splits kobj.splits)

lemma ensure_told:
  assumes "upgradejob j extra" and run: "ensureUpgradeJob C j s = (Ok job, t)"
  shows "\<exists>q. job_call (ks_inst s) (upgradeJobname (ks_inst s) j) q \<and> told s t q (KJob job)"
proof -
  let ?p = "ks_inst s"
  let ?q = "RGet JobKind (pp_namespace ?p) (upgradeJobname ?p j) None"
  note trace = upgradejob.ensure_trace [OF assms, unfolded Let_def]
  show ?thesis
  proof (cases "ke_api (wx_env C) (ks_hist s) ?q")
    case (Inl e)
    with trace obtain m where m: "meta_ok ?p (new_meta (upgradeJobname ?p j)) m"
      "kcreate (wx_env C) JobT ((desired_job C ?p j extra)\<lparr>job_meta := m\<rparr>) (after (wx_env C) ?q s) = (Ok job, t)"
      by (auto split: if_splits)
    let ?job = "(desired_job C ?p j extra)\<lparr>job_meta := m\<rparr>"
    have "job_call ?p (upgradeJobname ?p j) (RCreate (KJob ?job))"
      using meta_okD [OF m(1)] by (simp add: job_call_def new_meta_def)
    moreover have "told s t (RCreate (KJob ?job)) (KJob job)"
      by (rule told_mono [OF kcreate_told [OF m(2)] extends_after calls.effect_refl])
    ultimately show ?thesis by blast
  next
    case (Inr x)
    with trace have "x = KJob job" "t = after (wx_env C) ?q s" by (auto split: kobj.splits)
    with Inr show ?thesis by (auto simp: job_call_def told_after)
  qed
qed

subsection \<open>How a job's step ends\<close>

definition settle :: "wctx \<Rightarrow> job \<Rightarrow> error \<Rightarrow> bool kop" where
  "settle C job e = bnd (cleanupJob C job) (\<lambda>_.
     if int32_pos (job_failed job) then fail e else ret (int32_pos (job_succeeded job)))"

lemma settle_run:
  "settle C job e s =
     (let v = (if int32_pos (job_failed job) then Err e else Ok (int32_pos (job_succeeded job)));
          q = RDelete (KJob job) Background
      in if job_finished job then
           (case ke_api (wx_env C) (ks_hist s) q of Inl e' \<Rightarrow> Err e' | Inr _ \<Rightarrow> v, after (wx_env C) q s)
         else (v, s))"
  by (simp add: settle_def cleanupJob_def kdelete_def bnd_run ask_after kube_sel ret_run fail_run Let_def
      split: sum.splits)

text \<open>What it takes for a job to let the upgrade go on.\<close>

definition job_done :: "wctx \<Rightarrow> job \<Rightarrow> kstate \<Rightarrow> kstate \<Rightarrow> bool" where
  "job_done C job s t \<longleftrightarrow> int32_pos (job_succeeded job) \<and> \<not> int32_pos (job_failed job) \<and>
     (if job_finished job then \<exists>x. told s t (RDelete (KJob job) Background) x else t = s)"

lemma settle_done: "settle C job e s = (Ok True, t) \<Longrightarrow> job_done C job s t"
  by (auto simp: settle_run job_done_def Let_def told_def split: if_splits sum.splits)

text \<open>The job of the step whose name ends in \<open>n\<close> was found or made in this run, and is done.\<close>

definition done_by :: "wctx \<Rightarrow> string \<Rightarrow> kstate \<Rightarrow> kstate \<Rightarrow> bool" where
  "done_by C n s t \<longleftrightarrow> (\<exists>job q u. job_call (ks_inst s) (pp_name (ks_inst s) @ n) q \<and>
     told s u q (KJob job) \<and> job_done C job u t)"

lemma found_step_done:
  fixes f :: "job \<Rightarrow> unit kop"
  assumes "bnd (found (kget (wx_env C) JobT (pp_namespace (ks_inst s)) (pp_name (ks_inst s) @ n)))
      (\<lambda>r. case r of None \<Rightarrow> bnd m (\<lambda>_. ret False)
         | Some job \<Rightarrow> bnd (f job) (\<lambda>_. settle C job e)) s = (Ok True, t)"
    and "\<And>job. keeps extends (f job)"
  shows "done_by C n s t"
proof -
  let ?q = "RGet JobKind (pp_namespace (ks_inst s)) (pp_name (ks_inst s) @ n) None"
  from assms(1) obtain job u v where get: "found (kget (wx_env C) JobT (pp_namespace (ks_inst s))
        (pp_name (ks_inst s) @ n)) s = (Ok (Some job), u)"
    and f: "f job u = (Ok (), v)" and st: "settle C job e v = (Ok True, t)"
    by (auto simp: op_inv)
  from kget_job [OF get] have "told s u ?q (KJob job)" by blast
  with keepsD [OF assms(2) f] have "told s v ?q (KJob job)"
    by (blast intro: told_mono calls.effect_refl)
  with settle_done [OF st] show ?thesis
    unfolding done_by_def job_call_def by blast
qed

lemma ensured_step_done:
  assumes "upgradejob j extra" and "bnd (ensureUpgradeJob C j) (\<lambda>job. settle C job e) v = (Ok True, t)"
    and "extends s v" and "ks_inst v = upd_status f (ks_inst s)" and "n = ''-'' @ uj_mode j"
  shows "done_by C n s t"
proof -
  from assms(2) obtain job u where ens: "ensureUpgradeJob C j v = (Ok job, u)"
    and st: "settle C job e u = (Ok True, t)" by (auto simp: op_inv)
  from ensure_told [OF assms(1) ens] assms(4,5) obtain q where
    "job_call (ks_inst s) (pp_name (ks_inst s) @ n) q" and told: "told v u q (KJob job)"
    by (auto simp: job_call_def upgradeJobname_def)
  moreover from told_mono [OF told assms(3) calls.effect_refl] have "told s u q (KJob job)" .
  ultimately show ?thesis using settle_done [OF st] unfolding done_by_def by blast
qed

lemma move_done:
  assumes "move_handle C s = (Ok True, t)"
  shows "done_by C ''-move'' s t"
proof (rule found_step_done)
  show "bnd (found (kget (wx_env C) JobT (pp_namespace (ks_inst s)) (pp_name (ks_inst s) @ ''-move'')))
      (\<lambda>r. case r of None \<Rightarrow> bnd (create_move_job C) (\<lambda>_. ret False)
         | Some job \<Rightarrow> bnd (when_op (int32_pos (job_succeeded job))
             (set_status (\<lambda>st. st\<lparr>st_version := st_upgrade_version st\<rparr>)))
             (\<lambda>_. settle C job ErrPrimaryUpgradeMoveJobFailed)) s = (Ok True, t)"
    using assms unfolding move_handle_def move_jobname_def settle_def by (simp add: bnd_run [of inst] inst_run)
qed (intro eff_intro)

lemma primary_done:
  assumes "primary_handle C s = (Ok True, t)"
  shows "done_by C ''-up'' s t"
proof (rule found_step_done)
  show "bnd (found (kget (wx_env C) JobT (pp_namespace (ks_inst s)) (pp_name (ks_inst s) @ ''-up'')))
      (\<lambda>r. case r of None \<Rightarrow> bnd (create_primary_job C) (\<lambda>_. ret False)
         | Some job \<Rightarrow> bnd (when_op (int32_pos (job_succeeded job))
             (bnd (getResultFromPrimaryUpgradeJob C job) (record_primary_result C)))
             (\<lambda>_. settle C job ErrPrimaryUpgradeJobFailed)) s = (Ok True, t)"
    using assms unfolding primary_handle_def primary_jobname_def settle_def by (simp add: bnd_run [of inst] inst_run)
qed (unfold record_primary_result_def, intro eff_intro; simp)

lemma sync_done:
  assumes "preupgradeSync_handle C s = (Ok True, t)" and "length (pp_volumes (ks_inst s)) \<noteq> 1"
  shows "done_by C ''-preupgrade-sync'' s t"
proof -
  from assms obtain a u b v where a: "ReconcileSts C [sts_withPostgresqlPort_Patch 55432, withPausedPatroni_Patch] s = (Ok a, u)"
    and b: "ReconcileService C [withPostgresqlPort_Patch 55432, withPatroniAPI_Patch] u = (Ok b, v)"
    and st: "bnd (ensureUpgradeJob C preupgradeSyncJob) (\<lambda>job. settle C job ErrPreupgradeSyncJobFailed) v = (Ok True, t)"
    by (auto simp: preupgradeSync_handle_def bnd_run [of inst] inst_run op_inv preupgradeSyncJob_def
        postgresqlMaintenancePort_def settle_def [symmetric])
  have "\<exists>n. ks_inst u = upd_status (\<lambda>st. st\<lparr>st_ready := n\<rparr>) (ks_inst s)"
    using ReconcileSts_trace [of C True s] a by (auto simp: Let_def dest: brought_to_inst)
  moreover have "ks_inst v = ks_inst u"
    using keepsD [OF ReconcileService_same b, of id] by (simp add: same_def)
  moreover have "extends s v"
    using extends_ops(3) [OF a] extends_ops(4) [OF b] by (rule calls.effect_trans)
  ultimately show ?thesis
    using ensured_step_done [OF preupgrade_sync.upgradejob_axioms st]
    by (auto simp: preupgradeSyncJob_def UpgradeMODEPreSync_def)
qed

lemma postupgrade_done:
  assumes "postupgrade_handle C s = (Ok True, t)"
  shows "done_by C ''-postuprgrade'' s t"
proof -
  from assms obtain a u b v where a: "ReconcileSts C [] s = (Ok a, u)"
    and b: "service_Reconcile C u = (Ok b, v)"
    and st: "bnd (ensureUpgradeJob C postupgradeJob) (\<lambda>job. settle C job ErrPostupgradeJobFailed) v = (Ok True, t)"
    by (auto simp: postupgrade_handle_def op_inv settle_def [symmetric])
  have "\<exists>n. ks_inst u = upd_status (\<lambda>st. st\<lparr>st_ready := n\<rparr>) (ks_inst s)"
    using ReconcileSts_inst [OF a] by blast
  moreover have "ks_inst v = ks_inst u"
    using keepsD [OF service_Reconcile_same b, of id] by (simp add: same_def)
  moreover have "extends s v"
    using extends_ops(3) [OF a] extends_ops(4) [OF b [unfolded service_Reconcile_def]]
    by (rule calls.effect_trans)
  ultimately show ?thesis
    using ensured_step_done [OF postupgrade.upgradejob_axioms st]
    by (auto simp: postupgradeJob_def UpgradeMODEPost_def)
qed

lemma told_extends: "told s t q x \<Longrightarrow> extends s t"
  by (auto simp: told_def asks_def list_all_iff)

lemma job_done_extends: "job_done C job s t \<Longrightarrow> extends s t"
  by (auto simp: job_done_def calls.effect_refl dest: told_extends split: if_splits)

subsection \<open>The gate of the upgrade\<close>

text \<open>The log of the first pod that the job's own selector finds in the job's namespace.\<close>

definition job_log :: "job \<Rightarrow> string \<Rightarrow> kstate \<Rightarrow> kstate \<Rightarrow> bool" where
  "job_log job bytes s t \<longleftrightarrow> (\<exists>pod pods.
     told s t (RListPods (m_namespace (job_meta job)) (js_selector (job_spec_of job))) (KPodList (pod # pods)) \<and>
     told s t (RReadLogs (pod_namespace pod) (pod_name pod) 1) (KBytes bytes))"

lemma pods_Some: "(case x of KPodList l \<Rightarrow> Some l | _ \<Rightarrow> None) = Some y \<longleftrightarrow> x = KPodList y"
  by (cases x) auto

lemma read_job_log_told:
  assumes "read_job_log C job msg s = (Ok buf, t)"
  shows "extends s t \<and> (\<exists>bytes. job_log job bytes s t \<and> buf = take 2048 bytes)"
proof -
  let ?logs = "\<lambda>pod :: pod. RReadLogs (pod_namespace pod) (pod_name pod) 1"
  let ?list = "RListPods (m_namespace (job_meta job)) (js_selector (job_spec_of job))"
  from assms obtain pods u where pods: "told s u ?list (KPodList pods)"
    and rest: "(case pods of [] \<Rightarrow> fail (ErrText msg) | pod # _ \<Rightarrow>
      bnd (ask (wx_env C) (?logs pod)) (\<lambda>x.
      bnd (decode_as (\<lambda>x. case x of KBytes b \<Rightarrow> Some b | _ \<Rightarrow> None) x) (\<lambda>logs.
      let buf = take 2048 logs in
      if buf = [] then fail (ErrText ''short read from pod logs'') else ret buf))) u = (Ok buf, t)"
    unfolding read_job_log_def list_pods_def bnd_Ok_inv ask_Ok decode_as_Ok pods_Some
    by (auto intro: told_after)
  from rest obtain pod ps bytes where p: "pods = pod # ps" "told u t (?logs pod) (KBytes bytes)"
    "buf = take 2048 bytes"
    by (cases pods)
      (auto simp: bnd_Ok_inv ask_Ok decode_as_Ok bytes_Some fail_inv ret_inv Let_def intro: told_after split: if_splits)
  note ext = told_extends [OF pods] told_extends [OF p(2)]
  have "job_log job bytes s t"
    using told_mono [OF pods calls.effect_refl ext(2)] told_mono [OF p(2) ext(1) calls.effect_refl] p(1)
    unfolding job_log_def by blast
  with p(3) calls.effect_trans [OF ext] show ?thesis by blast
qed

text \<open>
  The config map of the instance was read, and written back with one annotation set, everything
  else of it as it had been read.
\<close>

definition noted :: "patroni \<Rightarrow> string \<Rightarrow> string \<Rightarrow> kstate \<Rightarrow> kstate \<Rightarrow> bool" where
  "noted p k v s t \<longleftrightarrow> (\<exists>cm0 cm x. told s t (config_read p) (KConfigMap cm0) \<and>
     set_annotation k v cm0 = Some cm \<and> told s t (RUpdate (KConfigMap cm)) x)"

text \<open>The same with the identifier of the new database, and Patroni's configuration without its pause.\<close>

definition identified :: "kube_env \<Rightarrow> patroni \<Rightarrow> string \<Rightarrow> kstate \<Rightarrow> kstate \<Rightarrow> bool" where
  "identified E p v s t \<longleftrightarrow> (\<exists>cm0 cm1 cm configs configb x. told s t (config_read p) (KConfigMap cm0) \<and>
     annotation cm0 ''config'' = Some configs \<and> resume_config (ke_f64 E) configs = Some configb \<and>
     set_annotation ''initialize'' v cm0 = Some cm1 \<and> set_annotation ''config'' configb cm1 = Some cm \<and>
     told s t (RUpdate (KConfigMap cm)) x)"

lemma cm_write_told:
  assumes "getConfigCM C s = (Ok cm0, u)" and "bnd (kupdate (wx_env C) ConfigMapT cm) (\<lambda>_. ret ()) u = (Ok (), t)"
  shows "extends s t \<and> told s t (config_read (ks_inst s)) (KConfigMap cm0) \<and> (\<exists>x. told s t (RUpdate (KConfigMap cm)) x) \<and>
    ks_inst t = ks_inst s"
proof -
  from assms(1) have read: "told s u (config_read (ks_inst s)) (KConfigMap cm0)" "ks_inst u = ks_inst s"
    by (auto simp: getConfigCM_after intro: told_after split: sum.splits kobj.splits)
  from assms(2) obtain x where x: "told u t (RUpdate (KConfigMap cm)) x" "ks_inst t = ks_inst u"
    by (auto simp: kupdate_def bnd_Ok_inv ret_inv ask_Ok decode_as_Ok kube_sel dest!: told_after)
  note ext = told_extends [OF read(1)] told_extends [OF x(1)]
  from told_mono [OF read(1) calls.effect_refl ext(2)] told_mono [OF x(1) ext(1) calls.effect_refl]
    calls.effect_trans [OF ext] read(2) x(2) show ?thesis by auto
qed

lemma cm_writers_told:
  "SetPrimaryInitdbArgs C v s = (Ok (), t) \<Longrightarrow>
     extends s t \<and> ks_inst t = ks_inst s \<and> noted (ks_inst s) ''primary-initdb-args'' v s t"
  "SetLatestCheckpointLocation C v s = (Ok (), t) \<Longrightarrow>
     extends s t \<and> ks_inst t = ks_inst s \<and> noted (ks_inst s) ''latest-checkpoint-location'' v s t"
  "SetDBId C v s = (Ok (), t) \<Longrightarrow>
     extends s t \<and> ks_inst t = ks_inst s \<and> identified (wx_env C) (ks_inst s) v s t"
proof -
  note inv = bnd_Ok_inv [of "getConfigCM C"] bnd_Ok_inv [of "of_option _"] of_option_inv case_option_inv fail_inv
  show "extends s t \<and> ks_inst t = ks_inst s \<and> noted (ks_inst s) ''primary-initdb-args'' v s t"
    if run: "SetPrimaryInitdbArgs C v s = (Ok (), t)"
  proof -
    from run obtain cm0 u cm where cm: "getConfigCM C s = (Ok cm0, u)" "set_annotation configCMPrimaryInitdbArgs v cm0 = Some cm"
      "bnd (kupdate (wx_env C) ConfigMapT cm) (\<lambda>_. ret ()) u = (Ok (), t)"
      by (auto simp: SetPrimaryInitdbArgs_def inv)
    from cm_write_told [OF cm(1,3)] cm(2) show ?thesis unfolding noted_def cm_keys by blast
  qed
  show "extends s t \<and> ks_inst t = ks_inst s \<and> noted (ks_inst s) ''latest-checkpoint-location'' v s t"
    if run: "SetLatestCheckpointLocation C v s = (Ok (), t)"
  proof -
    from run obtain cm0 u cm where cm: "getConfigCM C s = (Ok cm0, u)" "set_annotation configCMLatestCheckpointLocation v cm0 = Some cm"
      "bnd (kupdate (wx_env C) ConfigMapT cm) (\<lambda>_. ret ()) u = (Ok (), t)"
      by (auto simp: SetLatestCheckpointLocation_def inv)
    from cm_write_told [OF cm(1,3)] cm(2) show ?thesis unfolding noted_def cm_keys by blast
  qed
  show "extends s t \<and> ks_inst t = ks_inst s \<and> identified (wx_env C) (ks_inst s) v s t"
    if run: "SetDBId C v s = (Ok (), t)"
  proof -
    from run obtain cm0 u cm1 configs configb cm where cm: "getConfigCM C s = (Ok cm0, u)"
      "set_annotation configCMdbidAnnotation v cm0 = Some cm1" "annotation cm1 configCMconfigAnnotation = Some configs"
      "resume_config (ke_f64 (wx_env C)) configs = Some configb" "set_annotation configCMconfigAnnotation configb cm1 = Some cm"
      "bnd (kupdate (wx_env C) ConfigMapT cm) (\<lambda>_. ret ()) u = (Ok (), t)"
      by (auto simp: SetDBId_def inv)
    then have "annotation cm0 configCMconfigAnnotation = Some configs"
      using annotation_set [OF cm(2)] by (simp add: cm_keys)
    with cm_write_told [OF cm(1,6)] cm show ?thesis unfolding identified_def cm_keys by blast
  qed
qed

text \<open>
  A job of the step was found or made, its log was read, what follows from the log was done
  before the job was looked at again, and the job is done.
\<close>

definition job_reported :: "wctx \<Rightarrow> string \<Rightarrow> (string \<Rightarrow> kstate \<Rightarrow> kstate \<Rightarrow> bool) \<Rightarrow> kstate \<Rightarrow> kstate \<Rightarrow> bool" where
  "job_reported C n P s t \<longleftrightarrow> (\<exists>q job bytes u v w. job_call (ks_inst s) (pp_name (ks_inst s) @ n) q \<and>
     told s u q (KJob job) \<and> job_log job bytes u v \<and> P (take 2048 bytes) v w \<and> job_done C job w t)"

lemma preupgrade_done:
  assumes "preupgrade_handle C s = (Ok True, t)"
  shows "done_by C ''-preupgrade'' s t" and "job_reported C ''-preupgrade'' (\<lambda>log v w. \<exists>cfg.
    unmarshal_config log = Some cfg \<and> cfg_MaxPreparedTransactions cfg = 0 \<and>
    noted (ks_inst s) ''primary-initdb-args'' (parseConfigToInitdbArgs cfg) v w) s t"
proof -
  from assms obtain job u cfg v w where ens: "ensureUpgradeJob C preupgradeJob s = (Ok job, u)"
    and cfg: "getInitdbArgsFromJob C job u = (Ok cfg, v)" "cfg_MaxPreparedTransactions cfg = 0"
    and set: "SetPrimaryInitdbArgs C (parseConfigToInitdbArgs cfg) v = (Ok (), w)"
    and st: "settle C job ErrPreupgradeJobFailed w = (Ok True, t)"
    by (auto simp: preupgrade_handle_def settle_def op_inv split: if_splits option.splits)
  from cfg(1) obtain buf where buf: "read_job_log C job ''no pod found for preprocess job'' u = (Ok buf, v)"
    "unmarshal_config buf = Some cfg"
    by (auto simp: getInitdbArgsFromJob_def op_inv split: option.splits)
  from read_job_log_told [OF buf(1)] obtain bytes where log: "job_log job bytes u v" "buf = take 2048 bytes" "extends u v"
    by blast
  from ensure_told [OF preupgrade.upgradejob_axioms ens] obtain q where
    q: "job_call (ks_inst s) (pp_name (ks_inst s) @ ''-preupgrade'') q" "told s u q (KJob job)"
    by (auto simp: upgradeJobname_def preupgradeJob_def UpgradeMODEPre_def)
  note writes = cm_writers_told(1) [OF set] and fin = settle_done [OF st]
  have "extends u w" using log(3) writes by (blast intro: calls.effect_trans)
  with q told_mono [OF q(2) calls.effect_refl] fin show "done_by C ''-preupgrade'' s t"
    unfolding done_by_def by blast
  have "ks_inst v = ks_inst s"
    using keepsD [OF ensureUpgradeJob_same ens, of id] keepsD [OF job_results_same(1) cfg(1), of id]
    by (simp add: same_def)
  with writes have "noted (ks_inst s) ''primary-initdb-args'' (parseConfigToInitdbArgs cfg) v w" by simp
  with q log(1) buf(2) [unfolded log(2)] cfg(2) fin show "job_reported C ''-preupgrade'' (\<lambda>log v w. \<exists>cfg.
    unmarshal_config log = Some cfg \<and> cfg_MaxPreparedTransactions cfg = 0 \<and>
    noted (ks_inst s) ''primary-initdb-args'' (parseConfigToInitdbArgs cfg) v w) s t"
    unfolding job_reported_def by blast
qed

subsection \<open>The secondaries\<close>

lemma kdelete_told:
  "kdelete E T x pol s = (Ok (), t) \<Longrightarrow> \<exists>y. told s t (RDelete (kt_wrap T x) pol) y"
  by (auto simp: kdelete_def bnd_Ok_inv ask_Ok ret_inv dest!: told_after)

text \<open>The set that serves the data: found under its name, or made under it.\<close>

definition streamer_call :: "patroni \<Rightarrow> request \<Rightarrow> bool" where
  "streamer_call p q \<longleftrightarrow> q = RGet StatefulSetKind (pp_namespace p) (pp_name p @ ''-pstream'') None \<or>
     (\<exists>sts. q = RCreate (KStatefulSet sts) \<and> m_name (sts_meta sts) = pp_name p @ ''-pstream'' \<and>
        m_namespace (sts_meta sts) = pp_namespace p)"

definition streamer_set :: "wctx \<Rightarrow> int \<Rightarrow> patroni \<Rightarrow> statefulset kop" where
  "streamer_set C leader p = bnd (found (kget (wx_env C) StatefulSetT (pp_namespace p) (pstream_name p)))
     (\<lambda>r. case r of
        Some sts \<Rightarrow> ret sts
      | None \<Rightarrow>
          bnd (of_option (go_index (pp_volumes p) leader)) (\<lambda>vol.
          bnd (set_meta_of C StatefulSetT (pstream_sts C p (vs_claim vol))) (\<lambda>sts.
          kcreate (wx_env C) StatefulSetT sts)))"

definition streamer_service :: "wctx \<Rightarrow> patroni \<Rightarrow> statefulset \<Rightarrow> statefulset kop" where
  "streamer_service C p sts = bnd (found (kget (wx_env C) ServiceT (pp_namespace p) (pstream_name p)))
     (\<lambda>r. case r of
        Some _ \<Rightarrow> ret sts
      | None \<Rightarrow>
          bnd (of_sum (ke_set_owner (wx_env C) (KStatefulSet sts) (svc_meta (pstream_service p sts)))) (\<lambda>os.
          bnd (kcreate (wx_env C) ServiceT ((pstream_service p sts)
            \<lparr>svc_meta := (svc_meta (pstream_service p sts))\<lparr>m_owners := os\<rparr>\<rparr>)) (\<lambda>_. ret sts)))"

lemma streamer_halves:
  "upgradeSecondariesEnsurestreamer C leader = bnd inst (\<lambda>p. bnd (streamer_set C leader p) (streamer_service C p))"
  unfolding upgradeSecondariesEnsurestreamer_def streamer_set_def streamer_service_def [abs_def] Let_def bnd_assoc
  by (rule refl)

lemma unwrap_set: "kt_unwrap StatefulSetT x = Some sts \<longleftrightarrow> x = KStatefulSet sts"
  by (cases x) (simp_all add: StatefulSetT_def)

lemma streamer_set_told:
  assumes "streamer_set C leader (ks_inst s) s = (Ok sts, t)"
  shows "\<exists>q. streamer_call (ks_inst s) q \<and> told s t q (KStatefulSet sts)"
proof -
  let ?p = "ks_inst s" and ?E = "wx_env C"
  let ?q = "RGet StatefulSetKind (pp_namespace ?p) (pstream_name ?p) None"
  from assms obtain r u where get: "found (kget ?E StatefulSetT (pp_namespace ?p) (pstream_name ?p)) s = (Ok r, u)"
    and rest: "(case r of Some sts \<Rightarrow> ret sts | None \<Rightarrow>
       bnd (of_option (go_index (pp_volumes ?p) leader)) (\<lambda>vol.
       bnd (set_meta_of C StatefulSetT (pstream_sts C ?p (vs_claim vol))) (kcreate ?E StatefulSetT))) u = (Ok sts, t)"
    unfolding streamer_set_def bnd_Ok_inv by blast
  from get have u: "u = after ?E ?q s" "r = Some sts \<Longrightarrow> told s u ?q (KStatefulSet sts)"
    by (auto simp: sts.kget_after kube_sel Let_def unwrap_set intro!: told_after split: sum.splits if_splits option.splits)
  show ?thesis
  proof (cases r)
    case None
    with rest obtain vol :: volume_status and x v where x: "set_meta_of C StatefulSetT (pstream_sts C ?p (vs_claim vol)) u = (Ok x, v)"
      and create: "kcreate ?E StatefulSetT x v = (Ok sts, t)"
      by (simp add: bnd_Ok_inv of_option_inv) blast
    from set_meta_of_cases [OF x] u(1) have v: "v = u" "m_name (sts_meta x) = pp_name ?p @ ''-pstream''"
      "m_namespace (sts_meta x) = pp_namespace ?p"
      by (auto simp: kube_sel pstream_sts_def pstream_name_def new_statefulset_def new_meta_def meta_okD)
    from create have "told v t (RCreate (KStatefulSet x)) (KStatefulSet sts)"
      by (auto simp: kcreate_def bnd_Ok_inv ask_Ok decode_as_Ok unwrap_set kube_sel intro: told_after)
    then have "told s t (RCreate (KStatefulSet x)) (KStatefulSet sts)"
      by (rule told_mono) (simp_all add: v u(1) extends_after calls.effect_refl)
    with v show ?thesis unfolding streamer_call_def by blast
  next
    case (Some y)
    with rest u show ?thesis by (auto simp: ret_inv streamer_call_def pstream_name_def)
  qed
qed

lemma streamer_told:
  assumes "upgradeSecondariesEnsurestreamer C leader s = (Ok sts, t)"
  shows "\<exists>q. streamer_call (ks_inst s) q \<and> told s t q (KStatefulSet sts)"
proof -
  from assms obtain x u where u: "streamer_set C leader (ks_inst s) s = (Ok x, u)"
    and t: "streamer_service C (ks_inst s) x u = (Ok sts, t)"
    by (auto simp: streamer_halves bnd_Ok_inv inst_inv)
  from t have "sts = x" by (auto simp: streamer_service_def bnd_Ok_inv ret_inv case_option_inv)
  moreover have "keeps extends (streamer_service C (ks_inst s) x)"
    unfolding streamer_service_def by (intro eff_intro) simp_all
  from keepsD [OF this t] have "extends u t" .
  moreover from streamer_set_told [OF u] obtain q where q: "streamer_call (ks_inst s) q" "told s u q (KStatefulSet x)" by blast
  ultimately show ?thesis using told_mono [OF q(2) calls.effect_refl, of t] by blast
qed

lemma ensure_secondary_told:
  assumes "ensure_secondary_job C sts loc newid (i, vol) s = (Ok job, t)"
  shows "\<exists>q. job_call (ks_inst s) (secondary_jobname (ks_inst s) i) q \<and> told s t q (KJob job)"
proof -
  let ?p = "ks_inst s"
  let ?n = "secondary_jobname ?p i"
  from assms obtain r u where get: "found (kget (wx_env C) JobT (pp_namespace ?p) ?n) s = (Ok r, u)"
    and rest: "(case r of Some job \<Rightarrow> ret job | None \<Rightarrow>
      bnd (set_meta_of C JobT (new_job ?n (data_job_spec ?p None
        (data_pod_spec C ?p ''secondary-upgrade'' (ke_secondary_upgrade (wx_env C))
          (secondary_envs ?p (m_name (sts_meta sts)) loc newid) (vs_claim vol))))) (kcreate (wx_env C) JobT)) u = (Ok job, t)"
    unfolding ensure_secondary_job_def Let_def prod.case bnd_Ok_inv inst_inv by blast
  from kget_job [OF get] have u: "u = after (wx_env C) (RGet JobKind (pp_namespace ?p) ?n None) s"
    "\<And>job. r = Some job \<Longrightarrow> told s u (RGet JobKind (pp_namespace ?p) ?n None) (KJob job)" by blast+
  show ?thesis
  proof (cases r)
    case None
    with rest obtain x v where x: "set_meta_of C JobT (new_job ?n (data_job_spec ?p None
        (data_pod_spec C ?p ''secondary-upgrade'' (ke_secondary_upgrade (wx_env C))
          (secondary_envs ?p (m_name (sts_meta sts)) loc newid) (vs_claim vol)))) u = (Ok x, v)"
      and create: "kcreate (wx_env C) JobT x v = (Ok job, t)" by (auto simp: bnd_Ok_inv)
    from set_meta_of_cases [OF x] u(1) have "v = u" "m_name (job_meta x) = ?n" "m_namespace (job_meta x) = pp_namespace ?p"
      by (auto simp: kube_sel new_job_def new_meta_def meta_okD)
    moreover from told_mono [OF kcreate_told [OF create] _ calls.effect_refl, of s] u(1) \<open>v = u\<close>
    have "told s t (RCreate (KJob x)) (KJob job)" by auto
    ultimately show ?thesis unfolding job_call_def by blast
  next
    case (Some job')
    with rest u show ?thesis by (auto simp: ret_inv job_call_def)
  qed
qed

lemma secondary_ops:
  "ensure_secondary_job C sts loc newid iv s = (r, t) \<Longrightarrow> extends s t \<and> ks_inst t = ks_inst s"
  "upgradeSecondariesEnsurestreamer C leader s = (r1, t) \<Longrightarrow> extends s t \<and> ks_inst t = ks_inst s"
  "GetSyncLeader C s = (r2, t) \<Longrightarrow> extends s t \<and> ks_inst t = ks_inst s"
  "GetSecondaryStreamArgs C s = (r3, t) \<Longrightarrow> extends s t \<and> ks_inst t = ks_inst s"
  using keepsD [OF asks_mono [OF create_jobs_asks(3), of "\<lambda>_. True"]] keepsD [OF create_jobs_same(3) [where f = id]]
    keepsD [OF asks_mono [OF secondaries_asks(1), of "\<lambda>_. True"]] keepsD [OF secondaries_same(1) [where f = id]]
    keepsD [OF cm_readers_asks(4) [of "\<lambda>_. True"]] keepsD [OF cm_readers_same(4) [where f = id]]
    keepsD [OF cm_readers_asks(3) [of "\<lambda>_. True"]] keepsD [OF cm_readers_same(3) [where f = id]]
  by (auto simp: same_def)

lemma seclients_loop:
  assumes "for_acc ivs acc (\<lambda>iv jobs. if int (fst iv) = leader then ret jobs
      else bnd (ensure_secondary_job C sts loc newid iv) (\<lambda>job. ret (jobs @ [job]))) s = (Ok jobs, t)"
  shows "extends s t \<and> ks_inst t = ks_inst s \<and> (\<exists>new. jobs = acc @ new \<and>
    list_all2 (\<lambda>i job. \<exists>q. job_call (ks_inst s) (secondary_jobname (ks_inst s) i) q \<and> told s t q (KJob job))
      (filter (\<lambda>i. int i \<noteq> leader) (map fst ivs)) new)"
  using assms
proof (induction ivs arbitrary: acc s)
  case Nil
  then show ?case by (auto simp: ret_inv calls.effect_refl)
next
  case (Cons iv ivs)
  let ?P = "\<lambda>s i job. \<exists>q. job_call (ks_inst s) (secondary_jobname (ks_inst s) i) q \<and> told s t q (KJob job)"
  show ?case
  proof (cases "int (fst iv) = leader")
    case True
    with Cons.prems Cons.IH [of acc s] show ?thesis by simp
  next
    case False
    with Cons.prems obtain job u where job: "ensure_secondary_job C sts loc newid iv s = (Ok job, u)"
      and rest: "for_acc ivs (acc @ [job]) (\<lambda>iv jobs. if int (fst iv) = leader then ret jobs
        else bnd (ensure_secondary_job C sts loc newid iv) (\<lambda>job. ret (jobs @ [job]))) u = (Ok jobs, t)"
      by (auto simp: bnd_Ok_inv ret_inv)
    from secondary_ops(1) [OF job] have u: "extends s u" "ks_inst u = ks_inst s" by auto
    from Cons.IH [OF rest] obtain new where IH: "extends u t" "ks_inst t = ks_inst u" "jobs = (acc @ [job]) @ new"
      "list_all2 (?P u) (filter (\<lambda>i. int i \<noteq> leader) (map fst ivs)) new" by blast
    from job have "ensure_secondary_job C sts loc newid (fst iv, snd iv) s = (Ok job, u)" by simp
    from ensure_secondary_told [OF this] IH(1) have "?P s (fst iv) job"
      by (blast intro: told_mono calls.effect_refl)
    moreover have "list_all2 (?P s) (filter (\<lambda>i. int i \<noteq> leader) (map fst ivs)) new"
      using IH(4) u by (elim list_all2_mono) (auto intro: told_mono calls.effect_refl)
    moreover have "extends s t" using u(1) IH(1) by (rule calls.effect_trans)
    ultimately show ?thesis using False u(2) IH(2,3) by simp
  qed
qed

lemma count_loop:
  "for_acc jobs (a, b) (count_secondary C) s = (Ok (n, f), t) \<Longrightarrow> extends s t \<and> b \<le> f \<and> n \<le> a + length jobs \<and>
   (n = a + length jobs \<longrightarrow> list_all (\<lambda>job. int32_pos (job_succeeded job)) jobs)"
proof (induction jobs arbitrary: a b s)
  case Nil
  then show ?case by (auto simp: ret_inv calls.effect_refl)
next
  case (Cons job jobs)
  then obtain a' b' u where step: "count_secondary C job (a, b) s = (Ok (a', b'), u)"
    and rest: "for_acc jobs (a', b') (count_secondary C) u = (Ok (n, f), t)"
    by (auto simp: bnd_Ok_inv)
  have "extends s u" using keepsD [OF asks_mono [OF create_jobs_asks(4), of "\<lambda>_. True"] step] by simp
  moreover from step have "b \<le> b'" "a' \<le> a + 1" "a' = a + 1 \<Longrightarrow> int32_pos (job_succeeded job)"
    by (auto simp: count_secondary_def bnd_Ok_inv ret_inv split: if_splits)
  ultimately show ?case using Cons.IH [OF rest] by (auto intro: calls.effect_trans)
qed

lemma delete_loop:
  "for_each jobs (\<lambda>job. kdelete (wx_env C) JobT job Background) s = (Ok (), t) \<Longrightarrow> extends s t \<and>
   list_all (\<lambda>job. \<exists>y. told s t (RDelete (KJob job) Background) y) jobs"
proof (induction jobs arbitrary: s)
  case Nil
  then show ?case by (auto simp: ret_inv calls.effect_refl)
next
  case (Cons job jobs)
  then obtain u where u: "kdelete (wx_env C) JobT job Background s = (Ok (), u)"
    and rest: "for_each jobs (\<lambda>job. kdelete (wx_env C) JobT job Background) u = (Ok (), t)"
    by (auto simp: bnd_Ok_inv)
  from kdelete_told [OF u] obtain y where y: "told s u (RDelete (KJob job) Background) y" by (auto simp: kube_sel)
  have u: "extends s u" using y by (rule told_extends)
  have later: "told s t q z" if "told u t q z" for q z
    by (rule told_mono [OF that u calls.effect_refl])
  from Cons.IH [OF rest] have t: "extends u t"
    and IH: "list_all (\<lambda>job. \<exists>y. told u t (RDelete (KJob job) Background) y) jobs" by blast+
  from told_mono [OF y calls.effect_refl t] have "told s t (RDelete (KJob job) Background) y" .
  moreover from IH have "list_all (\<lambda>job. \<exists>y. told s t (RDelete (KJob job) Background) y) jobs"
    by (rule list.pred_mono_strong) (blast intro: later)
  ultimately show ?case using calls.effect_trans [OF u t] by auto
qed

lemma secondary_done_jobs:
  assumes "secondary_handle C s = (Ok True, t)" and "length (pp_volumes (ks_inst s)) \<noteq> 1"
  shows "\<exists>leader u. GetSyncLeader C s = (Ok leader, u) \<and>
    (\<exists>jobs. list_all2 (\<lambda>i job. int32_pos (job_succeeded job) \<and>
         (\<exists>q. job_call (ks_inst s) (indexed (pp_name (ks_inst s) @ ''-sup'') i) q \<and> told s t q (KJob job)) \<and>
         (\<exists>y. told s t (RDelete (KJob job) Background) y))
       (filter (\<lambda>i. int i \<noteq> leader) [0..<length (pp_volumes (ks_inst s))]) jobs) \<and>
    (\<exists>sts q y. streamer_call (ks_inst s) q \<and> told s t q (KStatefulSet sts) \<and>
      told s t (RDelete (KStatefulSet sts) Background) y)"
proof -
  let ?p = "ks_inst s"
  from assms obtain leader u1 sts u2 jobs u3 n f u4 u5 where
    lead: "GetSyncLeader C s = (Ok leader, u1)"
    and str: "upgradeSecondariesEnsurestreamer C leader u1 = (Ok sts, u2)"
    and cl: "upgradeSecondariesEnsureseclients C leader sts u2 = (Ok jobs, u3)"
    and cnt: "for_acc jobs (0, 0) (count_secondary C) u3 = (Ok (n, f), u4)" and nf: "f = 0" "n = length jobs"
    and del: "kdelete (wx_env C) StatefulSetT sts Background u4 = (Ok (), u5)"
    and dels: "for_each jobs (\<lambda>job. kdelete (wx_env C) JobT job Background) u5 = (Ok (), t)"
    by (auto simp: secondary_handle_def bnd_Ok_inv inst_inv ret_inv fail_inv if_op_inv case_prod_inv)
  from cl obtain loc newid u2' where args: "GetSecondaryStreamArgs C u2 = (Ok (loc, newid), u2')"
    and loop: "for_acc (enumerate 0 (pp_volumes (ks_inst u2'))) [] (\<lambda>iv jobs. if int (fst iv) = leader then ret jobs
      else bnd (ensure_secondary_job C sts loc newid iv) (\<lambda>job. ret (jobs @ [job]))) u2' = (Ok jobs, u3)"
    by (auto simp: upgradeSecondariesEnsureseclients_def bnd_Ok_inv inst_inv)
  from secondary_ops(3) [OF lead] secondary_ops(2) [OF str] secondary_ops(4) [OF args]
  have pre: "extends s u2'" "ks_inst u2' = ?p" by (auto intro: calls.effect_trans)
  from seclients_loop [OF loop] pre(2) have u3: "extends u2' u3" and
    jobs: "list_all2 (\<lambda>i job. \<exists>q. job_call ?p (secondary_jobname ?p i) q \<and> told u2' u3 q (KJob job))
      (filter (\<lambda>i. int i \<noteq> leader) [0..<length (pp_volumes ?p)]) jobs" by auto
  from count_loop [OF cnt] nf have u4: "extends u3 u4" and ok: "list_all (\<lambda>job. int32_pos (job_succeeded job)) jobs"
    by auto
  from kdelete_told [OF del] obtain y where y: "told u4 u5 (RDelete (KStatefulSet sts) Background) y"
    by (auto simp: kube_sel)
  from delete_loop [OF dels] have t: "extends u5 t"
    and gone: "list_all (\<lambda>job. \<exists>y. told u5 t (RDelete (KJob job) Background) y) jobs" by blast+
  note trans = calls.effect_trans [of "\<lambda>_. True"]
  have ext: "extends u3 t" "extends s u4" "extends s u5"
    using trans [OF u4 trans [OF told_extends [OF y] t]] trans [OF pre(1) trans [OF u3 u4]]
      trans [OF trans [OF pre(1) trans [OF u3 u4]] told_extends [OF y]] by simp_all
  have a: "told s t q x" if "told u2' u3 q x" for q x by (rule told_mono [OF that pre(1) ext(1)])
  have b: "told s t q x" if "told u5 t q x" for q x by (rule told_mono [OF that ext(3) calls.effect_refl])
  from streamer_told [OF str] secondary_ops(3) [OF lead] obtain q where
    q: "streamer_call ?p q" "told u1 u2 q (KStatefulSet sts)" by auto
  have "extends u2 t"
    using trans [OF conjunct1 [OF secondary_ops(4) [OF args]] trans [OF u3 ext(1)]] by simp
  with q(2) secondary_ops(3) [OF lead] have "told s t q (KStatefulSet sts)" by (blast intro: told_mono)
  moreover have "list_all2 (\<lambda>i job. int32_pos (job_succeeded job) \<and>
      (\<exists>q. job_call ?p (secondary_jobname ?p i) q \<and> told s t q (KJob job)) \<and>
      (\<exists>y. told s t (RDelete (KJob job) Background) y)) (filter (\<lambda>i. int i \<noteq> leader) [0..<length (pp_volumes ?p)]) jobs"
    using jobs ok gone by (auto simp: list_all2_conv_all_nth list_all_length) (meson a b)+
  moreover have "told s t (RDelete (KStatefulSet sts) Background) y"
    by (rule told_mono [OF y ext(2) t])
  ultimately show ?thesis using lead q(1) unfolding secondary_jobname_def by blast
qed

text \<open>
  C14. The upgrade of the secondaries is done only when each of them is. On a cluster of one
  there is nothing to do and nothing is asked. On a larger one, if the step reports that it is
  done, then for every claim but the leader's, in order, there is a job under the name of that
  claim's index which the server reported as succeeded in this very run, and each of these jobs
  has been deleted; and so has the set that serves the data, the one that the server returned in
  this run under the streamer's name. For the leader's claim no job is needed.
\<close>

theorem secondaries_done:
  "case secondary_handle C s of (Ok True, t) \<Rightarrow>
     if length (pp_volumes (ks_inst s)) = 1 then t = s
     else (\<exists>leader u. GetSyncLeader C s = (Ok leader, u) \<and>
       (\<exists>jobs. list_all2 (\<lambda>i job. int32_pos (job_succeeded job) \<and>
            (\<exists>q. job_call (ks_inst s) (indexed (pp_name (ks_inst s) @ ''-sup'') i) q \<and> told s t q (KJob job)) \<and>
            (\<exists>y. told s t (RDelete (KJob job) Background) y))
          (filter (\<lambda>i. int i \<noteq> leader) [0..<length (pp_volumes (ks_inst s))]) jobs) \<and>
       (\<exists>sts q y. (q = RGet StatefulSetKind (pp_namespace (ks_inst s)) (pp_name (ks_inst s) @ ''-pstream'') None \<or>
            (\<exists>new. q = RCreate (KStatefulSet new) \<and> m_name (sts_meta new) = pp_name (ks_inst s) @ ''-pstream'' \<and>
               m_namespace (sts_meta new) = pp_namespace (ks_inst s))) \<and>
          told s t q (KStatefulSet sts) \<and> told s t (RDelete (KStatefulSet sts) Background) y))
   | _ \<Rightarrow> True"
proof -
  obtain r t where run: "secondary_handle C s = (r, t)" by fastforce
  let ?p = "ks_inst s"
  show ?thesis
  proof (cases "r = Ok True")
    case True
    show ?thesis
    proof (cases "length (pp_volumes ?p) = 1")
      case True
      with run \<open>r = Ok True\<close> show ?thesis
        by (auto simp: secondary_handle_def bnd_run inst_run ret_run)
    next
      case False
      with secondary_done_jobs [of C s t] run \<open>r = Ok True\<close> show ?thesis
        by (simp add: streamer_call_def)
    qed
  next
    case False
    with run show ?thesis by (auto split: res.splits bool.splits)
  qed
qed

subsection \<open>The primary's result\<close>

lemma record_primary_told:
  assumes "record_primary_result C res s = (Ok (), t)"
  shows "\<exists>u. extends s u \<and> ks_inst u = ks_inst s \<and>
    (if OldLatestCheckpointLocation res = [] then u = s
     else noted (ks_inst s) ''latest-checkpoint-location'' (OldLatestCheckpointLocation res) s u) \<and>
    identified (wx_env C) (ks_inst s) (NewDatabaseSystemIdentifier res) u t \<and> extends u t"
proof -
  from assms obtain u where u: "when_op (OldLatestCheckpointLocation res \<noteq> [])
      (SetLatestCheckpointLocation C (OldLatestCheckpointLocation res)) s = (Ok (), u)"
    and db: "SetDBId C (NewDatabaseSystemIdentifier res) u = (Ok (), t)"
    by (auto simp: record_primary_result_def bnd_Ok_inv)
  have "extends s u \<and> ks_inst u = ks_inst s \<and> (if OldLatestCheckpointLocation res = [] then u = s
     else noted (ks_inst s) ''latest-checkpoint-location'' (OldLatestCheckpointLocation res) s u)"
    using u cm_writers_told(2) [of C "OldLatestCheckpointLocation res" s u]
    by (auto simp: when_op_def ret_inv calls.effect_refl split: if_splits)
  with cm_writers_told(3) [OF db] show ?thesis by auto
qed

lemma primary_recorded:
  assumes "primary_handle C s = (Ok True, t)"
  shows "job_reported C ''-up'' (\<lambda>log v w. \<exists>res x.
    unmarshal_struct result_fields \<lparr>OldLatestCheckpointLocation = [], NewDatabaseSystemIdentifier = []\<rparr> log = Some res \<and>
    (if OldLatestCheckpointLocation res = [] then x = v
     else noted (ks_inst s) ''latest-checkpoint-location'' (OldLatestCheckpointLocation res) v x) \<and>
    identified (wx_env C) (ks_inst s) (NewDatabaseSystemIdentifier res) x w) s t"
proof -
  let ?p = "ks_inst s"
  from assms obtain job u v w res where get: "found (kget (wx_env C) JobT (pp_namespace ?p) (primary_jobname ?p)) s = (Ok (Some job), u)"
    and res: "getResultFromPrimaryUpgradeJob C job u = (Ok res, v)" "record_primary_result C res v = (Ok (), w)"
    and st: "settle C job ErrPrimaryUpgradeJobFailed w = (Ok True, t)"
    by (auto simp: primary_handle_def bnd_Ok_inv inst_inv ret_inv fail_inv case_option_inv when_op_inv if_op_inv settle_def)
  from res(1) obtain buf where buf: "read_job_log C job ''no pod found for upgrade job'' u = (Ok buf, v)"
    "unmarshal_struct result_fields \<lparr>OldLatestCheckpointLocation = [], NewDatabaseSystemIdentifier = []\<rparr> buf = Some res"
    by (auto simp: getResultFromPrimaryUpgradeJob_def bnd_Ok_inv fail_inv ret_inv split: option.splits)
  from read_job_log_told [OF buf(1)] obtain bytes where log: "job_log job bytes u v" "buf = take 2048 bytes" by blast
  from kget_job [OF get] have q: "ks_inst u = ?p" "told s u (RGet JobKind (pp_namespace ?p) (pp_name ?p @ ''-up'') None) (KJob job)"
    by (auto simp: primary_jobname_def)
  have inst: "ks_inst v = ?p"
    using keepsD [OF job_results_same(2) res(1), of id] q(1) by (simp add: same_def)
  from record_primary_told [OF res(2), unfolded inst] obtain x where
    "if OldLatestCheckpointLocation res = [] then x = v
     else noted ?p ''latest-checkpoint-location'' (OldLatestCheckpointLocation res) v x"
    "identified (wx_env C) ?p (NewDatabaseSystemIdentifier res) x w" by blast
  with q log buf(2) settle_done [OF st] show ?thesis
    unfolding job_reported_def job_call_def by blast
qed

subsection \<open>What lets an upgrade go on\<close>

lemma ok_true_case:
  "(case m of (Ok True, t) \<Rightarrow> P t | _ \<Rightarrow> True) \<longleftrightarrow> (\<forall>t. m = (Ok True, t) \<longrightarrow> P t)"
  by (auto split: prod.splits res.splits bool.splits)

text \<open>
  C13. A step that waits for a job is done only when that job is. If one of these five steps
  reports that it is done, then in this very run the server returned the step's own job, with a
  pod that succeeded and none that failed, and the job has been deleted (unless the two counters
  overflow, when it is left). The one exception is the synchronisation of replicas on a cluster
  that has none, which asks nothing.
\<close>

theorem steps_done:
  "list_all (\<lambda>(h, n). case handler_handle h C s of
      (Ok True, t) \<Rightarrow>
        h = PreupgradeSyncHandler \<and> length (pp_volumes (ks_inst s)) = 1 \<and> t = s \<or>
        (\<exists>job q u. job_call (ks_inst s) (pp_name (ks_inst s) @ n) q \<and> told s u q (KJob job) \<and>
           int32_pos (job_succeeded job) \<and> \<not> int32_pos (job_failed job) \<and>
           (if int32_pos (job_succeeded job + job_failed job)
            then \<exists>x. told u t (RDelete (KJob job) Background) x else t = u))
    | _ \<Rightarrow> True)
   [(PreupgradeHandler, ''-preupgrade''), (PreupgradeSyncHandler, ''-preupgrade-sync''),
    (PrimaryUpgradeHandler, ''-up''), (PrimaryUpgradeMoveHandler, ''-move''),
    (PostupgradeHandler, ''-postuprgrade'')]"
proof -
  have single: "t = s" if "preupgradeSync_handle C s = (r, t)" "length (pp_volumes (ks_inst s)) = 1" for r t
    using that by (simp add: preupgradeSync_handle_def bnd_run inst_run ret_run)
  have step: "case handler_handle h C s of
      (Ok True, t) \<Rightarrow>
        h = PreupgradeSyncHandler \<and> length (pp_volumes (ks_inst s)) = 1 \<and> t = s \<or>
        (\<exists>job q u. job_call (ks_inst s) (pp_name (ks_inst s) @ n) q \<and> told s u q (KJob job) \<and>
           int32_pos (job_succeeded job) \<and> \<not> int32_pos (job_failed job) \<and>
           (if int32_pos (job_succeeded job + job_failed job)
            then \<exists>x. told u t (RDelete (KJob job) Background) x else t = u))
    | _ \<Rightarrow> True"
    if "\<And>t. handler_handle h C s = (Ok True, t) \<Longrightarrow>
      h = PreupgradeSyncHandler \<and> length (pp_volumes (ks_inst s)) = 1 \<and> t = s \<or> done_by C n s t" for h n
    using that unfolding done_by_def job_done_def job_finished_def
    by (simp only: ok_true_case) blast
  show ?thesis
    unfolding list.pred_inject(2) prod.case
    by (intro conjI list.pred_inject(1) step)
      (auto dest: preupgrade_done(1) sync_done single primary_done move_done postupgrade_done)
qed

text \<open>
  C15. The gate of the upgrade. The preupgrade step is done only if this has happened, in this
  order: the server returned the step's job; the first pod that this job's own selector finds in
  its namespace was asked for the last line of its log, which, cut at 2048 bytes, is a
  configuration that says that prepared transactions are off; the arguments for \<open>initdb\<close>
  derived from it were written to the cluster's config map, which keeps everything else it had;
  and then that job, which has succeeded and not failed, was deleted.
\<close>

theorem preupgrade_gate:
  "case preupgrade_handle C s of
     (Ok True, t) \<Rightarrow> (\<exists>q job pod pods bytes cfg cm0 cm x u v w.
       job_call (ks_inst s) (pp_name (ks_inst s) @ ''-preupgrade'') q \<and> told s u q (KJob job) \<and>
       told u v (RListPods (m_namespace (job_meta job)) (js_selector (job_spec_of job))) (KPodList (pod # pods)) \<and>
       told u v (RReadLogs (pod_namespace pod) (pod_name pod) 1) (KBytes bytes) \<and>
       unmarshal_config (take 2048 bytes) = Some cfg \<and> cfg_MaxPreparedTransactions cfg = 0 \<and>
       told v w (config_read (ks_inst s)) (KConfigMap cm0) \<and>
       set_annotation ''primary-initdb-args'' (parseConfigToInitdbArgs cfg) cm0 = Some cm \<and>
       told v w (RUpdate (KConfigMap cm)) x \<and> job_done C job w t)
   | _ \<Rightarrow> True"
proof (unfold ok_true_case, intro allI impI)
  fix t
  assume "preupgrade_handle C s = (Ok True, t)"
  from preupgrade_done(2) [OF this] obtain q job bytes cfg u v w where
    step: "job_call (ks_inst s) (pp_name (ks_inst s) @ ''-preupgrade'') q" "told s u q (KJob job)"
    and log: "job_log job bytes u v" and cfg: "unmarshal_config (take 2048 bytes) = Some cfg"
      "cfg_MaxPreparedTransactions cfg = 0"
    and nt: "noted (ks_inst s) ''primary-initdb-args'' (parseConfigToInitdbArgs cfg) v w" and fin: "job_done C job w t"
    unfolding job_reported_def by blast
  from log obtain pod pods where
    pods: "told u v (RListPods (m_namespace (job_meta job)) (js_selector (job_spec_of job))) (KPodList (pod # pods))"
    "told u v (RReadLogs (pod_namespace pod) (pod_name pod) 1) (KBytes bytes)" unfolding job_log_def by blast
  from nt obtain cm0 cm x where
    cm: "told v w (config_read (ks_inst s)) (KConfigMap cm0)"
    "set_annotation ''primary-initdb-args'' (parseConfigToInitdbArgs cfg) cm0 = Some cm"
    "told v w (RUpdate (KConfigMap cm)) x" unfolding noted_def by blast
  show "\<exists>q job pod pods bytes cfg cm0 cm x u v w.
       job_call (ks_inst s) (pp_name (ks_inst s) @ ''-preupgrade'') q \<and> told s u q (KJob job) \<and>
       told u v (RListPods (m_namespace (job_meta job)) (js_selector (job_spec_of job))) (KPodList (pod # pods)) \<and>
       told u v (RReadLogs (pod_namespace pod) (pod_name pod) 1) (KBytes bytes) \<and>
       unmarshal_config (take 2048 bytes) = Some cfg \<and> cfg_MaxPreparedTransactions cfg = 0 \<and>
       told v w (config_read (ks_inst s)) (KConfigMap cm0) \<and>
       set_annotation ''primary-initdb-args'' (parseConfigToInitdbArgs cfg) cm0 = Some cm \<and>
       told v w (RUpdate (KConfigMap cm)) x \<and> job_done C job w t"
    by (rule exI [of _ q], rule exI [of _ job], rule exI [of _ pod], rule exI [of _ pods], rule exI [of _ bytes], rule exI [of _ cfg], rule exI [of _ cm0], rule exI [of _ cm], rule exI [of _ x], rule exI [of _ u], rule exI [of _ v], rule exI [of _ w],
        intro conjI step pods cfg cm fin)
qed

text \<open>
  C16. The primary's step is done only if this has happened, in this order: the server returned
  the step's job; the last line of the log of the first pod that this job's own selector finds
  was read and decoded; the old database's last checkpoint, unless the job did not report one,
  was written to the cluster's config map, for the secondaries; then the identifier of the new
  database, together with Patroni's configuration without its pause; each of the two writes keeps
  everything else the map had; and then that job, which has succeeded and not failed, was deleted.
\<close>

theorem primary_result_recorded:
  "case primary_handle C s of
     (Ok True, t) \<Rightarrow> (\<exists>q job pod pods bytes res u v x w.
       job_call (ks_inst s) (pp_name (ks_inst s) @ ''-up'') q \<and> told s u q (KJob job) \<and>
       told u v (RListPods (m_namespace (job_meta job)) (js_selector (job_spec_of job))) (KPodList (pod # pods)) \<and>
       told u v (RReadLogs (pod_namespace pod) (pod_name pod) 1) (KBytes bytes) \<and>
       unmarshal_struct result_fields \<lparr>OldLatestCheckpointLocation = [], NewDatabaseSystemIdentifier = []\<rparr>
         (take 2048 bytes) = Some res \<and>
       (if OldLatestCheckpointLocation res = [] then x = v
        else (\<exists>cm0 cm y. told v x (config_read (ks_inst s)) (KConfigMap cm0) \<and>
          set_annotation ''latest-checkpoint-location'' (OldLatestCheckpointLocation res) cm0 = Some cm \<and>
          told v x (RUpdate (KConfigMap cm)) y)) \<and>
       (\<exists>cm0 cm1 cm configs configb y. told x w (config_read (ks_inst s)) (KConfigMap cm0) \<and>
          annotation cm0 ''config'' = Some configs \<and> resume_config (ke_f64 (wx_env C)) configs = Some configb \<and>
          set_annotation ''initialize'' (NewDatabaseSystemIdentifier res) cm0 = Some cm1 \<and>
          set_annotation ''config'' configb cm1 = Some cm \<and> told x w (RUpdate (KConfigMap cm)) y) \<and>
       job_done C job w t)
   | _ \<Rightarrow> True"
proof (unfold ok_true_case, intro allI impI)
  fix t
  assume "primary_handle C s = (Ok True, t)"
  from primary_recorded [OF this] obtain q job bytes res u v x w where
    step: "job_call (ks_inst s) (pp_name (ks_inst s) @ ''-up'') q" "told s u q (KJob job)" and log: "job_log job bytes u v"
    and res: "unmarshal_struct result_fields \<lparr>OldLatestCheckpointLocation = [], NewDatabaseSystemIdentifier = []\<rparr>
         (take 2048 bytes) = Some res"
    and nt: "if OldLatestCheckpointLocation res = [] then x = v
      else noted (ks_inst s) ''latest-checkpoint-location'' (OldLatestCheckpointLocation res) v x"
    and id: "identified (wx_env C) (ks_inst s) (NewDatabaseSystemIdentifier res) x w" and fin: "job_done C job w t"
    unfolding job_reported_def by blast
  from log obtain pod pods where
    pods: "told u v (RListPods (m_namespace (job_meta job)) (js_selector (job_spec_of job))) (KPodList (pod # pods))"
    "told u v (RReadLogs (pod_namespace pod) (pod_name pod) 1) (KBytes bytes)" unfolding job_log_def by blast
  show "\<exists>q job pod pods bytes res u v x w.
       job_call (ks_inst s) (pp_name (ks_inst s) @ ''-up'') q \<and> told s u q (KJob job) \<and>
       told u v (RListPods (m_namespace (job_meta job)) (js_selector (job_spec_of job))) (KPodList (pod # pods)) \<and>
       told u v (RReadLogs (pod_namespace pod) (pod_name pod) 1) (KBytes bytes) \<and>
       unmarshal_struct result_fields \<lparr>OldLatestCheckpointLocation = [], NewDatabaseSystemIdentifier = []\<rparr>
         (take 2048 bytes) = Some res \<and>
       (if OldLatestCheckpointLocation res = [] then x = v
        else (\<exists>cm0 cm y. told v x (config_read (ks_inst s)) (KConfigMap cm0) \<and>
          set_annotation ''latest-checkpoint-location'' (OldLatestCheckpointLocation res) cm0 = Some cm \<and>
          told v x (RUpdate (KConfigMap cm)) y)) \<and>
       (\<exists>cm0 cm1 cm configs configb y. told x w (config_read (ks_inst s)) (KConfigMap cm0) \<and>
          annotation cm0 ''config'' = Some configs \<and> resume_config (ke_f64 (wx_env C)) configs = Some configb \<and>
          set_annotation ''initialize'' (NewDatabaseSystemIdentifier res) cm0 = Some cm1 \<and>
          set_annotation ''config'' configb cm1 = Some cm \<and> told x w (RUpdate (KConfigMap cm)) y) \<and>
       job_done C job w t"
    by (rule exI [of _ q], rule exI [of _ job], rule exI [of _ pod], rule exI [of _ pods], rule exI [of _ bytes], rule exI [of _ res], rule exI [of _ u], rule exI [of _ v], rule exI [of _ x], rule exI [of _ w],
        intro conjI step pods res fin nt [unfolded noted_def] id [unfolded identified_def])
qed

text \<open>
  C18. The move step, on every branch. If the job has a succeeded pod the running version becomes
  the target, in memory, whether or not the step then fails; if the job is finished it is deleted
  and an error of that call is returned; a job with a failed pod makes the step fail. Without a
  job the version is unchanged and the step is not done.
\<close>

theorem move_step:
  "case move_handle C s of (r, t) \<Rightarrow>
    (let p = ks_inst s; E = wx_env C; q = RGet JobKind (pp_namespace p) (pp_name p @ ''-move'') None in
     case ke_api E (ks_hist s) q of
       Inr (KJob job) \<Rightarrow>
         (let u = (if int32_pos (job_succeeded job)
                then (after E q s)\<lparr>ks_inst := upd_status (\<lambda>st. st\<lparr>st_version := st_upgrade_version st\<rparr>) p\<rparr>
                else after E q s);
              d = RDelete (KJob job) Background;
              v = (if int32_pos (job_failed job) then Err ErrPrimaryUpgradeMoveJobFailed
                else Ok (int32_pos (job_succeeded job)))
          in if int32_pos (job_succeeded job + job_failed job)
             then t = after E d u \<and> r = (case ke_api E (ks_hist u) d of Inl e \<Rightarrow> Err e | Inr _ \<Rightarrow> v)
             else t = u \<and> r = v)
     | Inl e \<Rightarrow> if e = NotFound then ks_inst t = p \<and> r \<noteq> Ok True else t = after E q s \<and> r = Err e
     | _ \<Rightarrow> t = after E q s \<and> r = Err DecodeError)"
proof -
  let ?p = "ks_inst s" and ?E = "wx_env C"
  let ?q = "RGet JobKind (pp_namespace ?p) (pp_name ?p @ ''-move'') None"
  obtain r t where run: "move_handle C s = (r, t)" by fastforce
  have "bnd (found (kget ?E JobT (pp_namespace ?p) (pp_name ?p @ ''-move'')))
      (\<lambda>r. case r of None \<Rightarrow> bnd (create_move_job C) (\<lambda>_. ret False)
         | Some job \<Rightarrow> bnd (when_op (int32_pos (job_succeeded job))
             (set_status (\<lambda>st. st\<lparr>st_version := st_upgrade_version st\<rparr>)))
             (\<lambda>_. settle C job ErrPrimaryUpgradeMoveJobFailed)) s = (r, t)"
    using run unfolding move_handle_def move_jobname_def settle_def by (simp add: bnd_run [of inst] inst_run)
  note get = this [unfolded bnd_run [of "found _"] job.kget_after Let_def kube_sel]
  show ?thesis
  proof (cases "ke_api ?E (ks_hist s) ?q")
    case (Inl e)
    have "ks_inst t = ?p \<and> r \<noteq> Ok True" if "bnd (create_move_job C) (\<lambda>_. ret False) (after ?E ?q s) = (r, t)"
    proof -
      have "keeps (same id) (bnd (create_move_job C) (\<lambda>_. ret False))" by (intro eff_intro)
      from keepsD [OF this that] that show ?thesis by (auto simp: same_def bnd_Ok_inv ret_inv)
    qed
    with Inl get run show ?thesis by (auto simp: Let_def split: if_splits)
  next
    case (Inr x)
    show ?thesis
    proof (cases x)
      case (KJob job)
      with Inr get have "bnd (when_op (int32_pos (job_succeeded job))
             (set_status (\<lambda>st. st\<lparr>st_version := st_upgrade_version st\<rparr>)))
             (\<lambda>_. settle C job ErrPrimaryUpgradeMoveJobFailed) (after ?E ?q s) = (r, t)"
        by (simp add: unwrap_job)
      with Inr KJob run show ?thesis
        by (auto simp: Let_def when_op_def bnd_run set_status_run ret_run settle_run job_finished_def
            after_def split: if_splits)
    qed (use Inr get run in \<open>simp_all add: unwrap_job Let_def\<close>)
  qed
qed

text \<open>
  Both scale-down steps read the stateful set, write it back with no replicas and everything
  else as it was read, and are done exactly when the answer to the write says that no pod is
  available. They panic on nothing, and record the ready replicas of that answer.
\<close>

theorem scaledown_steps:
  "list_all (\<lambda>h. case handler_handle h C s of (r, t) \<Rightarrow>
    (let p = ks_inst s; E = wx_env C; q = RGet StatefulSetKind (pp_namespace p) (pp_name p) None in
     case ke_api E (ks_hist s) q of
       Inr (KStatefulSet x) \<Rightarrow>
         (let w = RUpdate (KStatefulSet (x\<lparr>sts_spec := (sts_spec x)\<lparr>ss_replicas := Some 0\<rparr>\<rparr>)) in
          case ke_api E (ks_hist (after E q s)) w of
            Inr (KStatefulSet y) \<Rightarrow> r = Ok (sts_available y = 0) \<and>
              t = (after E w (after E q s))\<lparr>ks_inst := upd_status (\<lambda>st. st\<lparr>st_ready := sts_ready y\<rparr>) p\<rparr>
          | _ \<Rightarrow> t = after E w (after E q s) \<and> (\<exists>e. r = Err e))
     | _ \<Rightarrow> t = after E q s \<and> (\<exists>e. r = Err e)))
   [ScaledownHandler, PreupgradeScaledownHandler]"
proof -
  have unwrap: "kt_unwrap StatefulSetT x = (case x of KStatefulSet y \<Rightarrow> Some y | _ \<Rightarrow> None)" for x
    by (simp add: StatefulSetT_def)
  show ?thesis
    by (simp add: preupgradeScaledown_handle_def scaledown_handle_def GetK8SStatefulSet_def bnd_assoc)
      (auto simp: bnd_run inst_run kget_def kupdate_def ask_after decode_as_def set_status_run ret_run
        fail_run unwrap kube_sel Let_def split: sum.splits kobj.splits)
qed

subsection \<open>Notes to itself\<close>

text \<open>
  What the operator relies on. A read by name returns an object of that name. The notes are
  annotations, which the API server stores as they are and nobody else writes: Patroni keeps
  to its own annotations of the map, and sets the identifier of a cluster only where there is none.
  So once an update of the map has been acknowledged, a read that succeeds returns a map with the
  notes of that update, whatever else of the map has changed and whatever has been asked in between,
  unless the map has been written again. Strings that are no UTF-8 do not survive the transport.
\<close>

definition config_named :: "patroni \<Rightarrow> config_map \<Rightarrow> bool" where
  "config_named p cm \<longleftrightarrow> m_namespace (cm_meta cm) = pp_namespace p \<and> m_name (cm_meta cm) = cmName p configCMName"

definition config_write :: "patroni \<Rightarrow> request \<Rightarrow> bool" where
  "config_write p q = (case q of
       RCreate (KConfigMap cm) \<Rightarrow> config_named p cm
     | RUpdate (KConfigMap cm) \<Rightarrow> config_named p cm
     | RPatch (KConfigMap cm) _ \<Rightarrow> config_named p cm
     | RDelete (KConfigMap cm) _ \<Rightarrow> config_named p cm
     | _ \<Rightarrow> False)"

definition note_keys :: "string list" where
  "note_keys = [''primary-initdb-args'', ''latest-checkpoint-location'', ''initialize'']"

definition same_notes :: "config_map \<Rightarrow> config_map \<Rightarrow> bool" where
  "same_notes cm cm' \<longleftrightarrow> list_all (\<lambda>k. case annotation cm k of
     Some v \<Rightarrow> valid_utf8 v \<longrightarrow> annotation cm' k = Some v | None \<Rightarrow> True) note_keys"

definition keeps_notes :: "kube_env \<Rightarrow> patroni \<Rightarrow> bool" where
  "keeps_notes E p \<longleftrightarrow>
     (\<forall>h cm. ke_api E h (config_read p) = Inr (KConfigMap cm) \<longrightarrow> config_named p cm) \<and>
     (\<forall>h cm x es cm'. config_named p cm \<longrightarrow> list_all (\<lambda>ev. \<not> config_write p (fst ev)) es \<longrightarrow>
        ke_api E (h @ (RUpdate (KConfigMap cm), Inr x) # es) (config_read p) = Inr (KConfigMap cm') \<longrightarrow>
        same_notes cm cm')"

text \<open>A later state, of any run for the same instance, in which the map has not been written again.\<close>

definition later :: "patroni \<Rightarrow> kstate \<Rightarrow> kstate \<Rightarrow> bool" where
  "later p s t \<longleftrightarrow> pp_name (ks_inst t) = pp_name p \<and> pp_namespace (ks_inst t) = pp_namespace p \<and>
     (\<exists>es. ks_hist t = ks_hist s @ es \<and> list_all (\<lambda>ev. \<not> config_write p (fst ev)) es)"

text \<open>Whatever is read then has the notes of \<open>cm\<close>.\<close>

definition holds_notes :: "kube_env \<Rightarrow> patroni \<Rightarrow> kstate \<Rightarrow> config_map \<Rightarrow> bool" where
  "holds_notes E p s cm \<longleftrightarrow> (\<forall>t cm'. later p s t \<longrightarrow> ke_api E (ks_hist t) (config_read p) = Inr (KConfigMap cm') \<longrightarrow>
     same_notes cm cm')"

lemma config_read_later: "later p s t \<Longrightarrow> config_read (ks_inst t) = config_read p"
  by (simp add: later_def config_read_def cmName_def)

lemma later_refl: "later (ks_inst s) s s"
  by (simp add: later_def)

lemma holds_notesD:
  assumes "holds_notes E p s cm" "later p s t" "ke_api E (ks_hist t) (config_read p) = Inr (KConfigMap cm')"
    and "annotation cm k = Some v" "valid_utf8 v" "k \<in> set note_keys"
  shows "annotation cm' k = Some v"
  using assms unfolding holds_notes_def same_notes_def list_all_iff by fastforce

lemma config_named_set: "set_annotation k v cm = Some cm' \<Longrightarrow> config_named p cm' \<longleftrightarrow> config_named p cm"
  by (auto simp: set_annotation_def config_named_def split: option.splits)

lemma getConfigCM_Ok: "getConfigCM C s = (Ok cm, u) \<longleftrightarrow>
    ke_api (wx_env C) (ks_hist s) (config_read (ks_inst s)) = Inr (KConfigMap cm) \<and>
    u = after (wx_env C) (config_read (ks_inst s)) s"
  by (auto simp: getConfigCM_after split: sum.splits kobj.splits)

lemma write_holds:
  assumes law: "keeps_notes (wx_env C) (ks_inst u)" and named: "config_named (ks_inst u) cm"
    and run: "bnd (kupdate (wx_env C) ConfigMapT cm) (\<lambda>_. ret ()) u = (Ok (), t)"
  shows "holds_notes (wx_env C) (ks_inst u) t cm \<and> ks_inst t = ks_inst u"
proof -
  from run obtain x where t: "ks_hist t = ks_hist u @ [(RUpdate (KConfigMap cm), Inr x)]" "ks_inst t = ks_inst u"
    by (auto simp: kupdate_def bnd_Ok_inv ret_inv ask_Ok kube_sel decode_as_Ok)
  have "same_notes cm cm'" if "later (ks_inst u) t w"
    and read: "ke_api (wx_env C) (ks_hist w) (config_read (ks_inst u)) = Inr (KConfigMap cm')" for w cm'
  proof -
    from that(1) t(1) obtain es where "ks_hist w = ks_hist u @ (RUpdate (KConfigMap cm), Inr x) # es"
      "list_all (\<lambda>ev. \<not> config_write (ks_inst u) (fst ev)) es" by (auto simp: later_def)
    with read law named show ?thesis unfolding keeps_notes_def by metis
  qed
  with t(2) show ?thesis unfolding holds_notes_def by blast
qed

lemma writers_hold:
  assumes law: "keeps_notes (wx_env C) (ks_inst s)"
  shows "SetPrimaryInitdbArgs C v s = (Ok (), t) \<Longrightarrow> \<exists>cm. holds_notes (wx_env C) (ks_inst s) t cm \<and>
      annotation cm ''primary-initdb-args'' = Some v"
    and "SetLatestCheckpointLocation C v s = (Ok (), t) \<Longrightarrow> ks_inst t = ks_inst s \<and>
      (\<exists>cm. holds_notes (wx_env C) (ks_inst s) t cm \<and> annotation cm ''latest-checkpoint-location'' = Some v)"
    and "SetDBId C v s = (Ok (), t) \<Longrightarrow> \<exists>cm0 cm. ke_api (wx_env C) (ks_hist s) (config_read (ks_inst s)) = Inr (KConfigMap cm0) \<and>
      holds_notes (wx_env C) (ks_inst s) t cm \<and> annotation cm ''initialize'' = Some v \<and>
      annotation cm ''latest-checkpoint-location'' = annotation cm0 ''latest-checkpoint-location''"
proof -
  let ?u = "after (wx_env C) (config_read (ks_inst s)) s"
  note inv = bnd_Ok_inv [of "getConfigCM C"] bnd_Ok_inv [of "of_option _"] of_option_inv getConfigCM_Ok
    case_option_inv fail_inv
  have named: "config_named (ks_inst s) cm" if "ke_api (wx_env C) (ks_hist s) (config_read (ks_inst s)) = Inr (KConfigMap cm)" for cm
    using law that unfolding keeps_notes_def by blast
  have hold: "holds_notes (wx_env C) (ks_inst s) t cm \<and> ks_inst t = ks_inst s"
    if "bnd (kupdate (wx_env C) ConfigMapT cm) (\<lambda>_. ret ()) ?u = (Ok (), t)" "config_named (ks_inst s) cm" for cm
    using write_holds [of C ?u cm t] that law by simp
  have wrote: "ks_inst t = ks_inst s \<and> (\<exists>cm. holds_notes (wx_env C) (ks_inst s) t cm \<and> annotation cm k = Some v)"
    if "ke_api (wx_env C) (ks_hist s) (config_read (ks_inst s)) = Inr (KConfigMap cm0)" "set_annotation k v cm0 = Some cm"
      "bnd (kupdate (wx_env C) ConfigMapT cm) (\<lambda>_. ret ()) ?u = (Ok (), t)" for k cm0 cm
    using hold [OF that(3)] named [OF that(1)] config_named_set [OF that(2)] annotation_set [OF that(2)] by auto
  show "\<exists>cm. holds_notes (wx_env C) (ks_inst s) t cm \<and> annotation cm ''primary-initdb-args'' = Some v"
    if "SetPrimaryInitdbArgs C v s = (Ok (), t)"
  proof -
    from that obtain cm0 cm where "ke_api (wx_env C) (ks_hist s) (config_read (ks_inst s)) = Inr (KConfigMap cm0)"
      "set_annotation configCMPrimaryInitdbArgs v cm0 = Some cm" "bnd (kupdate (wx_env C) ConfigMapT cm) (\<lambda>_. ret ()) ?u = (Ok (), t)"
      by (auto simp: SetPrimaryInitdbArgs_def inv)
    from wrote [OF this] show ?thesis by (simp add: cm_keys)
  qed
  show "ks_inst t = ks_inst s \<and>
      (\<exists>cm. holds_notes (wx_env C) (ks_inst s) t cm \<and> annotation cm ''latest-checkpoint-location'' = Some v)"
    if "SetLatestCheckpointLocation C v s = (Ok (), t)"
  proof -
    from that obtain cm0 cm where "ke_api (wx_env C) (ks_hist s) (config_read (ks_inst s)) = Inr (KConfigMap cm0)"
      "set_annotation configCMLatestCheckpointLocation v cm0 = Some cm" "bnd (kupdate (wx_env C) ConfigMapT cm) (\<lambda>_. ret ()) ?u = (Ok (), t)"
      by (auto simp: SetLatestCheckpointLocation_def inv)
    from wrote [OF this] show ?thesis by (simp add: cm_keys)
  qed
  show "\<exists>cm0 cm. ke_api (wx_env C) (ks_hist s) (config_read (ks_inst s)) = Inr (KConfigMap cm0) \<and>
      holds_notes (wx_env C) (ks_inst s) t cm \<and> annotation cm ''initialize'' = Some v \<and>
      annotation cm ''latest-checkpoint-location'' = annotation cm0 ''latest-checkpoint-location''"
    if run: "SetDBId C v s = (Ok (), t)"
  proof -
    from run obtain cm0 cm1 configb cm where
      cm0: "ke_api (wx_env C) (ks_hist s) (config_read (ks_inst s)) = Inr (KConfigMap cm0)"
      and cm: "set_annotation configCMdbidAnnotation v cm0 = Some cm1"
        "set_annotation configCMconfigAnnotation configb cm1 = Some cm"
      and w: "bnd (kupdate (wx_env C) ConfigMapT cm) (\<lambda>_. ret ()) ?u = (Ok (), t)"
      by (auto simp: SetDBId_def inv)
    have "annotation cm ''initialize'' = Some v"
      "annotation cm ''latest-checkpoint-location'' = annotation cm0 ''latest-checkpoint-location''"
      by (simp_all add: annotation_set [OF cm(1)] annotation_set [OF cm(2)] cm_keys)
    with cm0 hold [OF w] named [OF cm0] config_named_set [OF cm(1)] config_named_set [OF cm(2)] show ?thesis by blast
  qed
qed

text \<open>What the readers return in a later state, if the map is read.\<close>

lemma notes_read:
  assumes "holds_notes (wx_env C) p s cm" and "later p s t"
    and "ke_api (wx_env C) (ks_hist t) (config_read p) = Inr (KConfigMap cm')"
  shows "annotation cm ''primary-initdb-args'' = Some v \<Longrightarrow> valid_utf8 v \<Longrightarrow> fst (GetPrimaryInitdbArgs C t) = Ok v"
    and "annotation cm ''initialize'' = Some v \<Longrightarrow> valid_utf8 v \<Longrightarrow> fst (GetDBId C t) = Ok v"
    and "annotation cm ''initialize'' = Some v \<Longrightarrow> valid_utf8 v \<Longrightarrow>
      annotation cm ''latest-checkpoint-location'' = Some w \<Longrightarrow> valid_utf8 w \<Longrightarrow> fst (GetSecondaryStreamArgs C t) = Ok (w, v)"
  using holds_notesD [OF assms] assms(3) config_read_later [OF assms(2)]
  by (simp_all add: GetPrimaryInitdbArgs_def GetDBId_def GetSecondaryStreamArgs_def bnd_run getConfigCM_after ret_run cm_keys note_keys_def)

text \<open>
  C17. The operator gets back the notes it leaves in the config map. In any later state, of the same
  reconcile or another, in which the map has not been written again, and if the map can be read:
  the arguments for \<open>initdb\<close> that the preupgrade step recorded are those the primary's job is made
  with; and after the primary's result has been recorded the operator finds the new identifier, and
  tells the secondaries exactly the recorded checkpoint and this identifier, although the
  identifier is written by a second update of the same map. The server is trusted with the notes
  of a write to this very map, not with a write to any other, nor with the rest of it.
\<close>

theorem notes_roundtrip:
  assumes "keeps_notes (wx_env C) (ks_inst s)" and "valid_utf8 v"
    and "valid_utf8 (OldLatestCheckpointLocation res)" and "valid_utf8 (NewDatabaseSystemIdentifier res)"
    and "later (ks_inst s) t t'"
    and "ke_api (wx_env C) (ks_hist t') (config_read (ks_inst s)) = Inr (KConfigMap cm)"
  shows "(SetPrimaryInitdbArgs C v s = (Ok (), t) \<longrightarrow> fst (GetPrimaryInitdbArgs C t') = Ok v) \<and>
    (record_primary_result C res s = (Ok (), t) \<longrightarrow> fst (GetDBId C t') = Ok (NewDatabaseSystemIdentifier res) \<and>
      (OldLatestCheckpointLocation res = [] \<or>
       fst (GetSecondaryStreamArgs C t') = Ok (OldLatestCheckpointLocation res, NewDatabaseSystemIdentifier res)))"
proof (intro conjI impI)
  show "fst (GetPrimaryInitdbArgs C t') = Ok v" if "SetPrimaryInitdbArgs C v s = (Ok (), t)"
    using writers_hold(1) [OF assms(1) that] notes_read(1) [OF _ assms(5,6)] assms(2) by blast
next
  assume run: "record_primary_result C res s = (Ok (), t)"
  then obtain u where u: "when_op (OldLatestCheckpointLocation res \<noteq> [])
      (SetLatestCheckpointLocation C (OldLatestCheckpointLocation res)) s = (Ok (), u)"
    and db: "SetDBId C (NewDatabaseSystemIdentifier res) u = (Ok (), t)"
    by (auto simp: record_primary_result_def bnd_Ok_inv)
  have "keeps (same id) (when_op (OldLatestCheckpointLocation res \<noteq> [])
      (SetLatestCheckpointLocation C (OldLatestCheckpointLocation res)))" by (intro eff_intro)
  from keepsD [OF this u] have i: "ks_inst u = ks_inst s" by (simp add: same_def)
  from writers_hold(3) [of C u "NewDatabaseSystemIdentifier res" t] assms(1) db i obtain cm0 cm1 where
    cm0: "ke_api (wx_env C) (ks_hist u) (config_read (ks_inst s)) = Inr (KConfigMap cm0)"
    and cm1: "holds_notes (wx_env C) (ks_inst s) t cm1" "annotation cm1 ''initialize'' = Some (NewDatabaseSystemIdentifier res)"
      "annotation cm1 ''latest-checkpoint-location'' = annotation cm0 ''latest-checkpoint-location''" by auto
  from notes_read(2) [OF cm1(1) assms(5,6) cm1(2) assms(4)]
  show "fst (GetDBId C t') = Ok (NewDatabaseSystemIdentifier res)" .
  have "fst (GetSecondaryStreamArgs C t') = Ok (OldLatestCheckpointLocation res, NewDatabaseSystemIdentifier res)"
    if old: "OldLatestCheckpointLocation res \<noteq> []"
  proof -
    from u old have "SetLatestCheckpointLocation C (OldLatestCheckpointLocation res) s = (Ok (), u)" by (simp add: when_op_def)
    from writers_hold(2) [OF assms(1) this] obtain cm2 where cm2: "holds_notes (wx_env C) (ks_inst s) u cm2"
      "annotation cm2 ''latest-checkpoint-location'' = Some (OldLatestCheckpointLocation res)" by blast
    have "annotation cm0 ''latest-checkpoint-location'' = Some (OldLatestCheckpointLocation res)"
      using holds_notesD [OF cm2(1) _ cm0 cm2(2) assms(3)] later_refl [of u] i by (simp add: note_keys_def)
    with notes_read(3) [OF cm1(1) assms(5,6) cm1(2) assms(4)] cm1(3) assms(3) show ?thesis by simp
  qed
  then show "OldLatestCheckpointLocation res = [] \<or>
     fst (GetSecondaryStreamArgs C t') = Ok (OldLatestCheckpointLocation res, NewDatabaseSystemIdentifier res)" by blast
qed

text \<open>A server that starts with a map and keeps what is written under its name.\<close>

definition kept_map :: "event list \<Rightarrow> config_map" where
  "kept_map h = foldl (\<lambda>m ev. case ev of
       (RUpdate (KConfigMap cm), Inr _) \<Rightarrow>
         if m_namespace (cm_meta cm) = ''ns'' \<and> m_name (cm_meta cm) = ''db-config'' then cm else m
     | _ \<Rightarrow> m)
     \<lparr>cm_meta = (new_meta ''db-config'')\<lparr>m_namespace := ''ns'', m_annotations :=
         Some [(''config'', marshal (JObj sample_config))]\<rparr>, cm_data = []\<rparr> h"

definition keeping_map :: "event list \<Rightarrow> request \<Rightarrow> error + kobj" where
  "keeping_map h q = (case q of
     RUpdate x \<Rightarrow> Inr x
   | RGet _ _ _ _ \<Rightarrow> Inr (KConfigMap (kept_map h))
   | _ \<Rightarrow> Inl NotFound)"

lemma kept_map_untouched:
  "list_all (\<lambda>ev. \<not> config_write (sample v st) (fst ev)) es \<Longrightarrow> kept_map (h @ es) = kept_map h"
proof (induction es rule: rev_induct)
  case (snoc ev es)
  then show ?case
    by (cases ev; cases "fst ev")
      (auto simp: kept_map_def config_write_def config_named_def sample_defs cmName_def configCMName_def
        split: sum.splits kobj.splits)
qed simp

lemma kept_map_named: "config_named (sample v st) (kept_map h)"
proof (induction h rule: rev_induct)
  case (snoc ev h)
  then show ?case
    by (auto simp: kept_map_def config_named_def sample_defs cmName_def configCMName_def
        split: prod.splits request.splits sum.splits kobj.splits)
qed (simp add: kept_map_def config_named_def sample_defs cmName_def configCMName_def new_meta_def)

lemma keeping_map_law:
  assumes "\<And>h q. ke_api E h q = keeping_map h q"
  shows "keeps_notes E (sample v st)"
  unfolding keeps_notes_def
proof (intro conjI allI impI)
  show "config_named (sample v st) cm" if "ke_api E h (config_read (sample v st)) = Inr (KConfigMap cm)" for h cm
    using that kept_map_named by (auto simp: assms keeping_map_def config_read_def)
next
  fix h cm x es cm'
  assume named: "config_named (sample v st) cm" and es: "list_all (\<lambda>ev. \<not> config_write (sample v st) (fst ev)) es"
    and read: "ke_api E (h @ (RUpdate (KConfigMap cm), Inr x) # es) (config_read (sample v st)) = Inr (KConfigMap cm')"
  have "kept_map (h @ [(RUpdate (KConfigMap cm), Inr x)]) = cm"
    using named by (simp add: kept_map_def config_named_def sample_defs cmName_def configCMName_def)
  with kept_map_untouched [OF es, of "h @ [(RUpdate (KConfigMap cm), Inr x)]"] read
  have "cm' = cm" by (simp add: assms keeping_map_def config_read_def)
  then show "same_notes cm cm'" by (auto simp: same_notes_def list_all_iff split: option.split)
qed

text \<open>The secondaries' step of a later reconcile has asked for a job in between.\<close>

lemma notes_roundtrip_witness:
  "let C = (sample_ctx keeping_map)\<lparr>wx_env := (sample_env keeping_map)\<lparr>ke_f64 := sample_f64\<rparr>\<rparr>;
     s = sample_state (sample 15 (sample_status StateUpgradePrimary 15 17 []));
     res = \<lparr>OldLatestCheckpointLocation = ''0/3000028'', NewDatabaseSystemIdentifier = ''7''\<rparr>;
     t = snd (record_primary_result C res s); t' = after (wx_env C) (RGet JobKind ''ns'' ''db-sup-1'' None) t in
   fst (record_primary_result C res s) = Ok () \<and> fst (GetDBId C t') = Ok ''7'' \<and>
   fst (GetSecondaryStreamArgs C t') = Ok (''0/3000028'', ''7'')"
proof -
  let ?C = "(sample_ctx keeping_map)\<lparr>wx_env := (sample_env keeping_map)\<lparr>ke_f64 := sample_f64\<rparr>\<rparr>"
  let ?s = "sample_state (sample 15 (sample_status StateUpgradePrimary 15 17 []))"
  let ?r = "\<lparr>OldLatestCheckpointLocation = ''0/3000028'', NewDatabaseSystemIdentifier = ''7''\<rparr>"
  have law: "keeps_notes (wx_env ?C) (ks_inst ?s)"
    unfolding sample_state_def kstate.simps by (rule keeping_map_law) (simp add: sample_env_def)
  have "\<exists>c. resume_config sample_f64 (marshal (JObj sample_config)) = Some c"
    using sample_config_read by (simp add: resume_config_def)
  then have ok: "fst (record_primary_result ?C ?r ?s) = Ok ()"
    by (auto simp: record_primary_result_def SetLatestCheckpointLocation_def SetDBId_def bnd_run getConfigCM_after
        set_annotation_def annotation_def cm_keys keeping_map_def kept_map_def sample_defs config_read_def ret_run
        kupdate_def ask_after decode_as_def kube_types new_meta_def)
  then obtain t where t: "record_primary_result ?C ?r ?s = (Ok (), t)"
    by (cases "record_primary_result ?C ?r ?s") auto
  let ?t' = "after (wx_env ?C) (RGet JobKind ''ns'' ''db-sup-1'' None) t"
  have "keeps (same id) (record_primary_result ?C ?r)" by (intro eff_intro)
  from keepsD [OF this t] have "later (ks_inst ?s) t ?t'"
    by (simp add: later_def same_def config_write_def)
  moreover obtain cm where "ke_api (wx_env ?C) (ks_hist ?t') (config_read (ks_inst ?s)) = Inr (KConfigMap cm)"
    by (simp add: sample_env_def keeping_map_def config_read_def)
  moreover have "valid_utf8 ''0/3000028''" "valid_utf8 ''7''" by simp_all
  ultimately show ?thesis
    using notes_roundtrip [OF law, of "[]" ?r t ?t'] t by (simp add: Let_def)
qed

end
