(* ===== verification/Protocol.thy ===== *)
theory Protocol
  imports Image Api_Types
begin

section \<open>The protocol the persisted status follows\<close>

text \<open>
  An abstract specification of the operator: four fields of the status, and how one status
  update may change them. \<open>protocol_step v\<close> is the step a reconcile may persist when the user
  asks for version \<open>v\<close>. It names no request and no object of the cluster.
\<close>

record proto =
  pr_state :: pg_state
  pr_version :: int
  pr_target :: int
  pr_offered :: "int list"

definition proto_status :: "pp_status \<Rightarrow> proto" where
  "proto_status st = \<lparr>pr_state = st_state st, pr_version = st_version st,
     pr_target = st_upgrade_version st, pr_offered = st_upgrade_versions st\<rparr>"

abbreviation proto_of :: "patroni \<Rightarrow> proto" where
  "proto_of p \<equiv> proto_status (pp_status_of p)"

text \<open>The stage after a stage; \<open>None\<close> for a state that is no stage of an upgrade.\<close>

fun next_stage :: "pg_state \<Rightarrow> pg_state option" where
  "next_stage StateUpgradePreupgrade = Some StateUpgradePreupgradeScaleDown"
| "next_stage StateUpgradePreupgradeScaleDown = Some StateUpgradePreupgradeSync"
| "next_stage StateUpgradePreupgradeSync = Some StateUpgradeScaleDown"
| "next_stage StateUpgradeScaleDown = Some StateUpgradePrimary"
| "next_stage StateUpgradePrimary = Some StateUpgradeSecondaries"
| "next_stage StateUpgradeSecondaries = Some StateUpgradePrimaryMove"
| "next_stage StateUpgradePrimaryMove = Some StateUpgradePostupgrade"
| "next_stage StateUpgradePostupgrade = Some StateReady"
| "next_stage _ = None"

text \<open>
  What completing the current stage does: the move to the new data directory changes the
  version, the last stage ends the upgrade.
\<close>

definition advance :: "proto \<Rightarrow> proto" where
  "advance a = (case next_stage (pr_state a) of
       None \<Rightarrow> a\<lparr>pr_state := StateUpgradePreupgrade\<rparr>
     | Some st \<Rightarrow> a
         \<lparr>pr_state := st,
          pr_version := (if pr_state a = StateUpgradePrimaryMove then pr_target a else pr_version a),
          pr_target := (if st = StateReady then 0 else pr_target a)\<rparr>)"

inductive protocol_step :: "int \<Rightarrow> proto \<Rightarrow> proto \<Rightarrow> bool" for v :: int where
  stay: "pr_target a \<noteq> 0 \<Longrightarrow> protocol_step v a a"
| init: "pr_state a = StateUnset \<Longrightarrow> GetImage v \<noteq> None \<Longrightarrow>
    protocol_step v a (a\<lparr>pr_state := StateScaling, pr_version := v\<rparr>)"
| start: "pr_target a = 0 \<Longrightarrow> pr_state a = StateReady \<Longrightarrow> pr_version a \<noteq> v \<Longrightarrow>
    v \<in> set (pr_offered a) \<Longrightarrow> protocol_step v a (a\<lparr>pr_target := v\<rparr>)"
| progress: "pr_target a \<noteq> 0 \<Longrightarrow> protocol_step v a (advance a)"
| untouched: "pr_target a = 0 \<Longrightarrow> pr_state a \<noteq> StateReady \<or> pr_version a = v \<Longrightarrow>
    protocol_step v a a"
| scaling: "pr_target a = 0 \<Longrightarrow> pr_state a \<noteq> StateReady \<or> pr_version a = v \<Longrightarrow>
    GetImage (pr_version a) \<noteq> None \<Longrightarrow> protocol_step v a (a\<lparr>pr_state := StateScaling\<rparr>)"
| ready: "pr_target a = 0 \<Longrightarrow> pr_state a \<noteq> StateReady \<or> pr_version a = v \<Longrightarrow>
    GetImage (pr_version a) = Some im \<Longrightarrow>
    protocol_step v a (a\<lparr>pr_state := StateReady,
      pr_offered := image_UpgradeVersions im (pr_version a)\<rparr>)"

inductive_cases protocol_stepE: "protocol_step v a b"

text \<open>A new object, and whatever steps follow while the user changes the wanted version.\<close>

definition proto_new :: proto where
  "proto_new = \<lparr>pr_state = StateUnset, pr_version = 0, pr_target = 0, pr_offered = []\<rparr>"

inductive reachable :: "proto \<Rightarrow> bool" where
  new: "reachable proto_new"
| step: "reachable a \<Longrightarrow> protocol_step v a b \<Longrightarrow> reachable b"

subsection \<open>The invariant\<close>

definition supported :: "int \<Rightarrow> bool" where
  "supported v \<longleftrightarrow> GetImage v \<noteq> None"

definition in_upgrade :: "pg_state \<Rightarrow> bool" where
  "in_upgrade st \<longleftrightarrow> next_stage st \<noteq> None"

text \<open>The images offer at most one upgrade, so the offer that started an upgrade is the target.\<close>

definition proto_inv :: "proto \<Rightarrow> bool" where
  "proto_inv a \<longleftrightarrow>
     (pr_state a = StateUnset \<longrightarrow> a = proto_new) \<and>
     (pr_state a \<noteq> StateUnset \<longrightarrow> supported (pr_version a)) \<and>
     (pr_target a = 0 \<longrightarrow> pr_state a \<in> {StateUnset, StateScaling, StateReady}) \<and>
     (pr_target a \<noteq> 0 \<longrightarrow> supported (pr_target a) \<and> pr_offered a = [pr_target a] \<and>
        (pr_state a = StateReady \<or> in_upgrade (pr_state a)) \<and>
        (if pr_state a = StateUpgradePostupgrade then pr_version a = pr_target a
         else pr_version a < pr_target a)) \<and>
     pr_offered a \<in> {[], [15], [17]} \<and> (\<forall>w \<in> set (pr_offered a). pr_version a \<le> w)"

lemma supported_iff: "supported v \<longleftrightarrow> v \<in> {13, 15, 17}"
  using GetImage_dom by (auto simp: supported_def GetImage_simps)

lemma offers:
  "GetImage v = Some im \<Longrightarrow> image_UpgradeVersions im v =
     (if v = 13 then [15] else if v = 15 then [17] else [])"
  by (auto simp: GetImage_dom image_UpgradeVersions_def images_def)

lemma in_upgrade_cases:
  "in_upgrade st \<longleftrightarrow> st \<in> {StateUpgradePreupgrade, StateUpgradePreupgradeScaleDown,
     StateUpgradePreupgradeSync, StateUpgradeScaleDown, StateUpgradePrimary,
     StateUpgradeSecondaries, StateUpgradePrimaryMove, StateUpgradePostupgrade}"
  by (cases st) (simp_all add: in_upgrade_def)

lemma inv_advance:
  assumes "proto_inv a" and "pr_target a \<noteq> 0"
  shows "proto_inv (advance a)"
proof -
  have "pr_state a = StateReady \<or> in_upgrade (pr_state a)" using assms by (simp add: proto_inv_def)
  then consider "pr_state a = StateReady" | "pr_state a = StateUpgradePrimaryMove"
    | "pr_state a = StateUpgradePostupgrade"
    | st where "next_stage (pr_state a) = Some st" "in_upgrade st" "st \<noteq> StateUpgradePostupgrade"
        "pr_state a \<notin> {StateReady, StateUpgradePrimaryMove, StateUpgradePostupgrade}"
    by (auto simp: in_upgrade_cases)
  then show ?thesis
  proof cases
    case (4 st)
    then have "st \<noteq> StateReady" "st \<noteq> StateUnset" by (auto simp: in_upgrade_def)
    with 4 assms show ?thesis by (auto simp: proto_inv_def advance_def)
  qed (use assms in \<open>auto simp: proto_inv_def advance_def in_upgrade_def\<close>)
qed

lemma inv_step: "protocol_step v a b \<Longrightarrow> proto_inv a \<Longrightarrow> proto_inv b"
proof (induction rule: protocol_step.induct)
  case (init a)
  then show ?case by (auto simp: proto_inv_def proto_new_def supported_def)
next
  case (start a)
  then show ?case by (auto simp: proto_inv_def supported_iff)
next
  case (progress a)
  then show ?case by (simp add: inv_advance)
next
  case (ready a im)
  then show ?case
    using offers [OF ready(3)] GetImage_dom [of "pr_version a" im]
    by (auto simp: proto_inv_def supported_def)
qed (auto simp: proto_inv_def supported_def)

end
