(* ===== verification/Machine.thy ===== *)
theory Machine
  imports Effects Protocol
begin

section \<open>The reconciler implements the protocol\<close>

text \<open>
  From the contract every step of an upgrade keeps, to the steps \<open>Handle\<close> takes, to the status
  updates of a whole reconcile.
\<close>

subsection \<open>The \<open>upgradehandler\<close> interface\<close>

text \<open>
  What \<open>Handle\<close> relies on when it calls a handler: the handler stays within the requests of an
  upgrade; of the instance it changes only the count of ready replicas, apart from \<open>fin\<close>, the
  effect of a step that reports it is done. A handler that fails may leave anything behind,
  since the status is not written then.
\<close>

locale upgradehandler =
  fixes hdl :: "wctx \<Rightarrow> bool kop" and fin :: "patroni \<Rightarrow> patroni"
  assumes hdl_calls: "keeps (asks upgrade_request) (hdl C)"
    and hdl_done: "hdl C s = (Ok True, t) \<Longrightarrow> core (ks_inst t) = core (fin (ks_inst s))"
    and hdl_wait: "hdl C s = (Ok False, t) \<Longrightarrow> core (ks_inst t) = core (ks_inst s)"
    and hdl_panic: "hdl C s = (Panic, t) \<Longrightarrow> core (ks_inst t) = core (ks_inst s)"
begin

lemma contract:
  "hdl C s = (r, t) \<Longrightarrow> (\<forall>e. r \<noteq> Err e) \<Longrightarrow>
   core (ks_inst t) = core (if r = Ok True then fin (ks_inst s) else ks_inst s)"
  by (cases r) (auto dest: hdl_done hdl_wait hdl_panic intro: hdl_done hdl_wait hdl_panic)

end

fun handler_fin :: "handler \<Rightarrow> patroni \<Rightarrow> patroni" where
  "handler_fin PrimaryUpgradeMoveHandler p = upd_status (\<lambda>st. st\<lparr>st_version := st_upgrade_version st\<rparr>) p"
| "handler_fin _ p = p"

lemma quiet_handler:
  assumes "h \<noteq> PrimaryUpgradeMoveHandler"
  shows "upgradehandler (handler_handle h) (\<lambda>p. p)"
proof -
  have "keeps (same core) (handler_handle h C)" for C
    using assms by (intro handler_same) simp_all
  then have "core (ks_inst t) = core (ks_inst s)" if "handler_handle h C s = (r, t)" for C s r t
    using that by (fastforce dest: keepsD simp: same_def)
  then show ?thesis
    by unfold_locales (auto intro: handler_asks)
qed

interpretation preupgrade_h: upgradehandler preupgrade_handle "\<lambda>p. p"
  using quiet_handler [of PreupgradeHandler] by simp

interpretation preupgradeScaledown_h: upgradehandler preupgradeScaledown_handle "\<lambda>p. p"
  using quiet_handler [of PreupgradeScaledownHandler] by simp

interpretation preupgradeSync_h: upgradehandler preupgradeSync_handle "\<lambda>p. p"
  using quiet_handler [of PreupgradeSyncHandler] by simp

interpretation scaledown_h: upgradehandler scaledown_handle "\<lambda>p. p"
  using quiet_handler [of ScaledownHandler] by simp

interpretation primary_h: upgradehandler primary_handle "\<lambda>p. p"
  using quiet_handler [of PrimaryUpgradeHandler] by simp

interpretation secondary_h: upgradehandler secondary_handle "\<lambda>p. p"
  using quiet_handler [of SecondaryUpgradeHandler] by simp

interpretation postupgrade_h: upgradehandler postupgrade_handle "\<lambda>p. p"
  using quiet_handler [of PostupgradeHandler] by simp

text \<open>The move is the one step that changes the instance, and only when its job succeeded.\<close>

lemma keeps_id: "keeps (same (\<lambda>p. p)) m \<Longrightarrow> m s = (r, t) \<Longrightarrow> ks_inst t = ks_inst s"
  using keepsD [of "same (\<lambda>p. p)" m s r t] by (simp add: same_def)

lemmas job_block_same = keeps_id [OF found_same [OF client_same(1)]] keeps_id [OF cleanupJob_same]
  keeps_id [OF create_jobs_same(2)]

lemma not_Panic [op_inv]:
  "\<not> ask E q s = (Panic, t)" "\<not> decode_as g x s = (Panic, t)" "\<not> set_status f s = (Panic, t)"
  "\<not> inst s = (Panic, t)"
  by (auto simp: ask_run decode_as_def run_simps op_inv split: sum.splits option.splits)

lemma cleanupJob_not_Panic [op_inv]: "\<not> cleanupJob C j s = (Panic, t)"
  by (auto simp: cleanupJob_def kdelete_def when_op_def op_inv)

interpretation move_h: upgradehandler move_handle
  "\<lambda>p. upd_status (\<lambda>st. st\<lparr>st_version := st_upgrade_version st\<rparr>) p"
proof
  show "keeps (asks upgrade_request) (move_handle C)" for C
    using handler_asks [of PrimaryUpgradeMoveHandler] by simp
  show "core (ks_inst t) = core (upd_status (\<lambda>st. st\<lparr>st_version := st_upgrade_version st\<rparr>) (ks_inst s))"
    if "move_handle C s = (Ok True, t)" for C s t
    using that
    by (auto simp: move_handle_def op_inv set_status_run dest!: job_block_same)
  show "core (ks_inst t) = core (ks_inst s)" if "move_handle C s = (Ok False, t)" for C s t
    using that
    by (auto simp: move_handle_def op_inv set_status_run dest!: job_block_same)
  show "core (ks_inst t) = core (ks_inst s)" if "move_handle C s = (Panic, t)" for C s t
    using that
    by (auto simp: move_handle_def op_inv set_status_run dest!: job_block_same)
qed

lemma handler_contract:
  "handler_handle h C s = (r, t) \<Longrightarrow> (\<forall>e. r \<noteq> Err e) \<Longrightarrow>
   core (ks_inst t) = core (if r = Ok True then handler_fin h (ks_inst s) else ks_inst s)"
  by (cases h)
    (simp_all add: preupgrade_h.contract preupgradeScaledown_h.contract preupgradeSync_h.contract
      scaledown_h.contract primary_h.contract secondary_h.contract move_h.contract
      postupgrade_h.contract)

subsection \<open>\<open>Handle\<close>\<close>

definition put_proto :: "proto \<Rightarrow> patroni \<Rightarrow> patroni" where
  "put_proto a p = upd_status (\<lambda>st. st\<lparr>st_state := pr_state a, st_version := pr_version a,
     st_upgrade_version := pr_target a, st_upgrade_versions := pr_offered a\<rparr>) p"

lemma put_proto_of [simp]: "put_proto (proto_of p) p = p"
  by (simp add: put_proto_def proto_status_def)

lemma proto_of_put [simp]: "proto_of (put_proto a p) = a"
  by (simp add: put_proto_def proto_status_def)

lemma core_proto: "core p = core q \<Longrightarrow> proto_of p = proto_of q"
  using core_eq [of p q] by (simp add: proto_status_def)

lemma upgrademap_stage:
  "upgrademap st = None \<longleftrightarrow> next_stage st = None"
  "upgrademap st = Some step \<Longrightarrow> handler_name (us_handler step) = st \<and>
     next_stage st = Some (case us_next step of None \<Rightarrow> StateReady | Some h \<Rightarrow> handler_name h)"
  by (cases st; auto simp: upgrademap_def upgrade_handlers_def)+

lemma last_stage: "us_next step = None \<Longrightarrow> upgrademap st = Some step \<Longrightarrow>
    us_handler step = PostupgradeHandler"
  by (cases st; auto simp: upgrademap_def upgrade_handlers_def)

lemma ClearUpgradeAnnotations_not_Panic [op_inv]: "\<not> ClearUpgradeAnnotations C s = (Panic, t)"
  by (auto simp: ClearUpgradeAnnotations_def getConfigCM_def kget_def kupdate_def op_inv Let_def)

lemma GetSyncLeader_not_Panic [op_inv]: "\<not> GetSyncLeader C s = (Panic, t)"
  by (auto simp: GetSyncLeader_def kget_def op_inv)

lemma core_cong:
  assumes "core p = core q"
  shows "core (upd_status (\<lambda>st. st\<lparr>st_state := x\<rparr>) p) = core (upd_status (\<lambda>st. st\<lparr>st_state := x\<rparr>) q)"
    "core (upd_status (\<lambda>st. st\<lparr>st_state := x, st_upgrade_version := y\<rparr>) p) =
     core (upd_status (\<lambda>st. st\<lparr>st_state := x, st_upgrade_version := y\<rparr>) q)"
  using assms
  by (cases p; cases q; cases "pp_status_of p"; cases "pp_status_of q"; simp add: core_def)+

lemma handler_fin_name:
  "handler_fin h p = (if handler_name h = StateUpgradePrimaryMove
     then upd_status (\<lambda>st. st\<lparr>st_version := st_upgrade_version st\<rparr>) p else p)"
  by (cases h) simp_all

lemma advance_next:
  assumes "upgrademap (pp_state p) = Some step" and "us_next step = Some h"
  shows "put_proto (advance (proto_of p)) p =
    upd_status (\<lambda>st. st\<lparr>st_state := handler_name h\<rparr>) (handler_fin (us_handler step) p)"
proof -
  have "handler_name h \<noteq> StateReady" by (cases h) simp_all
  then show ?thesis
    using upgrademap_stage(2) [OF assms(1)] assms(2)
    by (auto simp: advance_def put_proto_def proto_status_def handler_fin_name)
qed

lemma advance_last:
  assumes "upgrademap (pp_state p) = Some step" and "us_next step = None"
  shows "put_proto (advance (proto_of p)) p =
    upd_status (\<lambda>st. st\<lparr>st_state := StateReady, st_upgrade_version := 0\<rparr>) p"
  using upgrademap_stage(2) [OF assms(1)] assms(2) last_stage [OF assms(2,1)]
  by (auto simp: advance_def put_proto_def proto_status_def)

lemma advance_unknown:
  assumes "upgrademap (pp_state p) = None"
  shows "put_proto (advance (proto_of p)) p =
    upd_status (\<lambda>st. st\<lparr>st_state := StateUpgradePreupgrade\<rparr>) p"
  using assms by (simp add: upgrademap_stage advance_def put_proto_def proto_status_def)

lemmas clear_same = keeps_id [OF cm_writers_same(4)]

lemma finish_run:
  assumes "bnd (bnd (set_status f) (\<lambda>_. ClearUpgradeAnnotations C)) (\<lambda>_. ret True) u = (Ok b, t)"
  shows "b \<and> ks_inst t = upd_status f (ks_inst u)"
proof -
  from assms have "b \<and> ClearUpgradeAnnotations C (u\<lparr>ks_inst := upd_status f (ks_inst u)\<rparr>) = (Ok (), t)"
    by (simp only: op_inv set_status_run) (elim exE conjE, simp)
  then show ?thesis by (auto dest: clear_same)
qed

lemma Handle_step:
  assumes "Handle C s = (r, t)"
  shows "case r of
      Ok b \<Rightarrow> core (ks_inst t) =
        core (if b then put_proto (advance (proto_of (ks_inst s))) (ks_inst s) else ks_inst s)
    | Panic \<Rightarrow> core (ks_inst t) = core (ks_inst s)
    | Err _ \<Rightarrow> True"
proof (cases "upgrademap (pp_state (ks_inst s))")
  case None
  with assms show ?thesis
    by (auto simp: Handle_def op_inv set_status_run advance_unknown bnd_run inst_run ret_run)
next
  case (Some step)
  with assms have run: "bnd (handler_handle (us_handler step) C) (\<lambda>done.
      if \<not> done then ret False
      else bnd (case us_next step of
               Some h \<Rightarrow> set_status (\<lambda>st. st\<lparr>st_state := handler_name h\<rparr>)
             | None \<Rightarrow> bnd (set_status (\<lambda>st. st\<lparr>st_state := StateReady, st_upgrade_version := 0\<rparr>))
                 (\<lambda>_. ClearUpgradeAnnotations C)) (\<lambda>_. ret True)) s = (r, t)"
    by (simp add: Handle_def bnd_run inst_run)
  show ?thesis
  proof (cases r)
    case (Ok b)
    with run obtain d u where u: "handler_handle (us_handler step) C s = (Ok d, u)"
      and rest: "(if \<not> d then ret False
      else bnd (case us_next step of
               Some h \<Rightarrow> set_status (\<lambda>st. st\<lparr>st_state := handler_name h\<rparr>)
             | None \<Rightarrow> bnd (set_status (\<lambda>st. st\<lparr>st_state := StateReady, st_upgrade_version := 0\<rparr>))
                 (\<lambda>_. ClearUpgradeAnnotations C)) (\<lambda>_. ret True)) u = (Ok b, t)"
      by (auto simp: bnd_Ok_inv)
    from handler_contract [OF u]
    have cu: "core (ks_inst u) = core (if d then handler_fin (us_handler step) (ks_inst s) else ks_inst s)"
      by simp
    show ?thesis
    proof (cases d)
      case False
      with rest cu Ok show ?thesis by (auto simp: ret_inv)
    next
      case True
      show ?thesis
      proof (cases "us_next step")
        case None
        then have "handler_fin (us_handler step) (ks_inst s) = ks_inst s"
          using last_stage [OF None Some] by simp
        with cu True have "core (ks_inst u) = core (ks_inst s)" by simp
        note core_cong(2) [OF this]
        moreover from rest True None have "bnd (bnd (set_status
            (\<lambda>st. st\<lparr>st_state := StateReady, st_upgrade_version := 0\<rparr>))
            (\<lambda>_. ClearUpgradeAnnotations C)) (\<lambda>_. ret True) u = (Ok b, t)"
          by simp
        then have "b \<and> ks_inst t = upd_status
            (\<lambda>st. st\<lparr>st_state := StateReady, st_upgrade_version := 0\<rparr>) (ks_inst u)"
          by (rule finish_run)
        ultimately show ?thesis
          using Ok advance_last [OF Some None] by simp
      next
        case (Some h)
        from rest True Some have "b" and "ks_inst t = upd_status (\<lambda>st. st
            \<lparr>st_state := handler_name h\<rparr>) (ks_inst u)"
          by (auto simp: op_inv set_status_run)
        with cu True Ok advance_next [OF \<open>upgrademap _ = _\<close> Some] show ?thesis
          using core_cong(1) [of "ks_inst u" "handler_fin (us_handler step) (ks_inst s)"] by simp
      qed
    qed
  next
    case (Err e)
    then show ?thesis by simp
  next
    case Panic
    with run have "handler_handle (us_handler step) C s = (Panic, t)"
      by (auto simp: op_inv)
    from handler_contract [OF this] Panic show ?thesis by simp
  qed
qed

subsection \<open>The reconcilers\<close>

definition identity :: "patroni \<Rightarrow> string \<times> string \<times> string \<times> pp_spec" where
  "identity p = (pp_namespace p, pp_name p, pp_uid p, pp_spec_of p)"

definition id_proto :: "patroni \<Rightarrow> (string \<times> string \<times> string \<times> pp_spec) \<times> proto" where
  "id_proto p = (identity p, proto_of p)"

lemma core_identity: "core p = core q \<Longrightarrow> identity p = identity q"
  by (cases p; cases q) (auto simp: core_def identity_def)

lemma identity_put [simp]: "identity (put_proto a p) = identity p"
  by (simp add: identity_def put_proto_def)

lemma for_each_append: "for_each (xs @ ys) f = bnd (for_each xs f) (\<lambda>_. for_each ys f)"
  by (induction xs) (simp_all add: bnd_assoc)

lemma bnd_parts:
  "bnd m f s = (r, t) \<Longrightarrow>
   (\<exists>r'. m s = (r', t)) \<or> (\<exists>x u. m s = (Ok x, u) \<and> f x u = (r, t))"
  by (auto simp: bnd_def split: prod.splits res.splits)

lemma reconcilers_split:
  "reconcilers = [pvc_Reconcile, secret_Reconcile, configmap_Reconcile, rbac_Reconcile,
     service_Reconcile] @ statefulset_Reconcile # [networkpolicy_Reconcile, pdb_Reconcile]"
  by (simp add: reconcilers_def)

lemma quiet_reconcilers:
  "keeps (same id_proto) (for_each [pvc_Reconcile, secret_Reconcile, configmap_Reconcile,
     rbac_Reconcile, service_Reconcile] (\<lambda>f. f C))"
  "keeps (same id_proto) (for_each [networkpolicy_Reconcile, pdb_Reconcile] (\<lambda>f. f C))"
  by (auto intro!: frame.eff_for_each eff_intro simp: id_proto_def identity_def proto_status_def)

text \<open>What a reconcile of the owned objects may make of the protocol's part of the status.\<close>

definition sts_outcome :: "image \<Rightarrow> patroni \<Rightarrow> patroni \<Rightarrow> bool" where
  "sts_outcome im p q \<longleftrightarrow> identity q = identity p \<and>
     (proto_of q = proto_of p \<or>
      proto_of q = (proto_of p)\<lparr>pr_state := StateScaling\<rparr> \<or>
      proto_of q = (proto_of p)\<lparr>pr_state := StateReady,
        pr_offered := image_UpgradeVersions im (pp_version p)\<rparr>)"

lemma statefulset_outcome:
  assumes "statefulset_Reconcile C s = (r, t)"
  shows "sts_outcome (wx_image C) (ks_inst s) (ks_inst t)"
proof -
  have quiet: "id_proto (ks_inst u) = id_proto (ks_inst s)" if "ReconcileSts C [] s = (x, u)" for x u
    using keepsD [OF ReconcileSts_same that, of id_proto]
    by (simp add: same_def id_proto_def identity_def proto_status_def)
  from bnd_parts [OF assms [unfolded statefulset_Reconcile_def]] show ?thesis
  proof (elim disjE exE conjE)
    fix r' assume "ReconcileSts C [] s = (r', t)"
    from quiet [OF this] show ?thesis by (simp add: sts_outcome_def id_proto_def)
  next
    fix sts u
    assume run: "ReconcileSts C [] s = (Ok sts, u)"
      and rest: "bnd inst (\<lambda>p. if sint (sts_ready sts) = int (length (pp_nodes p))
           then set_status (\<lambda>st. st\<lparr>st_state := StateReady, st_upgrade_versions :=
             image_UpgradeVersions (wx_image C) (pp_version p)\<rparr>)
           else set_status (\<lambda>st. st\<lparr>st_state := StateScaling\<rparr>)) u = (r, t)"
    from quiet [OF run] rest show ?thesis
      by (auto simp: sts_outcome_def id_proto_def identity_def proto_status_def bnd_run inst_run
          set_status_run split: if_splits)
  qed
qed

lemma reconcilers_outcome:
  assumes "for_each reconcilers (\<lambda>f. f C) s = (r, t)"
  shows "sts_outcome (wx_image C) (ks_inst s) (ks_inst t)"
proof -
  have pre: "id_proto (ks_inst u) = id_proto (ks_inst s)"
    if "for_each [pvc_Reconcile, secret_Reconcile, configmap_Reconcile, rbac_Reconcile,
      service_Reconcile] (\<lambda>f. f C) s = (x, u)" for x u
    using keepsD [OF quiet_reconcilers(1) that] by (simp add: same_def)
  have post: "id_proto (ks_inst u) = id_proto (ks_inst w)"
    if "for_each [networkpolicy_Reconcile, pdb_Reconcile] (\<lambda>f. f C) w = (x, u)" for x u w
    using keepsD [OF quiet_reconcilers(2) that] by (simp add: same_def)
  from bnd_parts [OF assms [unfolded reconcilers_split for_each_append]] show ?thesis
  proof (elim disjE exE conjE)
    fix x
    assume "for_each [pvc_Reconcile, secret_Reconcile, configmap_Reconcile, rbac_Reconcile,
        service_Reconcile] (\<lambda>f. f C) s = (x, t)"
    from pre [OF this] show ?thesis by (simp add: sts_outcome_def id_proto_def)
  next
    fix x u
    assume first: "for_each [pvc_Reconcile, secret_Reconcile, configmap_Reconcile, rbac_Reconcile,
        service_Reconcile] (\<lambda>f. f C) s = (Ok x, u)"
      and rest: "for_each (statefulset_Reconcile # [networkpolicy_Reconcile, pdb_Reconcile])
        (\<lambda>f. f C) u = (r, t)"
    from bnd_parts [OF rest [unfolded for_each.simps(2)]] obtain y w
      where w: "statefulset_Reconcile C u = (y, w)"
      and "w = t \<or> for_each [networkpolicy_Reconcile, pdb_Reconcile] (\<lambda>f. f C) w = (r, t)"
      unfolding for_each.simps(2) by blast
    with post have "id_proto (ks_inst t) = id_proto (ks_inst w)" by blast
    with pre [OF first] statefulset_outcome [OF w] show ?thesis
      by (auto simp: sts_outcome_def id_proto_def identity_def proto_status_def)
  qed
qed

subsection \<open>One reconcile takes one step\<close>

lemma body_step:
  assumes run: "reconcile_body C s = (r, t)" and "\<forall>e. r \<noteq> Err e"
    and im: "GetImage (pp_version (ks_inst s)) = Some (wx_image C)"
  shows "protocol_step (spec_version (pp_spec_of (ks_inst s))) (proto_of (ks_inst s)) (proto_of (ks_inst t))
    \<and> identity (ks_inst t) = identity (ks_inst s)"
proof -
  let ?p = "ks_inst s"
  note simps = proto_status_def
  consider (upgrade) "pp_upgrade_version ?p \<noteq> 0"
    | (start) "pp_upgrade_version ?p = 0" "pp_state ?p = StateReady"
        "pp_version ?p \<noteq> spec_version (pp_spec_of ?p)"
    | (owned) "pp_upgrade_version ?p = 0"
        "pp_state ?p \<noteq> StateReady \<or> pp_version ?p = spec_version (pp_spec_of ?p)"
    by blast
  then show ?thesis
  proof cases
    case upgrade
    with run have "Handle C s = (r, t)" by (simp add: reconcile_body_def bnd_run inst_run)
    from Handle_step [OF this] assms(2) have "core (ks_inst t) = core ?p \<or>
        core (ks_inst t) = core (put_proto (advance (proto_of ?p)) ?p)"
      by (auto split: res.splits if_splits)
    then have "(proto_of (ks_inst t) = proto_of ?p \<or> proto_of (ks_inst t) = advance (proto_of ?p))
        \<and> identity (ks_inst t) = identity ?p"
      by (metis core_identity core_proto identity_put proto_of_put)
    moreover have "pr_target (proto_of ?p) \<noteq> 0" using upgrade by (simp add: simps)
    note protocol_step.stay [OF this] protocol_step.progress [OF this]
    ultimately show ?thesis by metis
  next
    case start
    have same: "ks_inst u = ?p" if "GetSyncLeader C s = (x, u)" for x u
      using keeps_id [OF cm_readers_same(4) that] .
    from start run assms(2)
    have offered: "spec_version (pp_spec_of ?p) \<in> set (st_upgrade_versions (pp_status_of ?p))"
      and rest: "bnd (GetSyncLeader C) (\<lambda>_. bnd (set_status (\<lambda>st. st
          \<lparr>st_upgrade_version := spec_version (pp_spec_of ?p)\<rparr>)) (\<lambda>_. ret True)) s = (r, t)"
      by (auto simp: reconcile_body_def bnd_run inst_run fail_run split: if_splits)
    from rest assms(2) have "ks_inst t = upd_status (\<lambda>st. st
        \<lparr>st_upgrade_version := spec_version (pp_spec_of ?p)\<rparr>) ?p"
      by (cases r) (auto simp: op_inv set_status_run dest: same)
    then have "proto_of (ks_inst t) = (proto_of ?p)\<lparr>pr_target := spec_version (pp_spec_of ?p)\<rparr>"
      and "identity (ks_inst t) = identity ?p"
      by (simp_all add: simps identity_def)
    moreover have "protocol_step (spec_version (pp_spec_of ?p)) (proto_of ?p)
        ((proto_of ?p)\<lparr>pr_target := spec_version (pp_spec_of ?p)\<rparr>)"
      by (rule protocol_step.start) (use start offered in \<open>simp_all add: simps\<close>)
    ultimately show ?thesis by simp
  next
    case owned
    from owned run have "bnd (for_each reconcilers (\<lambda>f. f C)) (\<lambda>_. ret False) s = (r, t)"
      by (auto simp: reconcile_body_def bnd_run inst_run)
    from bnd_parts [OF this] obtain x where "for_each reconcilers (\<lambda>f. f C) s = (x, t)"
      by (auto simp: ret_inv)
    from reconcilers_outcome [OF this] have out: "sts_outcome (wx_image C) ?p (ks_inst t)" .
    have t0: "pr_target (proto_of ?p) = 0"
        "pr_state (proto_of ?p) \<noteq> StateReady \<or> pr_version (proto_of ?p) = spec_version (pp_spec_of ?p)"
        "GetImage (pr_version (proto_of ?p)) = Some (wx_image C)"
      using owned im by (simp_all add: simps)
    from out t0 protocol_step.untouched [OF t0(1,2)] protocol_step.scaling [OF t0(1,2)]
      protocol_step.ready [OF t0]
    show ?thesis by (auto simp: sts_outcome_def) (simp_all add: simps)
  qed
qed

subsection \<open>Properties of \<open>Handle\<close> and of the reconcilers\<close>

lemma Handle_fixed: "keeps (same (\<lambda>p. (identity p, pp_volumes p))) (Handle C)"
  unfolding Handle_def
  by (intro eff_intro handler_same) (simp_all add: identity_def)

text \<open>
  C6. \<open>Handle\<close> either waits, leaving everything of the instance but the count of ready replicas
  as it was, or advances it by exactly one stage, with the version changed by the move stage
  only and the target cleared by the last stage only; a panic changes nothing either. An error
  can leave a half-made change in memory, but never in the instance's identity, specification
  or list of volumes.
\<close>

theorem handle_advances:
  "case Handle C s of
     (Ok requeue, t) \<Rightarrow> core (ks_inst t) =
       core (if requeue then put_proto (advance (proto_of (ks_inst s))) (ks_inst s) else ks_inst s)
   | (Panic, t) \<Rightarrow> core (ks_inst t) = core (ks_inst s)
   | (Err e, t) \<Rightarrow> identity (ks_inst t) = identity (ks_inst s) \<and>
       pp_volumes (ks_inst t) = pp_volumes (ks_inst s)"
proof -
  obtain r t where run: "Handle C s = (r, t)" by fastforce
  from Handle_step [OF run] keepsD [OF Handle_fixed run] show ?thesis
    by (simp add: run same_def split: res.splits)
qed

lemma asks_drop:
  assumes "keeps (asks P) m"
  shows "case m s of (r, t) \<Rightarrow> list_all (\<lambda>ev. P (fst ev)) (drop (length (ks_hist s)) (ks_hist t))"
proof -
  obtain r t where "m s = (r, t)" by fastforce
  with keeps_asks_hist [OF assms this] show ?thesis by auto
qed

text \<open>
  C7. Whatever stage an upgrade is in and whatever the cluster answers, a step of it reads and
  writes only config maps, services, stateful sets and jobs, and the logs of pods; it deletes
  only jobs and stateful sets. In particular it never touches a volume claim, the secret or a
  role: no step can lose the data the upgrade works on.
\<close>

theorem handle_requests:
  "case Handle C s of (r, t) \<Rightarrow>
     list_all (\<lambda>ev. upgrade_request (fst ev)) (drop (length (ks_hist s)) (ks_hist t))"
  by (rule asks_drop [OF Handle_asks])

lemma for_each_reconcilers_asks: "keeps (asks owned_request) (for_each reconcilers (\<lambda>f. f C))"
  by (intro calls.eff_for_each reconcilers_asks)

text \<open>
  C32. Outside an upgrade, bringing the owned objects to the desired state never deletes or
  patches anything but volume claims, never updates a claim otherwise, and never touches a job
  or another instance.
\<close>

theorem reconcilers_requests:
  "case for_each reconcilers (\<lambda>f. f C) s of (r, t) \<Rightarrow>
     list_all (\<lambda>ev. owned_request (fst ev)) (drop (length (ks_hist s)) (ks_hist t))"
  by (rule asks_drop [OF for_each_reconcilers_asks])

end
