(* ===== verification/Refinement.thy ===== *)
theory Refinement
  imports Machine Samples
begin

section \<open>A whole reconcile, and a sequence of them\<close>

text \<open>
  From the steps a reconcile takes to the status updates it sends, and from one reconcile to any
  sequence of them: the stored status follows the protocol.
\<close>

subsection \<open>Status updates as protocol steps\<close>

text \<open>
  \<open>seen\<close> is the instance as the API server last returned it; a status update is right if it
  takes one step of the protocol from there, for the version the user asked for in it, and
  changes nothing else that identifies the instance.
\<close>

definition seen :: "patroni option \<Rightarrow> event \<Rightarrow> patroni option" where
  "seen cur ev = (case ev of
       (RGet PatroniKind _ _ _, Inr (KPatroni p)) \<Rightarrow> Some p
     | (RStatusUpdate _, Inr (KPatroni p)) \<Rightarrow> Some p
     | _ \<Rightarrow> cur)"

definition update_ok :: "patroni option \<Rightarrow> request \<Rightarrow> bool" where
  "update_ok cur q = (case q of
       RStatusUpdate p \<Rightarrow> (case cur of
           None \<Rightarrow> False
         | Some c \<Rightarrow> identity p = identity c \<and>
             protocol_step (spec_version (pp_spec_of c)) (proto_of c) (proto_of p))
     | _ \<Rightarrow> True)"

fun updates_ok :: "patroni option \<Rightarrow> event list \<Rightarrow> bool" where
  "updates_ok cur [] \<longleftrightarrow> True"
| "updates_ok cur (ev # es) \<longleftrightarrow> update_ok cur (fst ev) \<and> updates_ok (seen cur ev) es"

definition tracked :: "patroni option \<Rightarrow> kstate \<Rightarrow> patroni option \<Rightarrow> kstate \<Rightarrow> bool" where
  "tracked cur s cur' t \<longleftrightarrow>
     (\<exists>es. ks_hist t = ks_hist s @ es \<and> updates_ok cur es \<and> foldl seen cur es = cur')"

lemma updates_ok_append:
  "updates_ok cur (es @ fs) \<longleftrightarrow> updates_ok cur es \<and> updates_ok (foldl seen cur es) fs"
  by (induction es arbitrary: cur) auto

lemma tracked_trans: "tracked a s b t \<Longrightarrow> tracked b t c u \<Longrightarrow> tracked a s c u"
  by (auto simp: tracked_def updates_ok_append)

lemma tracked_refl: "ks_hist t = ks_hist s \<Longrightarrow> tracked a s a t"
  by (simp add: tracked_def exI [of _ "[]"])

definition foreign :: "request \<Rightarrow> bool" where
  "foreign q \<longleftrightarrow> upgrade_request q \<or> owned_request q"

lemma foreign_seen: "foreign (fst ev) \<Longrightarrow> seen cur ev = cur"
  by (cases ev; cases "fst ev")
    (auto simp: foreign_def seen_def split: kind.splits kobj.splits sum.splits)

lemma foreign_ok: "foreign q \<Longrightarrow> update_ok cur q"
  by (cases q) (auto simp: foreign_def update_ok_def)

lemma foreign_events:
  "list_all (\<lambda>ev. foreign (fst ev)) es \<Longrightarrow> updates_ok cur es \<and> foldl seen cur es = cur"
  by (induction es arbitrary: cur) (auto simp: foreign_seen foreign_ok)

lemma foreign_tracked: "keeps (asks foreign) m \<Longrightarrow> m s = (r, t) \<Longrightarrow> tracked cur s cur t"
  using foreign_events by (fastforce simp: tracked_def dest: keeps_asks_hist)

lemma reconcile_body_asks: "keeps (asks foreign) (reconcile_body C)"
proof -
  have "keeps (asks foreign) (Handle C)"
    using Handle_asks by (rule asks_mono) (simp add: foreign_def)
  moreover have "keeps (asks foreign) (f C)" if "f \<in> set reconcilers" for f
    using reconcilers_asks [OF that] by (rule asks_mono) (simp add: foreign_def)
  ultimately show ?thesis
    unfolding reconcile_body_def by (intro eff_intro) (simp_all add: foreign_def)
qed

lemma status_update_run:
  assumes "status_update E s = (x, t)"
    and "update_ok cur (RStatusUpdate (ks_inst s))"
  shows "\<exists>cur'. tracked cur s cur' t \<and> (x = Ok () \<longrightarrow> cur' = Some (ks_inst t))"
  using assms
  by (auto simp: status_update_def tracked_def seen_def run_simps unwrap_patroni_def
      set_inst_def split: sum.splits kobj.splits)

lemma initialize_run:
  assumes "initialize E s = (x, t)"
  shows "\<exists>cur'. tracked (Some (ks_inst s)) s cur' t \<and> (x = Ok () \<longrightarrow> cur' = Some (ks_inst t))"
proof (cases "pp_state (ks_inst s) = StateUnset \<and> GetImage (spec_version (pp_spec_of (ks_inst s))) \<noteq> None")
  case True
  let ?v = "spec_version (pp_spec_of (ks_inst s))"
  let ?s = "s\<lparr>ks_inst := upd_status (\<lambda>st. st\<lparr>st_version := ?v, st_state := StateScaling,
    st_volumes := []\<rparr>) (ks_inst s)\<rparr>"
  have "protocol_step ?v (proto_of (ks_inst s))
      ((proto_of (ks_inst s))\<lparr>pr_state := StateScaling, pr_version := ?v\<rparr>)"
    by (rule protocol_step.init) (use True in \<open>simp_all add: proto_status_def\<close>)
  then have "update_ok (Some (ks_inst s)) (RStatusUpdate (ks_inst ?s))"
    by (simp add: update_ok_def identity_def proto_status_def)
  moreover from True assms have "status_update E ?s = (x, t)"
    by (auto simp: initialize_def bnd_run inst_run set_status_run)
  ultimately show ?thesis
    using status_update_run [of E ?s x t "Some (ks_inst s)"] by (simp add: tracked_def)
next
  case False
  with assms have "t = s" by (auto simp: initialize_def run_simps split: if_splits)
  then show ?thesis by (auto intro!: exI tracked_refl)
qed

lemma deferred_ends:
  assumes "deferred_update E m s = (r, t)" and "m s = (x, u)"
  obtains (error) e where "x = Err e" "r = Err e" "t = u"
    | (update) y where "\<forall>e. x \<noteq> Err e" "status_update E u = (y, t)"
proof (cases x)
  case (Ok z)
  with assms have "bnd (status_update E) (\<lambda>_. ret z) u = (r, t)" by (simp add: deferred_update_def)
  then have "\<exists>y. status_update E u = (y, t)" by (cases r) (auto simp: op_inv)
  with Ok update show ?thesis by blast
next
  case (Err e)
  with assms error [OF Err] show ?thesis by (simp add: deferred_update_def)
next
  case Panic
  with assms have "status_update E u = (fst (status_update E u), t)"
    by (simp add: deferred_update_def prod_eq_iff)
  with Panic update show ?thesis by blast
qed

lemma deferred_run:
  assumes "deferred_update E (reconcile_body C) s = (r, t)"
    and "GetImage (pp_version (ks_inst s)) = Some (wx_image C)"
  shows "\<exists>cur'. tracked (Some (ks_inst s)) s cur' t"
proof -
  obtain x u where body: "reconcile_body C s = (x, u)" by fastforce
  have early: "tracked (Some (ks_inst s)) s (Some (ks_inst s)) u"
    using foreign_tracked [OF reconcile_body_asks body] .
  from assms(1) body show ?thesis
  proof (cases rule: deferred_ends)
    case error
    with early show ?thesis by blast
  next
    case (update y)
    then have "update_ok (Some (ks_inst s)) (RStatusUpdate (ks_inst u))"
      using body_step [OF body _ assms(2)] by (simp add: update_ok_def)
    from status_update_run [OF update(2) this] early show ?thesis
      by (blast intro: tracked_trans)
  qed
qed

text \<open>
  A reconcile is composed of the request for the instance, the initialisation and the body. So
  any relation between histories that composes, and that these keep, holds of all of it.
\<close>

lemma Reconcile_by:
  assumes run: "Reconcile E ns n s = (r, t)"
    and refl: "\<And>cur s t. ks_hist t = ks_hist s \<Longrightarrow> T cur s cur t"
    and trans: "\<And>a b c s t u. T a s b t \<Longrightarrow> T b t c u \<Longrightarrow> T a s c u"
    and asked: "\<And>s t a. ks_hist t = ks_hist s @ [(RGet PatroniKind ns n None, a)] \<Longrightarrow>
      T None s (seen None (RGet PatroniKind ns n None, a)) t"
    and init: "\<And>s x t. initialize E s = (x, t) \<Longrightarrow>
      \<exists>cur'. T (Some (ks_inst s)) s cur' t \<and> (x = Ok () \<longrightarrow> cur' = Some (ks_inst t))"
    and body: "\<And>C s. wx_env C = E \<Longrightarrow> GetImage (pp_version (ks_inst s)) = Some (wx_image C) \<Longrightarrow>
      deferred_update E (reconcile_body C) s = (r, t) \<Longrightarrow> \<exists>cur'. T (Some (ks_inst s)) s cur' t"
  shows "\<exists>cur'. T None s cur' t"
proof -
  obtain a where a: "ke_api E (ks_hist s) (RGet PatroniKind ns n None) = a" by simp
  let ?u = "s\<lparr>ks_hist := ks_hist s @ [(RGet PatroniKind ns n None, a)]\<rparr>"
  show ?thesis
  proof (cases "\<exists>p. a = Inr (KPatroni p) \<and> \<not> spec_ignore (pp_spec_of p)")
    case False
    with run a have "ks_hist t = ks_hist ?u"
      by (auto simp: Reconcile_def get_instance_def run_simps unwrap_patroni_def set_inst_def
          split: sum.splits kobj.splits if_splits)
    then show ?thesis using asked [of t s a] by auto
  next
    case True
    then obtain p where p: "a = Inr (KPatroni p)" "\<not> spec_ignore (pp_spec_of p)" by blast
    let ?w = "?u\<lparr>ks_inst := p\<rparr>"
    have get: "T None s (Some p) ?w"
      using p asked [of ?w s a] by (simp add: seen_def)
    from p a run have rest: "bnd (initialize E) (\<lambda>_. bnd inst (\<lambda>p. bnd (of_sum (New E p))
        (\<lambda>C. deferred_update E (reconcile_body C)))) ?w = (r, t)"
      by (simp add: Reconcile_def get_instance_def found_def attempt_run bnd_run ask_run
          decode_as_def unwrap_patroni_def ret_run set_inst_def modify_run)
    from bnd_parts [OF rest] show ?thesis
    proof (elim disjE exE conjE)
      fix x assume "initialize E ?w = (x, t)"
      from init [OF this] get show ?thesis by (auto intro: trans)
    next
      fix x v
      assume initialized: "initialize E ?w = (Ok x, v)"
        and "bnd inst (\<lambda>p. bnd (of_sum (New E p)) (\<lambda>C. deferred_update E (reconcile_body C))) v = (r, t)"
      then consider "t = v"
        | C where "wx_env C = E" "GetImage (pp_version (ks_inst v)) = Some (wx_image C)"
            "deferred_update E (reconcile_body C) v = (r, t)"
        using that(2) [of "\<lparr>wx_env = E, wx_image = the (GetImage (pp_version (ks_inst v)))\<rparr>"]
        by (cases "GetImage (pp_version (ks_inst v))")
          (auto simp: New_def bnd_run inst_run ret_run fail_run)
      moreover from init [OF initialized] get have "T None s (Some (ks_inst v)) v"
        by (auto intro: trans)
      ultimately show ?thesis
      proof cases
        case 2
        from body [OF 2] \<open>T None s _ v\<close> show ?thesis by (auto intro: trans)
      qed blast
    qed
  qed
qed

lemma Reconcile_tracked:
  assumes "Reconcile E ns n s = (r, t)"
  shows "\<exists>cur'. tracked None s cur' t"
  by (rule Reconcile_by [OF assms tracked_refl tracked_trans _ initialize_run deferred_run])
    (simp_all add: tracked_def update_ok_def)

text \<open>
  C1. Every status update a reconcile sends, whatever the cluster answers in between and
  however the reconcile ends, takes exactly one step of the protocol from the instance the API
  server last returned, for the version the user wants in it, and keeps the instance's identity
  and specification. The reconciler refines the protocol.
\<close>

theorem reconcile_refines_protocol:
  "case Reconcile E ns n s of (r, t) \<Rightarrow>
     ks_hist t = ks_hist s @ drop (length (ks_hist s)) (ks_hist t) \<and>
     updates_ok None (drop (length (ks_hist s)) (ks_hist t))"
proof -
  obtain r t where run: "Reconcile E ns n s = (r, t)" by fastforce
  with Reconcile_tracked [OF run] show ?thesis by (auto simp: tracked_def)
qed

subsection \<open>The operator's whole life\<close>

text \<open>
  Any number of reconciles, each possibly by a fresh process in a changed environment; only the
  API server's store connects them. \<open>store\<close> is the status the server keeps, \<open>server_ok\<close> says it
  behaves as a store: it returns the status it keeps and stores what it acknowledges. Users may
  change the specification at any time.
\<close>

inductive operator_history :: "event list \<Rightarrow> bool" where
  start: "operator_history []"
| reconcile: "operator_history h \<Longrightarrow> Reconcile E ns n \<lparr>ks_inst = p, ks_hist = h\<rparr> = (r, t) \<Longrightarrow>
    operator_history (ks_hist t)"

definition store :: "pp_status \<Rightarrow> event \<Rightarrow> pp_status" where
  "store st ev = (case ev of (RStatusUpdate p, Inr _) \<Rightarrow> pp_status_of p | _ \<Rightarrow> st)"

definition answer_ok :: "pp_status \<Rightarrow> event \<Rightarrow> bool" where
  "answer_ok st ev = (case ev of
       (RGet PatroniKind _ _ _, Inr x) \<Rightarrow> (case x of KPatroni p \<Rightarrow> pp_status_of p = st | _ \<Rightarrow> False)
     | (RStatusUpdate p, Inr x) \<Rightarrow>
         (case x of KPatroni q \<Rightarrow> pp_status_of q = pp_status_of p | _ \<Rightarrow> False)
     | _ \<Rightarrow> True)"

fun server_ok :: "pp_status \<Rightarrow> event list \<Rightarrow> bool" where
  "server_ok st [] \<longleftrightarrow> True"
| "server_ok st (ev # es) \<longleftrightarrow> answer_ok st ev \<and> server_ok (store st ev) es"

lemma server_ok_append:
  "server_ok st (es @ fs) \<longleftrightarrow> server_ok st es \<and> server_ok (foldl store st es) fs"
  by (induction es arbitrary: st) auto

text \<open>One event: what the server keeps moves by one protocol step, or not at all.\<close>

definition in_step :: "patroni option \<Rightarrow> pp_status \<Rightarrow> bool" where
  "in_step cur st \<longleftrightarrow> (case cur of None \<Rightarrow> True | Some c \<Rightarrow> pp_status_of c = st)"

lemma event_step:
  assumes "update_ok cur (fst ev)" and "answer_ok st ev" and "in_step cur st"
  shows "in_step (seen cur ev) (store st ev)"
    and "store st ev = st \<or> (\<exists>v. protocol_step v (proto_status st) (proto_status (store st ev)))"
  using assms
  by (cases ev; cases "fst ev";
      auto simp: in_step_def seen_def store_def answer_ok_def update_ok_def
        split: option.splits sum.splits kobj.splits kind.splits)+

lemma history_reachable:
  assumes "updates_ok cur es" and "server_ok st es" and "in_step cur st"
    and "reachable (proto_status st)"
  shows "reachable (proto_status (foldl store st es))"
  using assms
proof (induction es arbitrary: cur st)
  case (Cons ev es)
  from Cons.prems have ev: "update_ok cur (fst ev)" "answer_ok st ev" "in_step cur st"
    by simp_all
  from event_step [OF ev] Cons.prems(4) have "reachable (proto_status (store st ev))"
    by (auto intro: reachable.step)
  with Cons.IH [of "seen cur ev" "store st ev"] Cons.prems event_step(1) [OF ev]
  show ?case by simp
qed simp

lemma operator_reachable:
  "operator_history h \<Longrightarrow> server_ok new_status h \<Longrightarrow> reachable (proto_status (foldl store new_status h))"
proof (induction rule: operator_history.induct)
  case start
  then show ?case
    using reachable.new by (simp add: proto_status_def new_status_def proto_new_def)
next
  case (reconcile h E ns n p r t)
  obtain es where es: "ks_hist t = h @ es" "updates_ok None es"
    using Reconcile_tracked [OF reconcile(2)] by (auto simp: tracked_def)
  let ?st = "foldl store new_status h"
  have ok: "server_ok new_status h" "server_ok ?st es"
    using reconcile.prems by (simp_all add: es(1) server_ok_append)
  have "reachable (proto_status (foldl store ?st es))"
    by (rule history_reachable [OF es(2) ok(2)]) (simp_all add: in_step_def reconcile.IH ok(1))
  then show ?case by (simp add: es(1))
qed

lemma reachable_inv: "reachable a \<Longrightarrow> proto_inv a"
proof (induction rule: reachable.induct)
  case new
  show ?case by (simp add: proto_inv_def proto_new_def)
next
  case (step a v b)
  then show ?case by (blast intro: inv_step)
qed

lemma inv_status:
  assumes "proto_inv (proto_status st)"
  shows "(if st_state st = StateUnset then proto_status st = proto_new
     else st_version st \<in> {13, 15, 17}) \<and>
    (if st_upgrade_version st = 0 then st_state st \<in> {StateUnset, StateScaling, StateReady}
     else st_upgrade_version st \<in> {13, 15, 17} \<and>
       (st_state st = StateReady \<or> in_upgrade (st_state st)) \<and>
       (if st_state st = StateUpgradePostupgrade then st_version st = st_upgrade_version st
        else st_version st < st_upgrade_version st))"
  using assms unfolding proto_inv_def proto_status_def supported_iff by (auto split: if_splits)

text \<open>
  C2. In whatever way the operator's reconciles interleave with the user's edits: the status
  the API server keeps is either untouched or runs a supported version; an upgrade that is
  recorded leads strictly upwards to a supported version until the move has made that version
  the running one, with only the last stage left; without an upgrade recorded the cluster is
  scaling or ready, never inside a stage.
\<close>

theorem status_invariant:
  assumes "operator_history h" and "server_ok new_status h"
  shows "let st = foldl store new_status h in
    (if st_state st = StateUnset then proto_status st = proto_new
     else st_version st \<in> {13, 15, 17}) \<and>
    (if st_upgrade_version st = 0 then st_state st \<in> {StateUnset, StateScaling, StateReady}
     else st_upgrade_version st \<in> {13, 15, 17} \<and>
       (st_state st = StateReady \<or> in_upgrade (st_state st)) \<and>
       (if st_state st = StateUpgradePostupgrade then st_version st = st_upgrade_version st
        else st_version st < st_upgrade_version st))"
  unfolding Let_def
  by (rule inv_status [OF reachable_inv [OF operator_reachable [OF assms]]])

text \<open>What happens to a new instance when the API server then stops answering.\<close>

definition first_history :: "event list" where
  "first_history = ks_hist (snd (Reconcile (sample_env (status_only (sample 15 new_status))) ''ns'' ''db''
     (sample_state (sample 15 new_status))))"

lemmas reconcile_run = Reconcile_def get_instance_def initialize_def status_update_def
  unwrap_patroni_def set_inst_def deferred_update_def reconcile_body_def New_def GetImage_simps

lemma first_history_eq:
  "first_history =
    (let p = sample 15 new_status; q = sample 15 (new_status\<lparr>st_version := 15, st_state := StateScaling\<rparr>)
     in [(RGet PatroniKind ''ns'' ''db'' None, Inr (KPatroni p)),
         (RStatusUpdate q, Inr (KPatroni q)),
         (RListPVCs ''ns'' (CommonLabels q), Inl (ApiError ''down''))])"
  by (simp add: first_history_def reconcile_run reconcilers_def pvc_Reconcile_def list_pvcs_def
      ListOption_def CommonLabels_def Let_def run_simps sample_defs new_status_def)

lemma first_history_ok: "operator_history first_history" "server_ok new_status first_history"
proof -
  have "operator_history (ks_hist (snd (Reconcile (sample_env (status_only (sample 15 new_status)))
      ''ns'' ''db'' \<lparr>ks_inst = sample 15 new_status, ks_hist = []\<rparr>)))"
    using operator_history.reconcile [OF operator_history.start prod.collapse [symmetric]] .
  then show "operator_history first_history"
    by (simp add: first_history_def sample_state_def)
  show "server_ok new_status first_history"
    by (simp add: first_history_eq Let_def answer_ok_def store_def sample_def)
qed

lemma status_invariant_witness:
  "(let st = foldl store new_status first_history in
    (if st_state st = StateUnset then proto_status st = proto_new
     else st_version st \<in> {13, 15, 17}) \<and>
    (if st_upgrade_version st = 0 then st_state st \<in> {StateUnset, StateScaling, StateReady}
     else st_upgrade_version st \<in> {13, 15, 17} \<and>
       (st_state st = StateReady \<or> in_upgrade (st_state st)) \<and>
       (if st_state st = StateUpgradePostupgrade then st_version st = st_upgrade_version st
        else st_version st < st_upgrade_version st))) \<and>
   st_version (foldl store new_status first_history) = 15"
proof
  show "st_version (foldl store new_status first_history) = 15"
    by (simp add: first_history_eq Let_def store_def sample_def)
qed (rule status_invariant [OF first_history_ok])

subsection \<open>How the version and the target of an upgrade move\<close>

definition version_move :: "pp_status \<Rightarrow> pp_status \<Rightarrow> bool" where
  "version_move st st' \<longleftrightarrow>
     (st_version st' = st_version st \<or>
      st_state st = StateUnset \<and> st_state st' = StateScaling \<and> st_version st' \<in> {13, 15, 17} \<or>
      st_state st = StateUpgradePrimaryMove \<and> st_version st < st_version st' \<and>
        st_version st' = st_upgrade_version st) \<and>
     (st_upgrade_version st' = st_upgrade_version st \<or>
      st_state st = StateReady \<and> st_upgrade_version st = 0 \<and> st_version st < st_upgrade_version st' \<or>
      st_state st = StateUpgradePostupgrade \<and> st_state st' = StateReady \<and> st_upgrade_version st' = 0)"

fun version_moves :: "pp_status \<Rightarrow> event list \<Rightarrow> bool" where
  "version_moves st [] \<longleftrightarrow> True"
| "version_moves st (ev # es) \<longleftrightarrow> version_move st (store st ev) \<and> version_moves (store st ev) es"

lemma version_moves_append:
  "version_moves st (es @ fs) \<longleftrightarrow> version_moves st es \<and> version_moves (foldl store st es) fs"
  by (induction es arbitrary: st) auto

lemma next_stage_Ready: "next_stage st = Some StateReady \<longleftrightarrow> st = StateUpgradePostupgrade"
  by (cases st) simp_all

lemma step_version_move:
  assumes "protocol_step v (proto_status st) (proto_status st')" and "proto_inv (proto_status st)"
  shows "version_move st st'"
  using assms(1)
proof (cases rule: protocol_step.cases)
  case init
  then show ?thesis
    using assms(2) supported_iff [of v]
    by (auto simp: version_move_def proto_status_def proto_inv_def proto_new_def supported_def)
next
  case start
  then have "st_version st \<le> v" using assms(2) by (auto simp: proto_status_def proto_inv_def)
  with start show ?thesis by (auto simp: version_move_def proto_status_def)
next
  case progress
  then show ?thesis
    using assms(2) next_stage_Ready [of "st_state st"]
    by (auto simp: version_move_def proto_status_def advance_def proto_inv_def
        split: option.splits if_splits)
qed (auto simp: version_move_def proto_status_def)

lemma history_version_moves:
  assumes "updates_ok cur es" and "server_ok st es" and "in_step cur st"
    and "reachable (proto_status st)"
  shows "version_moves st es"
  using assms
proof (induction es arbitrary: cur st)
  case (Cons ev es)
  from Cons.prems have ev: "update_ok cur (fst ev)" "answer_ok st ev" "in_step cur st"
    by simp_all
  have "version_move st (store st ev)" and "reachable (proto_status (store st ev))"
    using event_step(2) [OF ev] Cons.prems(4) step_version_move reachable_inv
    by (auto intro: reachable.step simp: version_move_def)
  with Cons.IH [of "seen cur ev" "store st ev"] Cons.prems event_step(1) [OF ev]
  show ?case by simp
qed simp

text \<open>
  C3. Over the operator's whole life the version in the status never goes down. It changes in
  two ways only: a new instance gets the supported version the user asked for, and the move
  stage raises it to the target recorded when the upgrade began. That target is set only on a
  ready cluster, above the running version, and stays the same until the last stage clears it,
  whatever version the user asks for in the meantime.
\<close>

theorem versions_move_up:
  assumes "operator_history h" and "server_ok new_status h"
  shows "version_moves new_status h"
  using assms
proof (induction rule: operator_history.induct)
  case (reconcile h E ns n p r t)
  obtain es where es: "ks_hist t = h @ es" "updates_ok None es"
    using Reconcile_tracked [OF reconcile(2)] by (auto simp: tracked_def)
  with reconcile.prems have ok: "server_ok new_status h" "server_ok (foldl store new_status h) es"
    by (simp_all add: server_ok_append)
  from history_version_moves [OF es(2) ok(2)] operator_reachable [OF reconcile(1) ok(1)]
    reconcile.IH [OF ok(1)]
  show ?case by (simp add: es(1) version_moves_append in_step_def)
qed simp

lemma versions_move_up_witness: "version_moves new_status first_history"
  by (rule versions_move_up [OF first_history_ok])

subsection \<open>What a reconcile does not do\<close>

text \<open>
  Nothing is asked of the API server for an instance that is gone or that the user told the
  operator to ignore, beyond the one request that found this out; an error of that request is
  returned.
\<close>

theorem reconcile_leaves_alone:
  "case ke_api E (ks_hist s) (RGet PatroniKind ns n None) of
     Inl e \<Rightarrow> Reconcile E ns n s =
       (if e = NotFound then Ok False else Err e,
        s\<lparr>ks_hist := ks_hist s @ [(RGet PatroniKind ns n None, Inl e)]\<rparr>)
   | Inr (KPatroni p) \<Rightarrow>
       (if spec_ignore (pp_spec_of p) then Reconcile E ns n s =
          (Ok False, s\<lparr>ks_inst := p, ks_hist := ks_hist s @ [(RGet PatroniKind ns n None, Inr (KPatroni p))]\<rparr>)
        else True)
   | Inr x \<Rightarrow> Reconcile E ns n s =
       (Err DecodeError, s\<lparr>ks_hist := ks_hist s @ [(RGet PatroniKind ns n None, Inr x)]\<rparr>)"
  by (simp add: Reconcile_def get_instance_def unwrap_patroni_def set_inst_def run_simps
      split: sum.splits kobj.splits)

lemma reconcile_starts:
  assumes "ke_api E (ks_hist s) (RGet PatroniKind ns n None) = Inr (KPatroni p)"
    and "\<not> spec_ignore (pp_spec_of p)" and "pp_state p \<noteq> StateUnset"
    and "GetImage (pp_version p) = Some im"
  shows "Reconcile E ns n s = deferred_update E (reconcile_body \<lparr>wx_env = E, wx_image = im\<rparr>)
    (s\<lparr>ks_inst := p, ks_hist := ks_hist s @ [(RGet PatroniKind ns n None, Inr (KPatroni p))]\<rparr>)"
  using assms
  by (cases s) (simp add: Reconcile_def get_instance_def unwrap_patroni_def set_inst_def
      initialize_def New_def run_simps)

text \<open>
  C31. A ready cluster whose user asks for a version that is not on offer gets an error and
  nothing else: one read, no write, the status as it was. The error names the versions in the
  status, which the last plain reconcile recorded.
\<close>

theorem unsupported_upgrade_refused:
  assumes "ke_api E (ks_hist s) (RGet PatroniKind ns n None) = Inr (KPatroni p)"
    and "\<not> spec_ignore (pp_spec_of p)" and "supported (pp_version p)"
    and "pp_state p = StateReady" and "pp_upgrade_version p = 0"
    and "pp_version p \<noteq> spec_version (pp_spec_of p)"
    and "spec_version (pp_spec_of p) \<notin> set (st_upgrade_versions (pp_status_of p))"
  shows "Reconcile E ns n s =
    (Err (unsupported_upgrade p),
     s\<lparr>ks_inst := p, ks_hist := ks_hist s @ [(RGet PatroniKind ns n None, Inr (KPatroni p))]\<rparr>)"
proof -
  from assms(3) obtain im where "GetImage (pp_version p) = Some im" by (auto simp: supported_def)
  from reconcile_starts [OF assms(1,2) _ this] assms(4-7) show ?thesis
    by (simp add: deferred_update_def reconcile_body_def run_simps)
qed

text \<open>
  The instance of the witness has just been upgraded from 13 to 15, and its user asked for 17
  while that upgrade ran: the offer in the status is still the one of version 13, so the
  cluster, which the operator could upgrade to 17, is refused on every reconcile.
\<close>

lemma unsupported_upgrade_refused_witness:
  "let p = sample 17 (sample_status StateReady 15 0 [15]) in
   Reconcile (sample_env (status_only p)) ''ns'' ''db'' (sample_state p) =
     (Err (ErrText ''upgrade to version 17 not supported. Available versions: [15]''),
      \<lparr>ks_inst = p, ks_hist = [(RGet PatroniKind ''ns'' ''db'' None, Inr (KPatroni p))]\<rparr>) \<and>
   17 \<in> set (image_UpgradeVersions (images ! 1) 15)"
proof -
  let ?p = "sample 17 (sample_status StateReady 15 0 [15])"
  have "unsupported_upgrade ?p = ErrText ''upgrade to version 17 not supported. Available versions: [15]''"
    by (simp add: unsupported_upgrade_def sample_defs show_ints_def show_int_def
        show_nat.simps digit_chars [unfolded One_nat_def])
  with unsupported_upgrade_refused [of "sample_env (status_only ?p)" "sample_state ?p" "''ns''" "''db''" ?p]
  show ?thesis
    by (simp add: Let_def sample_defs supported_iff image_UpgradeVersions_def images_def)
qed

subsection \<open>Starting an upgrade\<close>

text \<open>
  C30. An upgrade starts only on a ready cluster with no upgrade recorded, for a version on
  offer, and only once the leader is known: the target is recorded, and the status written,
  exactly if \<open>GetSyncLeader\<close> succeeds; its error ends the reconcile with the status as it was.
\<close>

theorem upgrade_starts:
  assumes "ke_api E (ks_hist s) (RGet PatroniKind ns n None) = Inr (KPatroni p)"
    and "\<not> spec_ignore (pp_spec_of p)" and "GetImage (pp_version p) = Some im"
    and "pp_state p = StateReady" and "pp_upgrade_version p = 0"
    and "pp_version p \<noteq> spec_version (pp_spec_of p)"
    and "spec_version (pp_spec_of p) \<in> set (st_upgrade_versions (pp_status_of p))"
  shows "Reconcile E ns n s =
    (let s' = s\<lparr>ks_inst := p, ks_hist := ks_hist s @ [(RGet PatroniKind ns n None, Inr (KPatroni p))]\<rparr>
     in case GetSyncLeader \<lparr>wx_env = E, wx_image = im\<rparr> s' of
          (Ok _, u) \<Rightarrow> bnd (status_update E) (\<lambda>_. ret True)
            (u\<lparr>ks_inst := upd_status (\<lambda>st. st\<lparr>st_upgrade_version := spec_version (pp_spec_of p)\<rparr>) p\<rparr>)
        | (Err e, u) \<Rightarrow> (Err e, u)
        | (Panic, u) \<Rightarrow> (Panic, u))"
proof -
  let ?C = "\<lparr>wx_env = E, wx_image = im\<rparr>"
  let ?s = "s\<lparr>ks_inst := p, ks_hist := ks_hist s @ [(RGet PatroniKind ns n None, Inr (KPatroni p))]\<rparr>"
  obtain r u where run: "GetSyncLeader ?C ?s = (r, u)" by fastforce
  then have "ks_inst u = p" and "r \<noteq> Panic"
    using keeps_id [OF cm_readers_same(4) run] by (auto simp: op_inv)
  with run assms reconcile_starts [OF assms(1,2) _ assms(3)] show ?thesis
    by (simp add: deferred_update_def reconcile_body_def bnd_run inst_run set_status_run ret_run
        Let_def split: res.splits)
qed

text \<open>A server that also serves the config map in which Patroni names the leader.\<close>

definition with_leader :: "patroni \<Rightarrow> event list \<Rightarrow> request \<Rightarrow> error + kobj" where
  "with_leader p h q = (case q of
       RGet k _ _ _ \<Rightarrow> if k = PatroniKind then Inr (KPatroni p)
         else Inr (KConfigMap \<lparr>cm_meta = (new_meta ''db-sync'')\<lparr>m_annotations := Some [(''leader'', ''db-1'')]\<rparr>,
           cm_data = []\<rparr>)
     | RStatusUpdate p' \<Rightarrow> Inr (KPatroni p')
     | _ \<Rightarrow> Inl (ApiError ''down''))"

lemma upgrade_starts_witness:
  "let p = sample 17 (sample_status StateReady 15 0 [17]);
       q = sample 17 (sample_status StateReady 15 17 [17])
   in case Reconcile (sample_env (with_leader p)) ''ns'' ''db'' (sample_state p) of (r, t) \<Rightarrow>
        r = Ok True \<and> ks_inst t = q \<and> last (ks_hist t) = (RStatusUpdate q, Inr (KPatroni q))"
  unfolding Let_def
  by (subst upgrade_starts [where p = "sample 17 (sample_status StateReady 15 0 [17])"
        and im = "images ! 1"])
    (simp_all add: sample_defs with_leader_def GetImage_simps GetSyncLeader_def annotation_def
      cm_keys new_meta_def status_update_def unwrap_patroni_def set_inst_def run_simps Let_def
      scan_samples)

subsection \<open>Errors\<close>

text \<open>
  The one status that may be stored by a reconcile that fails: the first one of an instance that
  the server last returned without a state and that asks for a version there is an image of.
  \<open>nothing_else_stored\<close> reads a history with the instance last returned in hand: every status
  update the server acknowledged was that one.
\<close>

definition first_status :: "patroni \<Rightarrow> patroni \<Rightarrow> bool" where
  "first_status c p \<longleftrightarrow> pp_state c = StateUnset \<and> GetImage (spec_version (pp_spec_of c)) \<noteq> None \<and>
     p = upd_status (\<lambda>st. st\<lparr>st_version := spec_version (pp_spec_of c), st_state := StateScaling,
       st_volumes := []\<rparr>) c"

definition stored_ok :: "patroni option \<Rightarrow> event \<Rightarrow> bool" where
  "stored_ok cur ev = (case ev of
       (RStatusUpdate p, Inr (KPatroni _)) \<Rightarrow> (case cur of None \<Rightarrow> False | Some c \<Rightarrow> first_status c p)
     | _ \<Rightarrow> True)"

fun nothing_else_stored :: "patroni option \<Rightarrow> event list \<Rightarrow> bool" where
  "nothing_else_stored cur [] \<longleftrightarrow> True"
| "nothing_else_stored cur (ev # es) \<longleftrightarrow> stored_ok cur ev \<and> nothing_else_stored (seen cur ev) es"

definition unstored :: "patroni option \<Rightarrow> kstate \<Rightarrow> patroni option \<Rightarrow> kstate \<Rightarrow> bool" where
  "unstored cur s cur' t \<longleftrightarrow>
     (\<exists>es. ks_hist t = ks_hist s @ es \<and> nothing_else_stored cur es \<and> foldl seen cur es = cur')"

lemma nothing_else_append:
  "nothing_else_stored cur (es @ fs) \<longleftrightarrow>
     nothing_else_stored cur es \<and> nothing_else_stored (foldl seen cur es) fs"
  by (induction es arbitrary: cur) auto

lemma unstored_trans: "unstored a s b t \<Longrightarrow> unstored b t c u \<Longrightarrow> unstored a s c u"
  by (auto simp: unstored_def nothing_else_append)

lemma unstored_refl: "ks_hist t = ks_hist s \<Longrightarrow> unstored a s a t"
  by (simp add: unstored_def)

lemma foreign_unstored:
  assumes "keeps (asks foreign) m" and "m s = (r, t)"
  shows "unstored cur s cur t"
proof -
  have ok: "stored_ok cur ev" if "foreign (fst ev)" for ev
    using that by (cases ev; cases "fst ev") (auto simp: foreign_def stored_ok_def)
  have "nothing_else_stored cur es" if "list_all (\<lambda>ev. foreign (fst ev)) es" for es
    using that by (induction es) (auto simp: ok foreign_seen)
  with keepsD [OF assms] foreign_events show ?thesis by (fastforce simp: unstored_def asks_def)
qed

lemma status_update_unstored:
  assumes "status_update E s = (x, t)"
    and "(\<exists>e. x = Err e) \<or> (\<exists>c. cur = Some c \<and> first_status c (ks_inst s))"
  shows "\<exists>cur'. unstored cur s cur' t \<and> (x = Ok () \<longrightarrow> cur' = Some (ks_inst t))"
  using assms
  by (auto simp: status_update_def unstored_def stored_ok_def seen_def run_simps unwrap_patroni_def
      set_inst_def split: sum.splits kobj.splits)

lemma initialize_unstored:
  assumes "initialize E s = (x, t)"
  shows "\<exists>cur'. unstored (Some (ks_inst s)) s cur' t \<and> (x = Ok () \<longrightarrow> cur' = Some (ks_inst t))"
proof (cases "pp_state (ks_inst s) = StateUnset \<and> GetImage (spec_version (pp_spec_of (ks_inst s))) \<noteq> None")
  case True
  let ?s = "s\<lparr>ks_inst := upd_status (\<lambda>st. st\<lparr>st_version := spec_version (pp_spec_of (ks_inst s)),
    st_state := StateScaling, st_volumes := []\<rparr>) (ks_inst s)\<rparr>"
  from True assms have "status_update E ?s = (x, t)"
    by (auto simp: initialize_def bnd_run inst_run set_status_run)
  moreover from True have "first_status (ks_inst s) (ks_inst ?s)" by (simp add: first_status_def)
  ultimately show ?thesis
    using status_update_unstored [of E ?s x t "Some (ks_inst s)"] by (simp add: unstored_def)
next
  case False
  with assms have "t = s" by (auto simp: initialize_def run_simps split: if_splits)
  then show ?thesis by (auto intro!: exI unstored_refl)
qed

lemma deferred_unstored:
  assumes "deferred_update E (reconcile_body C) s = (Err e, t)"
  shows "\<exists>cur'. unstored (Some (ks_inst s)) s cur' t"
proof -
  obtain x u where body: "reconcile_body C s = (x, u)" by fastforce
  have early: "unstored (Some (ks_inst s)) s (Some (ks_inst s)) u"
    by (rule foreign_unstored [OF reconcile_body_asks body])
  show ?thesis
  proof (cases x)
    case (Ok y)
    with assms body have "status_update E u = (Err e, t)"
      by (auto simp: deferred_update_def op_inv)
    from status_update_unstored [OF this] early show ?thesis by (blast intro: unstored_trans)
  qed (use assms body early in \<open>auto simp: deferred_update_def\<close>)
qed

text \<open>
  C12. A reconcile that returns an error has stored nothing of what it did to the status: every
  status update it sent was refused, except the one that gives an instance without a state, as
  the server last returned it, the version it asks for and its first state, and changes nothing
  else of it. So an instance that has a state, and with it the stage, version and target of an
  upgrade, is stored by no failing reconcile.
\<close>

theorem error_persists_nothing:
  "case Reconcile E ns n s of
     (Err e, t) \<Rightarrow> nothing_else_stored None (drop (length (ks_hist s)) (ks_hist t))
   | _ \<Rightarrow> True"
proof -
  obtain r t where run: "Reconcile E ns n s = (r, t)" by fastforce
  show ?thesis
  proof (cases r)
    case (Err e)
    have "\<exists>cur'. unstored None s cur' t"
    proof (rule Reconcile_by [OF run unstored_refl unstored_trans _ initialize_unstored])
      show "\<exists>cur'. unstored (Some (ks_inst u)) u cur' t" if "deferred_update E (reconcile_body C) u = (r, t)" for C u
        using that unfolding Err by (rule deferred_unstored)
    qed (simp_all add: unstored_def stored_ok_def)
    with run Err show ?thesis by (auto simp: unstored_def)
  qed (simp_all add: run)
qed

end
