(* ===== verification/Ownership.thy ===== *)
theory Ownership
  imports Refinement Step_Props
begin

section \<open>Whose the objects are that the operator creates\<close>

text \<open>
  A created object that carries no owner is never garbage collected, and one in another namespace
  or without the labels is never found again. Here every object a reconcile creates is shown to
  be well formed in this sense, by the rule collection \<open>eff_intro\<close> over one more relation.
\<close>

subsection \<open>Well-formed metadata\<close>

fun meta_of :: "kobj \<Rightarrow> object_meta option" where
  "meta_of (KConfigMap x) = Some (cm_meta x)"
| "meta_of (KSecret x) = Some (sec_meta x)"
| "meta_of (KPVC x) = Some (pvc_meta x)"
| "meta_of (KServiceAccount x) = Some (sa_meta x)"
| "meta_of (KRole x) = Some (role_meta x)"
| "meta_of (KRoleBinding x) = Some (rb_meta x)"
| "meta_of (KService x) = Some (svc_meta x)"
| "meta_of (KStatefulSet x) = Some (sts_meta x)"
| "meta_of (KNetworkPolicy x) = Some (np_meta x)"
| "meta_of (KPDB x) = Some (pdb_meta x)"
| "meta_of (KJob x) = Some (job_meta x)"
| "meta_of _ = None"

text \<open>
  \<open>of_instance\<close>: in the namespace and with the labels of the instance, and owned by it, as
  \<open>SetOwnerReference\<close> made it. \<open>of_streamer\<close>: the one other kind of object, the service of the set
  that serves the data to the secondaries, under the streamer's name and in the instance's
  namespace, without labels, and owned by that set, which the server has just returned, found or
  made under the streamer's name (\<open>told_before\<close> is what it has answered so far).
\<close>

definition of_instance :: "kube_env \<Rightarrow> string \<times> string \<times> string \<times> pp_spec \<Rightarrow> object_meta \<Rightarrow> bool" where
  "of_instance E I m \<longleftrightarrow> (\<exists>p m0. identity p = I \<and> m_namespace m0 = pp_namespace p \<and>
     m_labels m0 = CommonLabels p \<and> ke_set_owner E (KPatroni p) m0 = Inr (m_owners m) \<and>
     m = m0\<lparr>m_owners := m_owners m\<rparr>)"

definition of_streamer :: "kube_env \<Rightarrow> string \<times> string \<times> string \<times> pp_spec \<Rightarrow> event list \<Rightarrow> object_meta \<Rightarrow> bool" where
  "of_streamer E I told_before m \<longleftrightarrow> (\<exists>p sts q m0. identity p = I \<and>
     streamer_call p q \<and> (q, Inr (KStatefulSet sts)) \<in> set told_before \<and>
     m0 = (new_meta (pp_name p @ ''-pstream''))\<lparr>m_namespace := pp_namespace p\<rparr> \<and>
     ke_set_owner E (KStatefulSet sts) m0 = Inr (m_owners m) \<and> m = m0\<lparr>m_owners := m_owners m\<rparr>)"

definition well_owned ::
  "kube_env \<Rightarrow> string \<times> string \<times> string \<times> pp_spec \<Rightarrow> event list \<Rightarrow> request \<Rightarrow> bool" where
  "well_owned E I told_before q = (case q of
       RCreate x \<Rightarrow> (case meta_of x of
           None \<Rightarrow> False
         | Some m \<Rightarrow> of_instance E I m \<or>
             (case x of KService _ \<Rightarrow> of_streamer E I told_before m | _ \<Rightarrow> False))
     | _ \<Rightarrow> True)"

lemma well_owned_simps [simp]:
  "well_owned E I b (RGet k ns n x)" "well_owned E I b (RUpdate y)" "well_owned E I b (RPatch y z)"
  "well_owned E I b (RDelete y pol)" "well_owned E I b (RListPVCs ns l)" "well_owned E I b (RListPods ns sel)"
  "well_owned E I b (RReadLogs ns n i)" "well_owned E I b (RRand j)" "well_owned E I b (RStatusUpdate p)"
  by (simp_all add: well_owned_def)

lemma of_streamer_mono: "of_streamer E I b m \<Longrightarrow> set b \<subseteq> set b' \<Longrightarrow> of_streamer E I b' m"
  unfolding of_streamer_def by blast

lemma well_owned_mono:
  assumes "well_owned E I b q" and sub: "set b \<subseteq> set b'"
  shows "well_owned E I b' q"
  using assms(1) of_streamer_mono [OF _ sub, of E I]
  by (auto simp: well_owned_def split: request.splits option.splits kobj.splits)

subsection \<open>The relation\<close>

text \<open>Every creation in a list of events is well owned, given what was answered before it.\<close>

fun all_owned :: "kube_env \<Rightarrow> string \<times> string \<times> string \<times> pp_spec \<Rightarrow> event list \<Rightarrow> event list \<Rightarrow> bool" where
  "all_owned E I b [] \<longleftrightarrow> True"
| "all_owned E I b (ev # es) \<longleftrightarrow> well_owned E I b (fst ev) \<and> all_owned E I (b @ [ev]) es"

lemma all_owned_append: "all_owned E I b (es @ fs) \<longleftrightarrow> all_owned E I b es \<and> all_owned E I (b @ es) fs"
  by (induction es arbitrary: b) auto

lemma all_owned_mono: "all_owned E I b es \<Longrightarrow> set b \<subseteq> set b' \<Longrightarrow> all_owned E I b' es"
proof (induction es arbitrary: b b')
  case (Cons ev es)
  from Cons.prems Cons.IH [of "b @ [ev]" "b' @ [ev]"] well_owned_mono [of E I b "fst ev" b'] show ?case by auto
qed simp

lemma all_owned_any: "list_all (\<lambda>ev. well_owned E I [] (fst ev)) es \<Longrightarrow> all_owned E I b es"
  by (induction es arbitrary: b) (auto intro: well_owned_mono [of E I "[]"])

text \<open>
  For an instance of identity \<open>I\<close>: the identity stays, and all that is created is well owned. For
  any other instance it says nothing, so that it is a preorder.
\<close>

definition owns :: "kube_env \<Rightarrow> string \<times> string \<times> string \<times> pp_spec \<Rightarrow> kstate \<Rightarrow> kstate \<Rightarrow> bool" where
  "owns E I s t \<longleftrightarrow> (identity (ks_inst s) = I \<longrightarrow> identity (ks_inst t) = I \<and>
     (\<exists>es. ks_hist t = ks_hist s @ es \<and> all_owned E I [] es))"

interpretation owning: effect "owns E I" for E I
proof
  show "owns E I s s" for s by (simp add: owns_def)
  show "owns E I s u" if "owns E I s t" "owns E I t u" for s t u
    using that all_owned_mono [of E I "[]"] by (simp add: owns_def) (metis all_owned_append append.assoc append_Nil empty_subsetI list.set(1))
qed

lemma owns_from:
  "keeps (asks (well_owned E I [])) m \<Longrightarrow> keeps (same identity) m \<Longrightarrow> keeps (owns E I) m"
  using all_owned_any [of E I _ "[]"] by (simp add: keeps_def owns_def same_def asks_def) metis

lemma owns_set_meta:
  assumes "\<And>m. of_instance (wx_env C) I m \<Longrightarrow> keeps (owns E I) (f (kt_set_meta T m x))"
  shows "keeps (owns E I) (bnd (set_meta_of C T x) f)"
proof (rule keepsI)
  fix s r t
  assume run: "bnd (set_meta_of C T x) f s = (r, t)"
  let ?p = "ks_inst s" and ?m = "kt_meta T x"
  let ?m0 = "?m\<lparr>m_namespace := pp_namespace ?p, m_labels := CommonLabels ?p\<rparr>"
  show "owns E I s t"
  proof (cases "ke_set_owner (wx_env C) (KPatroni ?p) ?m0")
    case (Inl e)
    with run have "t = s" by (simp add: set_meta_of_def bnd_run SetMeta_run Let_def)
    then show ?thesis by (simp add: owning.effect_refl)
  next
    case (Inr os)
    with run have "f (kt_set_meta T (?m0\<lparr>m_owners := os\<rparr>) x) s = (r, t)"
      by (simp add: set_meta_of_def bnd_run SetMeta_run Let_def ret_run)
    moreover have "of_instance (wx_env C) I (?m0\<lparr>m_owners := os\<rparr>)" if "identity ?p = I"
      unfolding of_instance_def using that Inr
      by (intro exI [of _ ?p] exI [of _ "?m0"] conjI) simp_all
    ultimately show ?thesis
      using keepsD [OF assms] by (cases "identity ?p = I") (auto simp: owns_def)
  qed
qed

lemma owns_inst:
  assumes "\<And>p. identity p = I \<Longrightarrow> keeps (owns E I) (f p)"
  shows "keeps (owns E I) (bnd inst f)"
proof (rule keepsI)
  fix s r t
  assume "bnd inst f s = (r, t)"
  then have "f (ks_inst s) s = (r, t)" by (simp add: bnd_run inst_run)
  with keepsD [OF assms [of "ks_inst s"]] show "owns E I s t"
    by (cases "identity (ks_inst s) = I") (auto simp: owns_def)
qed

lemma owns_of_option:
  "(\<And>x. r = Some x \<Longrightarrow> keeps (owns E I) (f x)) \<Longrightarrow> keeps (owns E I) (bnd (of_option r) f)"
  by (cases r) (simp_all add: bnd_def panic_def ret_def keeps_def owning.effect_refl)

lemma owns_of_sum:
  "(\<And>x. r = Inr x \<Longrightarrow> keeps (owns E I) (f x)) \<Longrightarrow> keeps (owns E I) (bnd (of_sum r) f)"
  by (cases r) (simp_all add: bnd_def fail_def ret_def keeps_def owning.effect_refl)

text \<open>The rules that keep what is known of a value, to be tried before the general one for \<open>bnd\<close>.\<close>

lemmas owns_bnd = owns_inst owns_set_meta owns_of_option owns_of_sum

lemma identity_upd_status [simp]: "identity (upd_status f p) = identity p"
  by (cases p) (simp add: identity_def)

lemma owns_status [eff_intro]: "keeps (owns E I) (set_status f)"
  by (rule owns_from; intro eff_intro; simp)

lemma owns_client [eff_intro]:
  "keeps (owns E I) inst"
  "keeps (owns E I) (decode_as f x)"
  "keeps (owns E I) (kget E' T ns n)" "keeps (owns E I) (kget_into E' T ns n x')"
  "keeps (owns E I) (kupdate E' T x')" "keeps (owns E I) (kpatch E' T x' y')"
  "keeps (owns E I) (kdelete E' T x' pol)"
  "well_owned E I [] (RCreate (kt_wrap T x')) \<Longrightarrow> keeps (owns E I) (kcreate E' T x')"
  by (rule owns_from; intro eff_intro; simp)+

lemma owns_found [eff_intro]: "keeps (owns E I) m \<Longrightarrow> keeps (owns E I) (found m)"
  unfolding found_def by (intro eff_intro)

lemma owns_create_or_update [eff_intro]:
  "(b \<Longrightarrow> well_owned E I [] (RCreate (kt_wrap T x))) \<Longrightarrow> keeps (owns E I) (create_or_update E' T b x)"
  unfolding create_or_update_def by (intro eff_intro)

lemma of_instance_owned [simp]:
  "of_instance E I m \<Longrightarrow> meta_of x = Some m \<Longrightarrow> well_owned E I b (RCreate x)"
  by (simp add: well_owned_def)

subsection \<open>The operations that create\<close>

lemma api_meta:
  "api_object T \<Longrightarrow> (\<And>x. meta_of (kt_wrap T x) = Some (kt_meta T x)) \<Longrightarrow> of_instance E I m \<Longrightarrow>
   well_owned E I b (RCreate (kt_wrap T (kt_set_meta T m x)))"
  by (simp add: api_object.meta_set_meta)

lemma owns_adopt_or_create:
  assumes "api_object T" and "\<And>x. meta_of (kt_wrap T x) = Some (kt_meta T x)"
    and "keeps (owns (wx_env C) I) new"
  shows "keeps (owns (wx_env C) I) (adopt_or_create C T n new)"
  unfolding adopt_or_create_def by (intro owns_bnd eff_intro assms api_meta)

lemma owns_create_or_set:
  assumes "api_object T" and "\<And>x. meta_of (kt_wrap T x) = Some (kt_meta T x)"
    and "\<And>x. kt_meta T (fill x) = kt_meta T x"
  shows "keeps (owns (wx_env C) I) (create_or_set C T n new fill)"
  unfolding create_or_set_def Let_def
  by (intro owns_bnd eff_intro) (simp add: assms(2,3) api_object.meta_set_meta [OF assms(1)])

lemma owns_secret [eff_intro]: "keeps (owns E I) (new_secret E' p)"
  by (rule owns_from) (simp_all add: new_secret_def genSecret_def, (intro owns_bnd eff_intro; simp)+)

lemma owns_cm [eff_intro]:
  "keeps (owns E I) (GetDBId C)" "keeps (owns E I) (GetPrimaryInitdbArgs C)"
  "keeps (owns E I) (GetSecondaryStreamArgs C)" "keeps (owns E I) (GetSyncLeader C)"
  "keeps (owns E I) (SetDBId C v)" "keeps (owns E I) (SetPrimaryInitdbArgs C v)"
  "keeps (owns E I) (SetLatestCheckpointLocation C v)" "keeps (owns E I) (ClearUpgradeAnnotations C)"
  by (rule owns_from; intro eff_intro; simp)+

lemma owns_jobs [eff_intro]:
  "keeps (owns E I) (cleanupJob C job)" "keeps (owns E I) (getInitdbArgsFromJob C job)"
  "keeps (owns E I) (getResultFromPrimaryUpgradeJob C job)" "keeps (owns E I) (GetK8SStatefulSet C)"
  by (rule owns_from; intro eff_intro; simp)+

lemma owns_service [eff_intro]:
  assumes "\<And>s s'. apply_service_patches ps s = Some s' \<Longrightarrow> svc_meta s' = svc_meta s"
  shows "keeps (owns (wx_env C) I) (ReconcileService C ps)"
  unfolding ReconcileService_def Let_def
  by (intro owns_bnd eff_intro)
    (auto simp: kube_sel headless_service_fields_def main_service_fields_def dest!: assms)

lemma owns_sts [eff_intro]:
  assumes "\<And>s s'. apply_sts_patches ps s = Some s' \<Longrightarrow> sts_meta s' = sts_meta s"
  shows "keeps (owns (wx_env C) I) (ReconcileSts C ps)"
proof -
  have env: "sts_meta y = sts_meta x" if "on_first_container g x = Some y" for g x y
    using that by (auto simp: on_first_container_def set_containers_def split: list.splits)
  show ?thesis
    unfolding ReconcileSts_def Let_def
    by (intro owns_bnd eff_intro)
      (auto simp: kube_sel add_extra_containers_def set_containers_def sts_fields_def dest!: assms env split: if_splits)
qed

lemma owns_ensureUpgradeJob [eff_intro]: "keeps (owns (wx_env C) I) (ensureUpgradeJob C j)"
  unfolding ensureUpgradeJob_def Let_def by (intro owns_bnd eff_intro) (simp add: kube_sel)

lemma owns_pvc [eff_intro]: "keeps (owns (wx_env C) I) (pvc_Reconcile C)"
proof -
  have "keeps (owns (wx_env C) I) (list_pvcs (wx_env C) l)" for l
    by (rule owns_from) (simp_all add: list_pvcs_def split_def, (intro owns_bnd eff_intro; simp)+)
  then show ?thesis
    unfolding pvc_Reconcile_def reconcile_node_def delete_pvc_def Let_def
    by (intro owns_bnd eff_intro) (simp_all add: kube_sel kube_types)
qed

lemma owns_create_jobs [eff_intro]:
  "keeps (owns (wx_env C) I) (create_primary_job C)" "keeps (owns (wx_env C) I) (create_move_job C)"
  "keeps (owns (wx_env C) I) (ensure_secondary_job C sts loc newid iv)"
  "keeps (owns (wx_env C) I) (count_secondary C job sf)"
  unfolding create_primary_job_def create_move_job_def ensure_secondary_job_def count_secondary_def Let_def
  by (intro owns_bnd eff_intro; simp add: kube_sel)+

lemma owns_service_patches:
  "svc_meta (main_service_fields p s) = svc_meta s"
  "withPatroniAPI_Patch s = Some s' \<Longrightarrow> svc_meta s' = svc_meta s"
  "withPostgresqlPort_Patch n s = Some s' \<Longrightarrow> svc_meta s' = svc_meta s"
  by (auto simp: main_service_fields_def withPatroniAPI_Patch_def withPostgresqlPort_Patch_def split: list.splits)

text \<open>
  The service of the streamer is created only after the server has returned the set it is owned by.
\<close>

lemma owns_streamer_set: "keeps (owns (wx_env C) I) (streamer_set C leader p)"
  unfolding streamer_set_def by (intro owns_bnd eff_intro) (simp_all add: kube_sel)

lemma streamer_service_owned:
  assumes run: "streamer_service C p sts u = (r, t)" and p: "identity (ks_inst u) = identity p"
    and q: "streamer_call p q" "(q, Inr (KStatefulSet sts)) \<in> set b"
  shows "identity (ks_inst t) = identity p \<and>
    (\<exists>es. ks_hist t = ks_hist u @ es \<and> all_owned (wx_env C) (identity p) b es)"
proof -
  let ?E = "wx_env C" and ?m = "svc_meta (pstream_service p sts)"
  let ?g = "RGet ServiceKind (pp_namespace p) (pstream_name p) None"
  have m: "?m = (new_meta (pp_name p @ ''-pstream''))\<lparr>m_namespace := pp_namespace p\<rparr>"
    by (simp add: pstream_service_def pstream_name_def)
  have made: "well_owned ?E (identity p) (b @ es) (RCreate (KService ((pstream_service p sts)\<lparr>svc_meta := ?m\<lparr>m_owners := os\<rparr>\<rparr>)))"
    if "ke_set_owner ?E (KStatefulSet sts) ?m = Inr os" for os es
    unfolding well_owned_def request.case meta_of.simps option.case kobj.case of_streamer_def
    by (rule disjI2, rule exI [of _ p], rule exI [of _ sts], rule exI [of _ q], rule exI [of _ ?m])
      (use that q m in simp)
  from run p show ?thesis
    by (auto simp: streamer_service_def bnd_run svc.kget_after kube_sel kcreate_def ask_after decode_as_def
        of_sum_def ret_run fail_run Let_def made split: sum.splits option.splits if_splits)
qed

lemma owns_streamer [eff_intro]: "keeps (owns (wx_env C) I) (upgradeSecondariesEnsurestreamer C leader)"
proof (rule keepsI)
  fix s r t
  assume run: "upgradeSecondariesEnsurestreamer C leader s = (r, t)"
  let ?p = "ks_inst s"
  obtain a u where a: "streamer_set C leader ?p s = (a, u)" by fastforce
  show "owns (wx_env C) I s t"
  proof (cases a)
    case (Ok sts)
    with run a have t: "streamer_service C ?p sts u = (r, t)" by (simp add: streamer_halves bnd_run inst_run)
    from a Ok streamer_set_told obtain q es where q: "streamer_call ?p q" "ks_hist u = ks_hist s @ es"
      "(q, Inr (KStatefulSet sts)) \<in> set es" unfolding told_def by metis
    show ?thesis
      unfolding owns_def
    proof (intro impI)
      assume I: "identity ?p = I"
      with keepsD [OF owns_streamer_set a, of I] q(2) have u: "identity (ks_inst u) = identity ?p"
        "all_owned (wx_env C) I [] es" by (simp_all add: owns_def)
      from streamer_service_owned [OF t u(1) q(1,3)] u(2) q(2) I
      show "identity (ks_inst t) = I \<and> (\<exists>es. ks_hist t = ks_hist s @ es \<and> all_owned (wx_env C) I [] es)"
        by (auto simp: all_owned_append)
    qed
  qed (use run a keepsD [OF owns_streamer_set a, of I] in \<open>simp_all add: streamer_halves bnd_run inst_run\<close>)
qed

lemma owns_seclients [eff_intro]: "keeps (owns (wx_env C) I) (upgradeSecondariesEnsureseclients C leader sts)"
  unfolding upgradeSecondariesEnsureseclients_def by (intro eff_intro owns_inst)

lemma owns_record [eff_intro]: "keeps (owns (wx_env C) I) (record_primary_result C r)"
  unfolding record_primary_result_def by (intro eff_intro)

subsection \<open>The handlers and the reconcilers\<close>

lemma owns_ReconcileService_ps [eff_intro]:
  "keeps (owns (wx_env C) I) (ReconcileService C [])"
  "keeps (owns (wx_env C) I) (ReconcileService C [withPostgresqlPort_Patch n, withPatroniAPI_Patch])"
  by (rule owns_service; auto simp: owns_service_patches split: Option.bind_splits)+

lemma on_first_container_meta: "on_first_container g x = Some y \<Longrightarrow> sts_meta y = sts_meta x"
  by (auto simp: on_first_container_def set_containers_def split: list.splits)

lemma owns_ReconcileSts_ps [eff_intro]:
  "keeps (owns (wx_env C) I) (ReconcileSts C [])"
  "keeps (owns (wx_env C) I) (ReconcileSts C [sts_withPostgresqlPort_Patch n, withPausedPatroni_Patch])"
  by (rule owns_sts; auto simp: sts_withPostgresqlPort_Patch_def withPausedPatroni_Patch_def
    dest!: on_first_container_meta split: Option.bind_splits)+

lemma owns_handler [eff_intro]: "keeps (owns (wx_env C) I) (handler_handle h C)"
  by (cases h;
      simp only: handler_handle.simps preupgrade_handle_def preupgradeScaledown_handle_def
        scaledown_handle_def preupgradeSync_handle_def primary_handle_def secondary_handle_def
        move_handle_def postupgrade_handle_def service_Reconcile_def Let_def;
      intro owns_bnd eff_intro)

lemma owns_Handle [eff_intro]: "keeps (owns (wx_env C) I) (Handle C)"
  unfolding Handle_def by (intro owns_bnd eff_intro)

lemma owns_adoptions [eff_intro]:
  "keeps (owns (wx_env C) I) new1 \<Longrightarrow> keeps (owns (wx_env C) I) (adopt_or_create C SecretT n new1)"
  "keeps (owns (wx_env C) I) new2 \<Longrightarrow> keeps (owns (wx_env C) I) (adopt_or_create C ConfigMapT n new2)"
  "keeps (owns (wx_env C) I) new3 \<Longrightarrow> keeps (owns (wx_env C) I) (adopt_or_create C ServiceAccountT n new3)"
  by (intro owns_adopt_or_create sec.api_object_axioms cm.api_object_axioms sa.api_object_axioms;
    simp add: kube_types)+

lemma owns_settings [eff_intro]:
  "keeps (owns (wx_env C) I) (create_or_set C RoleT n r (\<lambda>x. x\<lparr>role_rules := rs\<rparr>))"
  "keeps (owns (wx_env C) I) (create_or_set C RoleBindingT n b (\<lambda>x. x\<lparr>rb_subjects := sj\<rparr>))"
  "keeps (owns (wx_env C) I) (create_or_set C NetworkPolicyT n np (\<lambda>x. x\<lparr>np_pod_selector := l, np_ingress := ig\<rparr>))"
  "keeps (owns (wx_env C) I) (create_or_set C PDBT n d (\<lambda>x. x\<lparr>pdb_max_unavailable := mu, pdb_selector := l'\<rparr>))"
  by (rule owns_create_or_set; (rule role.api_object_axioms rb.api_object_axioms np.api_object_axioms
    pdb.api_object_axioms)?; simp add: kube_types)+

lemma owns_simple_reconcilers [eff_intro]:
  "keeps (owns (wx_env C) I) (secret_Reconcile C)" "keeps (owns (wx_env C) I) (configmap_Reconcile C)"
  "keeps (owns (wx_env C) I) (rbac_Reconcile C)" "keeps (owns (wx_env C) I) (networkpolicy_Reconcile C)"
  "keeps (owns (wx_env C) I) (pdb_Reconcile C)" "keeps (owns (wx_env C) I) (service_Reconcile C)"
  "keeps (owns (wx_env C) I) (statefulset_Reconcile C)"
  unfolding secret_Reconcile_def configmap_Reconcile_def rbac_Reconcile_def
    reconcileServiceAccount_def reconcileRole_def reconcileRoleBinding_def
    networkpolicy_Reconcile_def pdb_Reconcile_def service_Reconcile_def statefulset_Reconcile_def
  by (intro eff_intro owns_settings)+

lemma owns_body: "keeps (owns (wx_env C) I) (reconcile_body C)"
proof -
  have "keeps (owns (wx_env C) I) (f C)" if "f \<in> set reconcilers" for f
    using that by (auto simp: reconcilers_def intro: eff_intro)
  then show ?thesis unfolding reconcile_body_def by (intro eff_intro)
qed

subsection \<open>A whole reconcile\<close>

text \<open>
  In a history: every object is created for the instance that the API server returned last, and
  none is created before an instance has been returned. \<open>told_before\<close> collects the events.
\<close>

fun creations_ok :: "kube_env \<Rightarrow> patroni option \<Rightarrow> event list \<Rightarrow> event list \<Rightarrow> bool" where
  "creations_ok E cur told_before [] \<longleftrightarrow> True"
| "creations_ok E cur told_before (ev # es) \<longleftrightarrow>
     (case cur of
        None \<Rightarrow> (case fst ev of RCreate _ \<Rightarrow> False | _ \<Rightarrow> True)
      | Some p \<Rightarrow> well_owned E (identity p) told_before (fst ev)) \<and>
     creations_ok E (seen cur ev) (told_before @ [ev]) es"

definition created :: "kube_env \<Rightarrow> patroni option \<Rightarrow> kstate \<Rightarrow> patroni option \<Rightarrow> kstate \<Rightarrow> bool" where
  "created E cur s cur' t \<longleftrightarrow>
     (\<exists>es. ks_hist t = ks_hist s @ es \<and> creations_ok E cur [] es \<and> foldl seen cur es = cur')"

lemma creations_ok_append:
  "creations_ok E cur b (es @ fs) \<longleftrightarrow> creations_ok E cur b es \<and> creations_ok E (foldl seen cur es) (b @ es) fs"
  by (induction es arbitrary: cur b) auto

lemma creations_ok_mono: "creations_ok E cur b es \<Longrightarrow> set b \<subseteq> set b' \<Longrightarrow> creations_ok E cur b' es"
proof (induction es arbitrary: cur b b')
  case (Cons ev es)
  have "well_owned E (identity p) b (fst ev) \<Longrightarrow> well_owned E (identity p) b' (fst ev)" for p
    using Cons.prems(2) by (rule well_owned_mono [rotated])
  with Cons.prems Cons.IH [of "seen cur ev" "b @ [ev]" "b' @ [ev]"] show ?case by (auto split: option.splits)
qed simp

lemma created_trans: "created E a s b t \<Longrightarrow> created E b t c u \<Longrightarrow> created E a s c u"
  using creations_ok_mono [of E b "[]"] by (auto simp: created_def creations_ok_append)

lemma created_refl: "ks_hist t = ks_hist s \<Longrightarrow> created E a s a t"
  by (simp add: created_def)

lemma body_created:
  assumes run: "reconcile_body C s = (r, t)"
  shows "created (wx_env C) (Some (ks_inst s)) s (Some (ks_inst s)) t"
proof -
  let ?p = "ks_inst s"
  from keepsD [OF owns_body run, of "identity ?p"] keepsD [OF reconcile_body_asks run]
  obtain es where es: "ks_hist t = ks_hist s @ es"
    "all_owned (wx_env C) (identity ?p) [] es" "list_all (\<lambda>ev. foreign (fst ev)) es"
    by (auto simp: owns_def asks_def)
  have "creations_ok (wx_env C) (Some ?p) b es"
    if "all_owned (wx_env C) (identity ?p) b es" "list_all (\<lambda>ev. foreign (fst ev)) es" for b es
    using that by (induction es arbitrary: b) (auto simp: foreign_seen)
  with es foreign_events show ?thesis by (simp add: created_def)
qed

lemma status_update_created:
  assumes "status_update E s = (x, t)"
  shows "\<exists>cur'. created E' cur s cur' t \<and> (x = Ok () \<longrightarrow> cur' = Some (ks_inst t))"
  using assms
  by (auto simp: status_update_def created_def seen_def run_simps unwrap_patroni_def
      set_inst_def split: sum.splits kobj.splits option.splits)

lemma initialize_created:
  assumes "initialize E s = (x, t)"
  shows "\<exists>cur'. created E' (Some (ks_inst s)) s cur' t \<and> (x = Ok () \<longrightarrow> cur' = Some (ks_inst t))"
proof (cases "pp_state (ks_inst s) = StateUnset \<and> GetImage (spec_version (pp_spec_of (ks_inst s))) \<noteq> None")
  case True
  with assms obtain u where "status_update E u = (x, t)" and "ks_hist u = ks_hist s"
    by (auto simp: initialize_def bnd_run inst_run set_status_run)
  with status_update_created show ?thesis by (metis created_refl created_trans)
next
  case False
  with assms have "t = s" by (auto simp: initialize_def run_simps split: if_splits)
  then show ?thesis by (auto intro!: exI created_refl)
qed

lemma deferred_created:
  assumes "deferred_update E (reconcile_body C) s = (r, t)" and "wx_env C = E"
  shows "\<exists>cur'. created E (Some (ks_inst s)) s cur' t"
proof -
  obtain x u where body: "reconcile_body C s = (x, u)" by fastforce
  from assms(1) body show ?thesis
  proof (cases rule: deferred_ends)
    case error
    with body_created [OF body] assms(2) show ?thesis by auto
  next
    case (update y)
    from status_update_created [OF update(2)] obtain cur' where "created E (Some (ks_inst s)) u cur' t"
      by metis
    with body_created [OF body] assms(2) show ?thesis by (auto intro: created_trans)
  qed
qed

text \<open>
  C11. Whose the objects are that a reconcile creates, whatever the cluster answers, in an upgrade
  or outside one. Every object is in the namespace of the instance the API server returned last,
  carries the labels its pods and claims are found by, and has that instance among the owners as
  \<open>SetOwnerReference\<close> left them. The one exception is the service of the file transfer, of the name
  of the cluster with \<open>-pstream\<close>: it is in the same namespace, has no labels, and is owned by the
  set of that name, which the server returned earlier in the same reconcile. So nothing is created
  that would outlive the instance.
\<close>

theorem created_objects_owned:
  "case Reconcile E ns n s of (r, t) \<Rightarrow>
     creations_ok E None [] (drop (length (ks_hist s)) (ks_hist t))"
proof -
  obtain r t where run: "Reconcile E ns n s = (r, t)" by fastforce
  have "\<exists>cur'. created E None s cur' t"
    by (rule Reconcile_by [OF run created_refl created_trans _ initialize_created deferred_created])
      (simp_all add: created_def)
  with run show ?thesis by (auto simp: created_def)
qed

end
