(* ===== verification/Permissions.thy ===== *)
theory Permissions
  imports Refinement
begin

section \<open>The permissions the operator declares\<close>

text \<open>
  Each package says in a marker which rights its code needs; the operator's cluster role is the
  union of the markers. Here the markers of every file are listed as rules, the right a request
  needs is computed from the request, and every request of a reconcile is shown to be covered.
\<close>

subsection \<open>The markers\<close>

definition rule :: "string \<Rightarrow> string list \<Rightarrow> string list \<Rightarrow> policy_rule" where
  "rule g rs vs = \<lparr>rule_groups = [g], rule_resources = rs, rule_verbs = vs\<rparr>"

definition controller_rules :: "policy_rule list" where
  "controller_rules =
    [rule ''kwebs.cloud'' [''patronipostgres''] [''get'', ''list'', ''watch'', ''create'', ''update'', ''patch'', ''delete''],
     rule ''kwebs.cloud'' [''patronipostgres/status''] [''get'', ''update'', ''patch''],
     rule ''kwebs.cloud'' [''patronipostgres/finalizers''] [''update'']]"

definition setup_rules :: "policy_rule list" where
  "setup_rules =
    [rule '''' [''persistentvolumeclaims''] [''list'', ''watch''],
     rule ''apps'' [''statefulsets''] [''list'', ''watch''],
     rule ''batch'' [''jobs''] [''list'', ''watch'']]"

definition networkpolicy_rules :: "policy_rule list" where
  "networkpolicy_rules = [rule ''networking.k8s.io'' [''networkpolicies''] [''get'', ''create'', ''update'']]"

definition pvc_rules :: "policy_rule list" where
  "pvc_rules = [rule '''' [''persistentvolumeclaims''] [''list'', ''create'', ''patch'', ''delete'']]"

definition secret_rules :: "policy_rule list" where
  "secret_rules = [rule '''' [''secrets''] [''get'', ''create'', ''update'']]"

definition pdb_rules :: "policy_rule list" where
  "pdb_rules = [rule ''policy'' [''poddisruptionbudgets''] [''get'', ''create'', ''update'']]"

definition rbac_rules :: "policy_rule list" where
  "rbac_rules =
    [rule ''rbac.authorization.k8s.io'' [''roles'', ''rolebindings''] [''get'', ''create'', ''update'']]"

definition serviceaccount_rules :: "policy_rule list" where
  "serviceaccount_rules = [rule '''' [''serviceaccounts''] [''get'', ''create'', ''update'']]"

definition granted_rules :: "policy_rule list" where
  "granted_rules =
    [rule '''' [''configmaps'', ''pods''] [''get'', ''list'', ''watch'', ''patch'', ''update'']]"

definition service_rules :: "policy_rule list" where
  "service_rules = [rule '''' [''services''] [''get'', ''create'', ''update'']]"

definition statefulset_rules :: "policy_rule list" where
  "statefulset_rules = [rule ''apps'' [''statefulsets''] [''get'', ''create'', ''update'']]"

definition configmap_rules :: "policy_rule list" where
  "configmap_rules = [rule '''' [''configmaps''] [''get'', ''create'', ''update'']]"

definition upgrade_job_rules :: "policy_rule list" where
  "upgrade_job_rules = [rule ''batch'' [''jobs''] [''get'', ''create'', ''delete'']]"

definition preupgrade_rules :: "policy_rule list" where
  "preupgrade_rules = [rule '''' [''pods''] [''list''], rule '''' [''pods/log''] [''get'']]"

definition primary_job_rules :: "policy_rule list" where
  "primary_job_rules = [rule ''batch'' [''jobs''] [''get'', ''create'', ''delete'']]"

definition primary_result_rules :: "policy_rule list" where
  "primary_result_rules = [rule '''' [''pods''] [''list''], rule '''' [''pods/log''] [''get'']]"

definition move_rules :: "policy_rule list" where
  "move_rules = [rule ''batch'' [''jobs''] [''get'', ''create'', ''delete'']]"

definition secondary_client_rules :: "policy_rule list" where
  "secondary_client_rules = [rule ''batch'' [''jobs''] [''get'', ''create'']]"

definition secondary_rules :: "policy_rule list" where
  "secondary_rules =
    [rule ''batch'' [''jobs''] [''delete''], rule ''apps'' [''statefulsets''] [''delete'']]"

definition secondary_stream_rules :: "policy_rule list" where
  "secondary_stream_rules =
    [rule ''apps'' [''statefulsets''] [''get'', ''create''], rule '''' [''services''] [''get'', ''create'']]"

definition operator_rules :: "policy_rule list" where
  "operator_rules = controller_rules @ setup_rules @ networkpolicy_rules @ pvc_rules @ secret_rules @
     pdb_rules @ rbac_rules @ serviceaccount_rules @ granted_rules @ service_rules @
     statefulset_rules @ configmap_rules @ upgrade_job_rules @ preupgrade_rules @
     primary_job_rules @ primary_result_rules @ move_rules @ secondary_client_rules @
     secondary_rules @ secondary_stream_rules"

subsection \<open>The right a request needs\<close>

text \<open>The group and the resource under which the API server serves a kind.\<close>

fun resource :: "kind \<Rightarrow> string \<times> string" where
  "resource ConfigMapKind = ('''', ''configmaps'')"
| "resource SecretKind = ('''', ''secrets'')"
| "resource PVCKind = ('''', ''persistentvolumeclaims'')"
| "resource ServiceAccountKind = ('''', ''serviceaccounts'')"
| "resource RoleKind = (''rbac.authorization.k8s.io'', ''roles'')"
| "resource RoleBindingKind = (''rbac.authorization.k8s.io'', ''rolebindings'')"
| "resource ServiceKind = ('''', ''services'')"
| "resource StatefulSetKind = (''apps'', ''statefulsets'')"
| "resource NetworkPolicyKind = (''networking.k8s.io'', ''networkpolicies'')"
| "resource PDBKind = (''policy'', ''poddisruptionbudgets'')"
| "resource JobKind = (''batch'', ''jobs'')"
| "resource PatroniKind = (''kwebs.cloud'', ''patronipostgres'')"

fun kind_of :: "kobj \<Rightarrow> kind option" where
  "kind_of (KConfigMap _) = Some ConfigMapKind"
| "kind_of (KSecret _) = Some SecretKind"
| "kind_of (KPVC _) = Some PVCKind"
| "kind_of (KServiceAccount _) = Some ServiceAccountKind"
| "kind_of (KRole _) = Some RoleKind"
| "kind_of (KRoleBinding _) = Some RoleBindingKind"
| "kind_of (KService _) = Some ServiceKind"
| "kind_of (KStatefulSet _) = Some StatefulSetKind"
| "kind_of (KNetworkPolicy _) = Some NetworkPolicyKind"
| "kind_of (KPDB _) = Some PDBKind"
| "kind_of (KJob _) = Some JobKind"
| "kind_of (KPatroni _) = Some PatroniKind"
| "kind_of _ = None"

text \<open>Verb, group and resource. Random bytes are not asked of the API server.\<close>

fun right_of :: "request \<Rightarrow> (string \<times> string \<times> string) option" where
  "right_of (RGet k _ _ _) = Some (''get'', resource k)"
| "right_of (RCreate x) = map_option (\<lambda>k. (''create'', resource k)) (kind_of x)"
| "right_of (RUpdate x) = map_option (\<lambda>k. (''update'', resource k)) (kind_of x)"
| "right_of (RPatch x _) = map_option (\<lambda>k. (''patch'', resource k)) (kind_of x)"
| "right_of (RDelete x _) = map_option (\<lambda>k. (''delete'', resource k)) (kind_of x)"
| "right_of (RListPVCs _ _) = Some (''list'', resource PVCKind)"
| "right_of (RListPods _ _) = Some (''list'', '''', ''pods'')"
| "right_of (RReadLogs _ _ _) = Some (''get'', '''', ''pods/log'')"
| "right_of (RStatusUpdate _) = Some (''update'', ''kwebs.cloud'', ''patronipostgres/status'')"
| "right_of (RRand _) = None"

definition grants :: "policy_rule list \<Rightarrow> string \<times> string \<times> string \<Rightarrow> bool" where
  "grants rules = (\<lambda>(v, g, r). list_ex (\<lambda>x. g \<in> set (rule_groups x) \<and> r \<in> set (rule_resources x) \<and>
     v \<in> set (rule_verbs x)) rules)"

definition allowed :: "policy_rule list \<Rightarrow> request \<Rightarrow> bool" where
  "allowed rules q \<longleftrightarrow> (case q of RRand _ \<Rightarrow> True
     | _ \<Rightarrow> (case right_of q of None \<Rightarrow> False | Some right \<Rightarrow> grants rules right))"

text \<open>
  Nobody may give away rights he does not have: a role, or a binding to it, is refused unless all
  its rules are covered.
\<close>

definition covers :: "policy_rule list \<Rightarrow> policy_rule list \<Rightarrow> bool" where
  "covers rules given \<longleftrightarrow> list_all (\<lambda>x. list_all (\<lambda>g. list_all (\<lambda>r. list_all (\<lambda>v.
     grants rules (v, g, r)) (rule_verbs x)) (rule_resources x)) (rule_groups x)) given"

subsection \<open>Every request of a reconcile is covered\<close>

lemmas marker_defs = operator_rules_def controller_rules_def setup_rules_def networkpolicy_rules_def
  pvc_rules_def secret_rules_def pdb_rules_def rbac_rules_def serviceaccount_rules_def
  granted_rules_def service_rules_def statefulset_rules_def configmap_rules_def
  upgrade_job_rules_def preupgrade_rules_def primary_job_rules_def primary_result_rules_def
  move_rules_def secondary_client_rules_def secondary_rules_def secondary_stream_rules_def rule_def

lemma granted_lists:
  "list_all (\<lambda>k. grants operator_rules (''get'', resource k)) [ConfigMapKind, SecretKind, ServiceAccountKind,
     RoleKind, RoleBindingKind, ServiceKind, StatefulSetKind, NetworkPolicyKind, PDBKind, JobKind, PatroniKind]"
  "list_all (\<lambda>k. grants operator_rules (''create'', resource k)) [ConfigMapKind, SecretKind, PVCKind, ServiceAccountKind,
     RoleKind, RoleBindingKind, ServiceKind, StatefulSetKind, NetworkPolicyKind, PDBKind, JobKind]"
  "list_all (\<lambda>k. grants operator_rules (''update'', resource k)) [ConfigMapKind, SecretKind, ServiceAccountKind,
     RoleKind, RoleBindingKind, ServiceKind, StatefulSetKind, NetworkPolicyKind, PDBKind]"
  "list_all (\<lambda>k. grants operator_rules (''delete'', resource k)) [PVCKind, StatefulSetKind, JobKind]"
  "list_all (grants operator_rules) [(''patch'', resource PVCKind), (''list'', resource PVCKind),
     (''list'', [], ''pods''), (''get'', [], ''pods/log''), (''update'', ''kwebs.cloud'', ''patronipostgres/status'')]"
  by code_simp+

lemma granted:
  "k \<notin> {PVCKind} \<Longrightarrow> grants operator_rules (''get'', resource k)"
  "k \<notin> {PatroniKind} \<Longrightarrow> grants operator_rules (''create'', resource k)"
  "k \<notin> {PVCKind, JobKind, PatroniKind} \<Longrightarrow> grants operator_rules (''update'', resource k)"
  "k \<in> {PVCKind, StatefulSetKind, JobKind} \<Longrightarrow> grants operator_rules (''delete'', resource k)"
  "grants operator_rules (''patch'', resource PVCKind)"
  "grants operator_rules (''list'', resource PVCKind)"
  "grants operator_rules (''list'', [], ''pods'')" "grants operator_rules (''get'', [], ''pods/log'')"
  "grants operator_rules (''update'', ''kwebs.cloud'', ''patronipostgres/status'')"
  using granted_lists by (cases k; simp del: resource.simps)+

lemma foreign_allowed: "foreign q \<Longrightarrow> allowed operator_rules q"
  by (cases q) (auto simp: foreign_def allowed_def granted simp del: resource.simps split: kobj.splits)

lemma status_update_asks: "(\<And>p. P (RStatusUpdate p)) \<Longrightarrow> keeps (asks P) (status_update E)"
  unfolding status_update_def set_inst_def
  by (intro eff_intro) (simp_all add: keeps_def asks_def modify_def)

lemma deferred_update_asks:
  assumes "keeps (asks P) m" and "\<And>p. P (RStatusUpdate p)"
  shows "keeps (asks P) (deferred_update E m)"
proof (rule keepsI)
  fix s r t
  assume run: "deferred_update E m s = (r, t)"
  obtain x u where m: "m s = (x, u)" by fastforce
  note s_u = keepsD [OF assms(1) m]
  from run m have "asks P u t"
  proof (cases rule: deferred_ends)
    case (update y)
    show ?thesis by (rule keepsD [OF status_update_asks [where P = P, OF assms(2)] update(2)])
  qed (simp add: calls.effect_refl)
  with s_u show "asks P s t" by (rule calls.effect_trans)
qed

lemma Reconcile_asks:
  assumes "\<And>q. foreign q \<Longrightarrow> P q" and "P (RGet PatroniKind ns n None)" and "\<And>p. P (RStatusUpdate p)"
  shows "keeps (asks P) (Reconcile E ns n)"
proof -
  have body: "keeps (asks P) (reconcile_body C)" for C
    by (rule asks_mono [OF reconcile_body_asks]) (rule assms(1))
  have set: "keeps (asks P) (set_inst p)" for p
    by (simp add: set_inst_def keeps_def asks_def modify_def)
  show ?thesis
    unfolding Reconcile_def get_instance_def initialize_def
    by (intro eff_intro set status_update_asks deferred_update_asks body assms(2,3))
qed

text \<open>
  C10. The operator's role suffices, and gives nothing away. Whatever the cluster answers, every
  request of a reconcile is one its declared rights allow, and the rights it hands on to the
  pods of a cluster are all its own, as the API server demands of whoever writes a role.
\<close>

theorem requests_allowed:
  "(case Reconcile E ns n s of (r, t) \<Rightarrow>
     list_all (\<lambda>ev. allowed operator_rules (fst ev)) (drop (length (ks_hist s)) (ks_hist t))) \<and>
   covers operator_rules patroni_rules"
proof
  have "keeps (asks (allowed operator_rules)) (Reconcile E ns n)"
    by (rule Reconcile_asks [OF foreign_allowed])
      (simp_all add: allowed_def granted del: resource.simps)
  then show "case Reconcile E ns n s of (r, t) \<Rightarrow>
     list_all (\<lambda>ev. allowed operator_rules (fst ev)) (drop (length (ks_hist s)) (ks_hist t))"
    by (rule asks_drop)
  show "covers operator_rules patroni_rules" by code_simp
qed

end
