(* ===== verification/Manager.thy ===== *)
theory Manager
  imports Ownership Permissions
begin

section \<open>Start-up and what wakes the reconciler: \<open>main.go\<close>, \<open>SetupWithManager\<close>\<close>

text \<open>
  The operator's command line as Go's \<open>flag\<close> package parses it, the calls of \<open>main\<close> in their
  order with the way each failure ends the program, and the watches the reconciler registers.
  What controller-runtime does with the watches is a parameter with documented laws.
\<close>

subsection \<open>The command line\<close>

definition ParseBool :: "string \<Rightarrow> bool option" where
  \<comment> \<open>\<open>strconv.ParseBool\<close>\<close>
  "ParseBool s =
     (if List.member [''1'', ''t'', ''T'', ''true'', ''TRUE'', ''True''] s then Some True
      else if List.member [''0'', ''f'', ''F'', ''false'', ''FALSE'', ''False''] s then Some False
      else None)"

text \<open>The variables the flags are bound to; what the logging library binds is passed on to it.\<close>

record operator_flags =
  fl_metricsAddr :: string
  fl_probeAddr :: string
  fl_enableLeaderElection :: bool
  fl_upgradeImage :: string
  fl_zap :: "(string \<times> string) list"

text \<open>A defined flag: whether it is boolean, and its \<open>Set\<close>; \<open>None\<close> is the error of a bad value.\<close>

record flag_def =
  fd_bool :: bool
  fd_set :: "string \<Rightarrow> operator_flags \<Rightarrow> operator_flags option"

definition StringVar :: "(string \<Rightarrow> operator_flags \<Rightarrow> operator_flags) \<Rightarrow> flag_def" where
  "StringVar upd = \<lparr>fd_bool = False, fd_set = (\<lambda>v f. Some (upd v f))\<rparr>"

definition BoolVar :: "(bool \<Rightarrow> operator_flags \<Rightarrow> operator_flags) \<Rightarrow> flag_def" where
  "BoolVar upd = \<lparr>fd_bool = True, fd_set = (\<lambda>v f. map_option (\<lambda>b. upd b f) (ParseBool v))\<rparr>"

text \<open>
  The flags of \<open>main\<close> and of \<open>private/upgrade\<close>, then those the libraries add, the logging library
  and the \<open>kubeconfig\<close> of controller-runtime: their names, which of them are boolean, and the values
  they take.
\<close>

type_synonym zap_flags = "(string \<times> bool \<times> (string \<Rightarrow> bool)) list"

definition formal_flags :: "zap_flags \<Rightarrow> (string \<times> flag_def) list" where
  "formal_flags zap =
    [(''metrics-bind-address'', StringVar (\<lambda>v f. f\<lparr>fl_metricsAddr := v\<rparr>)),
     (''health-probe-bind-address'', StringVar (\<lambda>v f. f\<lparr>fl_probeAddr := v\<rparr>)),
     (''leader-elect'', BoolVar (\<lambda>b f. f\<lparr>fl_enableLeaderElection := b\<rparr>)),
     (''upgrade-image'', StringVar (\<lambda>v f. f\<lparr>fl_upgradeImage := v\<rparr>))] @
    map (\<lambda>(n, b, accepts). (n, \<lparr>fd_bool = b,
      fd_set = (\<lambda>v f. if accepts v then Some (f\<lparr>fl_zap := fl_zap f @ [(n, v)]\<rparr>) else None)\<rparr>)) zap"

definition default_flags :: "string \<Rightarrow> operator_flags" where
  "default_flags img = \<lparr>fl_metricsAddr = '':8080'', fl_probeAddr = '':8081'',
     fl_enableLeaderElection = False, fl_upgradeImage = img, fl_zap = []\<rparr>"

text \<open>\<open>-name\<close>, \<open>--name\<close>, either with \<open>=value\<close>: the name and the value.\<close>

definition cut_value :: "string \<Rightarrow> string \<times> string option" where
  "cut_value body = (takeWhile (\<lambda>c. c \<noteq> CHR ''='') body,
     (case dropWhile (\<lambda>c. c \<noteq> CHR ''='') body of [] \<Rightarrow> None | _ # v \<Rightarrow> Some v))"

text \<open>
  Parsing stops at the first argument that is no flag. A boolean flag takes a value only after
  \<open>=\<close>; another one takes the next argument if it has none. A mistake exits with 2, a request for
  help with 0.
\<close>

fun flag_Parse :: "(string \<times> flag_def) list \<Rightarrow> string list \<Rightarrow> operator_flags \<Rightarrow> int + operator_flags" where
  "flag_Parse fs [] f = Inr f"
| "flag_Parse fs (s # rest) f =
     (if length s < 2 \<or> hd s \<noteq> CHR ''-'' \<or> s = ''--'' then Inr f
      else
        let body = (if s ! 1 = CHR ''-'' then drop 2 s else drop 1 s) in
        if hd body = CHR ''-'' \<or> hd body = CHR ''='' then Inl 2
        else case map_of fs (fst (cut_value body)) of
          None \<Rightarrow> Inl (if fst (cut_value body) = ''help'' \<or> fst (cut_value body) = ''h'' then 0 else 2)
        | Some d \<Rightarrow> (case (snd (cut_value body), rest) of
            (Some v, _) \<Rightarrow> (case fd_set d v f of None \<Rightarrow> Inl 2 | Some f' \<Rightarrow> flag_Parse fs rest f')
          | (None, _) \<Rightarrow>
              if fd_bool d then (case fd_set d ''true'' f of None \<Rightarrow> Inl 2 | Some f' \<Rightarrow> flag_Parse fs rest f')
              else (case rest of
                  [] \<Rightarrow> Inl 2
                | v # rest' \<Rightarrow> (case fd_set d v f of None \<Rightarrow> Inl 2 | Some f' \<Rightarrow> flag_Parse fs rest' f'))))"

definition flag_arg :: "string \<Rightarrow> string \<Rightarrow> string" where
  "flag_arg n v = ''--'' @ n @ ''='' @ v"

definition print_flags :: "operator_flags \<Rightarrow> string list" where
  "print_flags f =
    [flag_arg ''metrics-bind-address'' (fl_metricsAddr f),
     flag_arg ''health-probe-bind-address'' (fl_probeAddr f),
     flag_arg ''leader-elect'' (if fl_enableLeaderElection f then ''true'' else ''false''),
     flag_arg ''upgrade-image'' (fl_upgradeImage f)]"

lemma flag_Parse_value:
  assumes "map_of fs n = Some d" and "CHR ''='' \<notin> set n" and "n \<noteq> []" and "hd n \<noteq> CHR ''-''"
  shows "flag_Parse fs (flag_arg n v # rest) f =
    (case fd_set d v f of None \<Rightarrow> Inl 2 | Some f' \<Rightarrow> flag_Parse fs rest f')"
proof -
  obtain c cs where n: "n = c # cs" using assms(3) by (cases n) auto
  have cut: "cut_value (n @ CHR ''='' # v) = (n, Some v)"
    using assms(2) by (auto simp: cut_value_def takeWhile_append dropWhile_append)
  have "c \<noteq> CHR ''=''" "c \<noteq> CHR ''-''" using assms(2,4) n by auto
  with assms(1) cut show ?thesis by (simp add: n flag_arg_def Let_def)
qed

text \<open>
  The command line carries every setting through unchanged: whatever text an address or
  an image name is, an equals sign or a dash in it included, the flags written as \<open>--name=value\<close>
  are parsed back to the same settings, and what follows \<open>--\<close> is not looked at.
\<close>

theorem flags_roundtrip:
  "flag_Parse (formal_flags zap) (print_flags f @ ''--'' # rest) (default_flags img) = Inr (f\<lparr>fl_zap := []\<rparr>)"
proof -
  have bools: "ParseBool ''true'' = Some True" "ParseBool ''false'' = Some False" by code_simp+
  have vars: "map_of (formal_flags zap) ''metrics-bind-address'' = Some (StringVar (\<lambda>v f. f\<lparr>fl_metricsAddr := v\<rparr>))"
    "map_of (formal_flags zap) ''health-probe-bind-address'' = Some (StringVar (\<lambda>v f. f\<lparr>fl_probeAddr := v\<rparr>))"
    "map_of (formal_flags zap) ''leader-elect'' = Some (BoolVar (\<lambda>b f. f\<lparr>fl_enableLeaderElection := b\<rparr>))"
    "map_of (formal_flags zap) ''upgrade-image'' = Some (StringVar (\<lambda>v f. f\<lparr>fl_upgradeImage := v\<rparr>))"
    by (simp_all add: formal_flags_def)
  note parse = vars [THEN flag_Parse_value]
  show ?thesis
    by (cases f) (simp add: print_flags_def parse StringVar_def BoolVar_def default_flags_def bools
        del: flag_Parse.simps(2), simp)
qed

subsection \<open>The watches\<close>

text \<open>
  What \<open>SetupWithManager\<close> hands to the controller builder, as it builds it: the kinds, the
  predicates that let an event through and the handlers that map it to requests.
\<close>

datatype watch_predicate = GenerationChangedPredicate | Not_Predicate watch_predicate
datatype watch_handler = EnqueueRequestForObject | EnqueueRequestForOwner kind

record watch =
  wa_kind :: kind
  wa_handler :: watch_handler
  wa_predicates :: "watch_predicate list"

definition watchPredicates :: watch_predicate where
  "watchPredicates = Not_Predicate GenerationChangedPredicate"

definition watches :: "watch list" where
  "watches =
    [\<lparr>wa_kind = PatroniKind, wa_handler = EnqueueRequestForObject,
       wa_predicates = [GenerationChangedPredicate]\<rparr>,
     \<lparr>wa_kind = PVCKind, wa_handler = EnqueueRequestForOwner PatroniKind, wa_predicates = []\<rparr>,
     \<lparr>wa_kind = StatefulSetKind, wa_handler = EnqueueRequestForOwner PatroniKind,
       wa_predicates = [watchPredicates]\<rparr>,
     \<lparr>wa_kind = JobKind, wa_handler = EnqueueRequestForOwner PatroniKind,
       wa_predicates = [watchPredicates]\<rparr>]"

text \<open>
  An event of the cluster, and what controller-runtime makes of it: whether a predicate lets
  it through, the requests of a handler, and those a list of watches puts into the queue.
\<close>

datatype watch_event = Created kobj | Updated kobj kobj | Deleted kobj | Generic kobj

fun event_object :: "watch_event \<Rightarrow> kobj" where
  "event_object (Created x) = x"
| "event_object (Updated _ x) = x"
| "event_object (Deleted x) = x"
| "event_object (Generic x) = x"

record runtime =
  rt_generation :: "kobj \<Rightarrow> nat"
  rt_passes :: "watch_predicate \<Rightarrow> watch_event \<Rightarrow> bool"
  rt_requests :: "watch_handler \<Rightarrow> watch_event \<Rightarrow> (string \<times> string) list"
  rt_enqueued :: "watch list \<Rightarrow> watch_event \<Rightarrow> (string \<times> string) list"

text \<open>
  The documented laws. \<open>GenerationChangedPredicate\<close> stops an update that leaves the object's
  generation as it was, and nothing else; \<open>Not\<close> negates; a watch passes on the events of its
  kind that all its predicates let through; \<open>EnqueueRequestForOwner\<close> yields the owners of a type
  that \<open>SetOwnerReference\<close> has put into an object's metadata.
\<close>

definition runtime_laws :: "runtime \<Rightarrow> kube_env \<Rightarrow> bool" where
  "runtime_laws R E \<longleftrightarrow>
     (\<forall>x y. rt_passes R GenerationChangedPredicate (Updated x y) \<longleftrightarrow> rt_generation R x \<noteq> rt_generation R y) \<and>
     (\<forall>p ev. rt_passes R (Not_Predicate p) ev \<longleftrightarrow> \<not> rt_passes R p ev) \<and>
     (\<forall>ws ev. set (rt_enqueued R ws ev) = (\<Union>w \<in> {w \<in> set ws. kind_of (event_object ev) = Some (wa_kind w) \<and>
        list_all (\<lambda>p. rt_passes R p ev) (wa_predicates w)}. set (rt_requests R (wa_handler w) ev))) \<and>
     (\<forall>p m ev. meta_of (event_object ev) = Some m \<longrightarrow> of_instance E (identity p) m \<longrightarrow>
        (pp_namespace p, pp_name p) \<in> set (rt_requests R (EnqueueRequestForOwner PatroniKind) ev))"

text \<open>An object at a later time: of the same kind and generation, so only its status has changed.\<close>

definition status_event :: "runtime \<Rightarrow> kobj \<Rightarrow> kobj \<Rightarrow> bool" where
  "status_event R x y \<longleftrightarrow> kind_of y = kind_of x \<and> rt_generation R y = rt_generation R x"

lemma status_event_enqueued:
  assumes "runtime_laws R E" and "status_event R x y"
    and "kind_of x = Some StatefulSetKind \<or> kind_of x = Some JobKind"
    and "meta_of y = Some m" and "of_instance E (identity p) m"
  shows "(pp_namespace p, pp_name p) \<in> set (rt_enqueued R watches (Updated x y))"
proof -
  have "(pp_namespace p, pp_name p) \<in> set (rt_requests R (EnqueueRequestForOwner PatroniKind) (Updated x y))"
    using assms(1,4,5) by (simp add: runtime_laws_def)
  moreover have "\<exists>w \<in> set watches. kind_of y = Some (wa_kind w) \<and>
      wa_handler w = EnqueueRequestForOwner PatroniKind \<and> wa_predicates w = [watchPredicates]"
    using assms(2,3) by (auto simp: status_event_def watches_def)
  moreover have "rt_passes R watchPredicates (Updated x y)"
    using assms(1,2) by (simp add: runtime_laws_def watchPredicates_def status_event_def)
  moreover have "set (rt_enqueued R watches (Updated x y)) = (\<Union>w \<in> {w \<in> set watches.
      kind_of y = Some (wa_kind w) \<and> list_all (\<lambda>p. rt_passes R p (Updated x y)) (wa_predicates w)}.
      set (rt_requests R (wa_handler w) (Updated x y)))"
    using assms(1) by (simp add: runtime_laws_def)
  ultimately show ?thesis by fastforce
qed

text \<open>
  The operator's own status writes never wake it: an update of the instance that does not
  change its generation puts nothing into the queue. So after progress it has to ask for another
  run itself, which is what the result \<open>Requeue\<close> of an upgrade step does.
\<close>

theorem status_writes_do_not_wake:
  assumes "runtime_laws R E" and "rt_generation R (KPatroni p) = rt_generation R (KPatroni q)"
  shows "rt_enqueued R watches (Updated (KPatroni p) (KPatroni q)) = []"
proof -
  have "set (rt_enqueued R watches (Updated (KPatroni p) (KPatroni q))) = {}"
    using assms unfolding runtime_laws_def by (simp, auto simp: watches_def)
  then show ?thesis by simp
qed

subsection \<open>\<open>main\<close>\<close>

text \<open>
  The calls of \<open>main\<close>, in the order it makes them; what each returns is an answer of the
  environment, \<open>None\<close> for success. \<open>Build\<close> is the controller builder, given the watches.
\<close>

record manager_options =
  mo_HealthProbeBindAddress :: string
  mo_LeaderElection :: bool
  mo_LeaderElectionID :: string
  mo_MetricsBindAddress :: string
  mo_WebhookPort :: int

text \<open>What the API package registers its types with: its group and version, and the types.\<close>

type_synonym scheme_builder = "(string \<times> string) \<times> string list"

definition GroupVersion :: "string \<times> string" where
  "GroupVersion = (''kwebs.cloud'', ''v1alpha1'')"

definition SchemeBuilder :: scheme_builder where
  "SchemeBuilder = (GroupVersion, [''PatroniPostgres'', ''PatroniPostgresList''])"

datatype start_call =
    AddToScheme scheme_builder | GetConfigOrDie | NewManager manager_options | NewClient | NewForConfigOrDie
  | Complete "watch list" | AddHealthzCheck string | AddReadyzCheck string | StartManager

type_synonym start_state = "(start_call \<times> string option) list"
type_synonym 'a start_op = "(start_state, int, 'a) op"

record start_env =
  se_call :: "start_state \<Rightarrow> start_call \<Rightarrow> string option"
  se_args :: "string list"
  se_zap :: zap_flags
  se_default_image :: string

definition start_call :: "start_env \<Rightarrow> start_call \<Rightarrow> string option start_op" where
  "start_call S q = bnd (gets (\<lambda>h. se_call S h q)) (\<lambda>r. bnd (modify (\<lambda>h. h @ [(q, r)])) (\<lambda>_. ret r))"

text \<open>An error is logged and the program exits with 1; \<open>Must\<close> and \<open>OrDie\<close> of a client set panic.\<close>

definition or_exit :: "string option \<Rightarrow> unit start_op" where
  "or_exit r = (if r = None then ret () else fail 1)"

definition or_panic :: "string option \<Rightarrow> unit start_op" where
  "or_panic r = (if r = None then ret () else panic)"

text \<open>
  The handlers of the watches are built with \<open>r.RESTMapper()\<close>, a method of the embedded client:
  it panics if there is none.
\<close>

definition SetupWithManager :: "start_env \<Rightarrow> bool \<Rightarrow> string option start_op" where
  "SetupWithManager S has_client = (if \<not> has_client then panic else start_call S (Complete watches))"

definition manager_options_of :: "operator_flags \<Rightarrow> manager_options" where
  "manager_options_of f = \<lparr>mo_HealthProbeBindAddress = fl_probeAddr f,
     mo_LeaderElection = fl_enableLeaderElection f, mo_LeaderElectionID = ''patronipostgres.kwebs.cloud'',
     mo_MetricsBindAddress = fl_metricsAddr f, mo_WebhookPort = 9443\<rparr>"

text \<open>The package's \<open>init\<close> runs first. The error of \<open>client.New\<close> is dropped, and its client with it.\<close>

definition main :: "start_env \<Rightarrow> unit start_op" where
  "main S =
     bnd (bnd (start_call S (AddToScheme SchemeBuilder)) or_panic) (\<lambda>_.
     bnd (of_sum (flag_Parse (formal_flags (se_zap S)) (se_args S) (default_flags (se_default_image S)))) (\<lambda>f.
     bnd (bnd (start_call S GetConfigOrDie) or_exit) (\<lambda>_.
     bnd (bnd (start_call S (NewManager (manager_options_of f))) or_exit) (\<lambda>_.
     bnd (start_call S NewClient) (\<lambda>cl.
     bnd (bnd (start_call S NewForConfigOrDie) or_panic) (\<lambda>_.
     bnd (bnd (SetupWithManager S (cl = None)) or_exit) (\<lambda>_.
     bnd (bnd (start_call S (AddHealthzCheck ''healthz'')) or_exit) (\<lambda>_.
     bnd (bnd (start_call S (AddReadyzCheck ''readyz'')) or_exit) (\<lambda>_.
     bnd (start_call S StartManager) or_exit)))))))))"

definition start_sequence :: "operator_flags \<Rightarrow> start_call list" where
  "start_sequence f = [AddToScheme SchemeBuilder, GetConfigOrDie, NewManager (manager_options_of f), NewClient,
     NewForConfigOrDie, Complete watches, AddHealthzCheck ''healthz'', AddReadyzCheck ''readyz'', StartManager]"

lemma start_call_run: "start_call S q h = (Ok (se_call S h q), h @ [(q, se_call S h q)])"
  by (simp add: start_call_def bnd_run run_simps)

lemma then_run:
  "bnd (start_call S q) g h = g (se_call S h q) (h @ [(q, se_call S h q)])"
  "bnd (bnd (start_call S q) or_exit) g' h = (case se_call S h q of
     None \<Rightarrow> g' () (h @ [(q, None)]) | Some e \<Rightarrow> (Err 1, h @ [(q, Some e)]))"
  "bnd (bnd (start_call S q) or_panic) g' h = (case se_call S h q of
     None \<Rightarrow> g' () (h @ [(q, None)]) | Some e \<Rightarrow> (Panic, h @ [(q, Some e)]))"
  "bnd (bnd (SetupWithManager S b) or_exit) g' h = (if b then (case se_call S h (Complete watches) of
     None \<Rightarrow> g' () (h @ [(Complete watches, None)]) | Some e \<Rightarrow> (Err 1, h @ [(Complete watches, Some e)]))
     else (Panic, h))"
  by (simp_all add: SetupWithManager_def bnd_run start_call_run or_exit_def or_panic_def ret_run fail_run
      panic_run split: option.splits)

lemma last_run: "or_exit r h = (case r of None \<Rightarrow> (Ok (), h) | Some e \<Rightarrow> (Err 1, h))"
  by (simp add: or_exit_def ret_run fail_run split: option.splits)

text \<open>
  C26. How the operator starts, or fails to. A bad command line ends the program before anything
  is asked. Otherwise the calls are made in a fixed order with the settings of the flags, the
  manager runs only when every other call has succeeded, and the program ends well only when
  the manager has too. The first failure is the last call made, and ends the program with 1;
  but for the scheme and the two clients a failure panics, and one of \<open>client.New\<close> is not even
  noticed before one more call has been made.
\<close>

theorem main_starts:
  "case main S [] of (r, t) \<Rightarrow>
   (case flag_Parse (formal_flags (se_zap S)) (se_args S) (default_flags (se_default_image S)) of
      Inl c \<Rightarrow> map fst t = [AddToScheme SchemeBuilder] \<and> (r = Err c \<or> r = Panic)
    | Inr f \<Rightarrow> map fst t = take (length t) (start_sequence f) \<and>
       (r = Ok () \<longleftrightarrow> t = map (\<lambda>q. (q, None)) (start_sequence f)) \<and>
       (case r of
          Ok _ \<Rightarrow> True
        | Err c \<Rightarrow> c = 1 \<and> list_all (\<lambda>(q, a). a = None) (butlast t) \<and> snd (last t) \<noteq> None \<and>
            fst (last t) \<notin> {AddToScheme SchemeBuilder, NewClient, NewForConfigOrDie}
        | Panic \<Rightarrow> (length t = 1 \<or> length t = 5) \<and>
            list_ex (\<lambda>(q, a). a \<noteq> None \<and> q \<in> {AddToScheme SchemeBuilder, NewClient, NewForConfigOrDie}) t))"
  by (cases "flag_Parse (formal_flags (se_zap S)) (se_args S) (default_flags (se_default_image S))")
    (simp_all add: main_def start_sequence_def then_run last_run bnd_run [of "of_sum _"] ret_run fail_run
      of_sum_def split: option.splits)

end
