(* ===== verification/Waiting.thy ===== *)
theory Waiting
  imports Step_Props Manager
begin

section \<open>A waiting upgrade is woken\<close>

text \<open>
  A step that is not done returns and is called again only when something wakes the reconciler.
  Each such return is shown to follow an answer of the API server with an object still on its
  way, of a kind whose status changes are watched.
\<close>

subsection \<open>What a step waits for\<close>

definition unfinished :: "job \<Rightarrow> bool" where
  "unfinished job \<longleftrightarrow> \<not> int32_pos (job_succeeded job) \<and> \<not> int32_pos (job_failed job)"

text \<open>
  A job that has just been created or has not ended; a stateful set that still has available
  replicas, or whose ready replicas are not as many as there are nodes.
\<close>

definition pending :: "patroni \<Rightarrow> request \<Rightarrow> kobj \<Rightarrow> bool" where
  "pending p q x \<longleftrightarrow> (case x of
       KJob job \<Rightarrow> unfinished job \<or> (case q of RCreate _ \<Rightarrow> True | _ \<Rightarrow> False)
     | KStatefulSet y \<Rightarrow> sts_available y \<noteq> 0 \<or> sint (sts_ready y) \<noteq> int (length (pp_nodes p))
     | _ \<Rightarrow> False)"

definition waits :: "kstate \<Rightarrow> kstate \<Rightarrow> bool" where
  "waits s t \<longleftrightarrow> (\<exists>q x. told s t q x \<and> pending (ks_inst s) q x)"

lemma pending_job: "unfinished job \<Longrightarrow> pending p q (KJob job)"
  by (simp add: pending_def)

lemma pending_sts:
  "sts_available y \<noteq> 0 \<or> sint (sts_ready y) \<noteq> int (length (pp_nodes p)) \<Longrightarrow> pending p q (KStatefulSet y)"
  by (simp add: pending_def)

lemma waits_mono:
  assumes "told v u q x" and "extends s v" and "extends u t" and "pending (ks_inst s) q x"
  shows "waits s t"
  using told_mono [OF assms(1-3)] assms(4) unfolding waits_def by blast

lemma waits_later: "told s u q (KJob job) \<Longrightarrow> unfinished job \<Longrightarrow> extends u t \<Longrightarrow> waits s t"
  by (rule waits_mono [OF _ calls.effect_refl _ pending_job])

subsection \<open>The steps with a job\<close>

lemma settle_waits: "settle C job e s = (Ok False, t) \<Longrightarrow> unfinished job \<and> extends s t"
  by (auto simp: settle_run unfinished_def Let_def asks_def split: if_splits sum.splits)

lemma found_step_waits:
  fixes f :: "job \<Rightarrow> unit kop"
  assumes "bnd (found (kget (wx_env C) JobT ns n))
      (\<lambda>r. case r of None \<Rightarrow> bnd m (\<lambda>_. ret False)
         | Some job \<Rightarrow> bnd (f job) (\<lambda>_. settle C job e)) s = (Ok False, t)"
    and "\<And>job. keeps extends (f job)"
    and "\<And>u. m u = (Ok (), t) \<Longrightarrow> \<exists>job job'. told u t (RCreate (KJob job)) (KJob job')"
  shows "waits s t"
proof -
  from assms(1) obtain r u where get: "found (kget (wx_env C) JobT ns n) s = (Ok r, u)"
    and rest: "(case r of None \<Rightarrow> bnd m (\<lambda>_. ret False)
       | Some job \<Rightarrow> bnd (f job) (\<lambda>_. settle C job e)) u = (Ok False, t)"
    by (auto simp: bnd_Ok_inv)
  from kget_job [OF get] have u: "extends s u" and
    told: "\<And>job. r = Some job \<Longrightarrow> told s u (RGet JobKind ns n None) (KJob job)" by auto
  show ?thesis
  proof (cases r)
    case None
    with rest have "m u = (Ok (), t)" by (auto simp: op_inv)
    from assms(3) [OF this] obtain job job' where "told u t (RCreate (KJob job)) (KJob job')" by blast
    from waits_mono [OF this u calls.effect_refl] show ?thesis by (simp add: pending_def)
  next
    case (Some job)
    with rest obtain v where f: "f job u = (Ok (), v)" and st: "settle C job e v = (Ok False, t)"
      by (auto simp: op_inv)
    from settle_waits [OF st] keepsD [OF assms(2) f] have "unfinished job" "extends u t"
      by (auto intro: calls.effect_trans)
    with told [OF Some] show ?thesis by (blast intro: waits_later)
  qed
qed

lemma ensured_step_waits:
  assumes "upgradejob j extra" and "bnd (ensureUpgradeJob C j) (\<lambda>job. settle C job e) v = (Ok False, t)"
    and "extends s v"
  shows "waits s t"
proof -
  from assms(2) obtain job u where ens: "ensureUpgradeJob C j v = (Ok job, u)"
    and st: "settle C job e u = (Ok False, t)" by (auto simp: op_inv)
  from ensure_told [OF assms(1) ens] obtain q where "told v u q (KJob job)" by blast
  with settle_waits [OF st] assms(3) show ?thesis by (blast intro: waits_mono pending_job)
qed

text \<open>Both jobs on the leader's volume are created at the end of what precedes them.\<close>

definition creates_job :: "unit kop \<Rightarrow> bool" where
  "creates_job m \<longleftrightarrow> (\<forall>u t. m u = (Ok (), t) \<longrightarrow> (\<exists>job job'. told u t (RCreate (KJob job)) (KJob job')))"

lemma creates_job_end: "creates_job (bnd (kcreate E JobT job) (\<lambda>_. ret ()))"
  by (auto simp: creates_job_def op_inv dest: kcreate_told)

lemma creates_job_bnd: "keeps extends m \<Longrightarrow> (\<And>x. creates_job (f x)) \<Longrightarrow> creates_job (bnd m f)"
  by (fastforce simp: creates_job_def op_inv dest: keepsD intro: told_mono calls.effect_refl)

lemma create_jobs_told: "creates_job (create_primary_job C)" "creates_job (create_move_job C)"
  unfolding create_primary_job_def create_move_job_def Let_def
  by (intro creates_job_end creates_job_bnd; intro eff_intro; simp)+

lemma primary_waits:
  assumes "primary_handle C s = (Ok False, t)"
  shows "waits s t"
proof (rule found_step_waits)
  show "bnd (found (kget (wx_env C) JobT (pp_namespace (ks_inst s)) (primary_jobname (ks_inst s))))
      (\<lambda>r. case r of None \<Rightarrow> bnd (create_primary_job C) (\<lambda>_. ret False)
         | Some job \<Rightarrow> bnd (when_op (int32_pos (job_succeeded job))
             (bnd (getResultFromPrimaryUpgradeJob C job) (record_primary_result C)))
             (\<lambda>_. settle C job ErrPrimaryUpgradeJobFailed)) s = (Ok False, t)"
    using assms unfolding primary_handle_def settle_def by (simp add: bnd_run [of inst] inst_run)
  show "\<exists>job job'. told u t (RCreate (KJob job)) (KJob job')" if "create_primary_job C u = (Ok (), t)" for u
    using that create_jobs_told(1) unfolding creates_job_def by blast
qed (unfold record_primary_result_def, intro eff_intro; simp)

lemma move_waits:
  assumes "move_handle C s = (Ok False, t)"
  shows "waits s t"
proof (rule found_step_waits)
  show "bnd (found (kget (wx_env C) JobT (pp_namespace (ks_inst s)) (move_jobname (ks_inst s))))
      (\<lambda>r. case r of None \<Rightarrow> bnd (create_move_job C) (\<lambda>_. ret False)
         | Some job \<Rightarrow> bnd (when_op (int32_pos (job_succeeded job))
             (set_status (\<lambda>st. st\<lparr>st_version := st_upgrade_version st\<rparr>)))
             (\<lambda>_. settle C job ErrPrimaryUpgradeMoveJobFailed)) s = (Ok False, t)"
    using assms unfolding move_handle_def settle_def by (simp add: bnd_run [of inst] inst_run)
  show "\<exists>job job'. told u t (RCreate (KJob job)) (KJob job')" if "create_move_job C u = (Ok (), t)" for u
    using that create_jobs_told(2) unfolding creates_job_def by blast
qed (intro eff_intro)

lemma preupgrade_waits:
  assumes "preupgrade_handle C s = (Ok False, t)"
  shows "waits s t"
proof -
  from assms obtain job u where ens: "ensureUpgradeJob C preupgradeJob s = (Ok job, u)"
    and st: "\<not> int32_pos (job_succeeded job)" "settle C job ErrPreupgradeJobFailed u = (Ok False, t)"
    by (auto simp: preupgrade_handle_def settle_def op_inv split: if_splits option.splits)
  from ensure_told [OF preupgrade.upgradejob_axioms ens] obtain q where "told s u q (KJob job)" by blast
  with settle_waits [OF st(2)] show ?thesis by (blast intro: waits_later)
qed

lemma sync_waits:
  assumes "preupgradeSync_handle C s = (Ok False, t)"
  shows "waits s t"
proof -
  from assms obtain a u b v where
    ab: "ReconcileSts C [sts_withPostgresqlPort_Patch 55432, withPausedPatroni_Patch] s = (Ok a, u)"
      "ReconcileService C [withPostgresqlPort_Patch 55432, withPatroniAPI_Patch] u = (Ok b, v)"
    and st: "bnd (ensureUpgradeJob C preupgradeSyncJob) (\<lambda>job. settle C job ErrPreupgradeSyncJobFailed) v = (Ok False, t)"
    by (auto simp: preupgradeSync_handle_def bnd_run [of inst] inst_run op_inv preupgradeSyncJob_def
        postgresqlMaintenancePort_def settle_def [symmetric] split: if_splits)
  have "extends s v"
    using extends_ops(3) [OF ab(1)] extends_ops(4) [OF ab(2)] by (rule calls.effect_trans)
  with ensured_step_waits [OF preupgrade_sync.upgradejob_axioms st] show ?thesis .
qed

subsection \<open>The steps with a stateful set\<close>

lemma unwrap_sts: "kt_unwrap StatefulSetT x = Some y \<longleftrightarrow> x = KStatefulSet y"
  by (simp add: StatefulSetT_def split: kobj.splits)

lemma sts_write_told:
  "kupdate E StatefulSetT x s = (Ok y, t) \<Longrightarrow> \<exists>q. told s t q (KStatefulSet y)"
  "create_or_update E StatefulSetT b x s = (Ok y, t) \<Longrightarrow> \<exists>q. told s t q (KStatefulSet y)"
  by (auto simp: create_or_update_def kupdate_def kcreate_def bnd_Ok_inv ask_Ok decode_as_Ok unwrap_sts
      dest!: told_after split: if_splits)

lemma scaledown_waits:
  assumes "scaledown_handle C s = (Ok False, t)"
  shows "waits s t"
proof -
  from assms obtain y z u v where get: "GetK8SStatefulSet C s = (Ok z, u)"
    and up: "kupdate (wx_env C) StatefulSetT (z\<lparr>sts_spec := (sts_spec z)\<lparr>ss_replicas := Some 0\<rparr>\<rparr>) u = (Ok y, v)"
    and y: "sts_available y \<noteq> 0" and t: "extends v t"
    by (auto simp: scaledown_handle_def op_inv set_status_run asks_def)
  have "extends s u" using keepsD [OF GetK8SStatefulSet_asks get] by simp
  with sts_write_told(1) [OF up] t y show ?thesis by (blast intro: waits_mono pending_sts)
qed

lemma ReconcileSts_told:
  assumes "ReconcileSts C [] s = (Ok y, t)"
  shows "\<exists>q. told s t q (KStatefulSet y)"
proof -
  from assms obtain r u x v b x1 w t' where get: "found (GetK8SStatefulSet C) s = (Ok r, u)"
    and meta: "set_meta_of C StatefulSetT x u = (Ok x1, v)"
    and up: "create_or_update (wx_env C) StatefulSetT b w v = (Ok y, t')" and t: "ks_hist t = ks_hist t'"
    unfolding ReconcileSts_def Let_def by (auto simp: op_inv set_status_run)
  from sts_write_told(2) [OF up] obtain q where "told v t' q (KStatefulSet y)" by blast
  moreover have "extends s v"
    using keepsD [OF found_asks [OF GetK8SStatefulSet_asks [of "\<lambda>_. True"]] get]
      keepsD [OF set_meta_of_asks [of "\<lambda>_. True"] meta]
    by (auto intro: calls.effect_trans)
  ultimately have "told s t' q (KStatefulSet y)"
    by (blast intro: told_mono calls.effect_refl)
  with t show ?thesis by (auto simp: told_def)
qed

lemma postupgrade_waits:
  assumes "postupgrade_handle C s = (Ok False, t)"
  shows "waits s t"
proof -
  from assms obtain y u b v where a: "ReconcileSts C [] s = (Ok y, u)"
    and b: "service_Reconcile C u = (Ok b, v)"
    and rest: "sint (sts_ready y) \<noteq> int (length (pp_nodes (ks_inst v))) \<and> t = v \<or>
      bnd (ensureUpgradeJob C postupgradeJob) (\<lambda>job. settle C job ErrPostupgradeJobFailed) v = (Ok False, t)"
    by (auto simp: postupgrade_handle_def op_inv settle_def [symmetric])
  have ext: "extends u v" "extends s v"
    using extends_ops(3) [OF a] extends_ops(4) [OF b [unfolded service_Reconcile_def]]
    by (auto intro: calls.effect_trans)
  have nodes: "pp_nodes (ks_inst v) = pp_nodes (ks_inst s)"
    using keepsD [OF service_Reconcile_same [where f = pp_nodes] b] keepsD [OF ReconcileSts_same [where f = pp_nodes] a]
    by (simp add: same_def)
  from rest show ?thesis
  proof
    assume "sint (sts_ready y) \<noteq> int (length (pp_nodes (ks_inst v))) \<and> t = v"
    with nodes ReconcileSts_told [OF a] ext(1) show ?thesis
      by (metis waits_mono [OF _ calls.effect_refl _ pending_sts])
  qed (rule ensured_step_waits [OF postupgrade.upgradejob_axioms _ ext(2)])
qed

lemma count_loop_waits:
  "for_acc jobs (a, b) (count_secondary C) s = (Ok (n, b), t) \<Longrightarrow> n \<noteq> a + length jobs \<Longrightarrow>
   \<exists>job \<in> set jobs. unfinished job"
proof (induction jobs arbitrary: a s)
  case (Cons job jobs)
  then obtain a' b' u where step: "count_secondary C job (a, b) s = (Ok (a', b'), u)"
    and rest: "for_acc jobs (a', b') (count_secondary C) u = (Ok (n, b), t)"
    by (auto simp: bnd_Ok_inv)
  from count_loop [OF rest] step have "b' = b" "a' = a + 1 \<or> unfinished job"
    by (auto simp: count_secondary_def bnd_Ok_inv ret_inv unfinished_def split: if_splits)
  with Cons.IH [of a' u] Cons.prems(2) rest show ?case by auto
qed (simp add: ret_inv)

lemma secondary_waits:
  assumes "secondary_handle C s = (Ok False, t)"
  shows "waits s t"
proof -
  from assms obtain leader u1 sts u2 jobs u3 n u4 where
    lead: "GetSyncLeader C s = (Ok leader, u1)"
    and str: "upgradeSecondariesEnsurestreamer C leader u1 = (Ok sts, u2)"
    and cl: "upgradeSecondariesEnsureseclients C leader sts u2 = (Ok jobs, u3)"
    and cnt: "for_acc jobs (0, 0) (count_secondary C) u3 = (Ok (n, 0), u4)" "n \<noteq> length jobs" and t: "t = u4"
    by (auto simp: secondary_handle_def bnd_Ok_inv inst_inv ret_inv fail_inv if_op_inv case_prod_inv)
  from cl obtain loc newid u2' where args: "GetSecondaryStreamArgs C u2 = (Ok (loc, newid), u2')"
    and loop: "for_acc (enumerate 0 (pp_volumes (ks_inst u2'))) [] (\<lambda>iv jobs. if int (fst iv) = leader then ret jobs
      else bnd (ensure_secondary_job C sts loc newid iv) (\<lambda>job. ret (jobs @ [job]))) u2' = (Ok jobs, u3)"
    by (auto simp: upgradeSecondariesEnsureseclients_def bnd_Ok_inv inst_inv)
  from secondary_ops(3) [OF lead] secondary_ops(2) [OF str] secondary_ops(4) [OF args]
  have pre: "extends s u2'" by (auto intro: calls.effect_trans)
  from count_loop_waits [OF cnt(1)] cnt(2) obtain job where "job \<in> set jobs" "unfinished job" by auto
  with seclients_loop [OF loop] obtain q where "told u2' u3 q (KJob job)"
    by (auto simp: list_all2_conv_all_nth in_set_conv_nth)
  with pre count_loop [OF cnt(1)] t \<open>unfinished job\<close> show ?thesis
    by (blast intro: waits_mono pending_job)
qed

lemma handler_waits: "handler_handle h C s = (Ok False, t) \<Longrightarrow> waits s t"
  by (cases h) (simp_all add: preupgrade_waits preupgradeScaledown_handle_def scaledown_waits sync_waits
    primary_waits secondary_waits move_waits postupgrade_waits)

lemma Handle_waits:
  assumes "Handle C s = (Ok False, t)"
  shows "waits s t"
proof (cases "upgrademap (pp_state (ks_inst s))")
  case None
  with assms show ?thesis by (auto simp: Handle_def bnd_run inst_run set_status_run ret_run)
next
  case (Some step)
  with assms obtain d u where "handler_handle (us_handler step) C s = (Ok d, u)"
    and "\<not> d" "t = u"
    by (auto simp: Handle_def bnd_run [of inst] inst_run bnd_Ok_inv ret_inv split: if_splits)
  with handler_waits show ?thesis by auto
qed

text \<open>
  C8. No upgrade waits for something nobody will tell it about. Whenever a step of an upgrade
  returns without being done and without an error, the API server has just told it of a job it
  created or that has not ended, or of a stateful set that does not yet have the replicas it is
  waiting for; and every later change of that object's status puts the instance back into the
  reconciler's queue, as long as the object has the owner and the labels the operator gave it.
\<close>

theorem waiting_is_watched:
  assumes "runtime_laws R (wx_env C)" and "Handle C s = (Ok False, t)"
  shows "\<exists>q x. (q, Inr x) \<in> set (drop (length (ks_hist s)) (ks_hist t)) \<and> pending (ks_inst s) q x \<and>
    (\<forall>y m. status_event R x y \<longrightarrow> meta_of y = Some m \<longrightarrow> of_instance (wx_env C) (identity (ks_inst s)) m \<longrightarrow>
      (pp_namespace (ks_inst s), pp_name (ks_inst s)) \<in> set (rt_enqueued R watches (Updated x y)))"
proof -
  from Handle_waits [OF assms(2)] obtain q x where told: "told s t q x" and p: "pending (ks_inst s) q x"
    unfolding waits_def by blast
  from p have kind: "kind_of x = Some StatefulSetKind \<or> kind_of x = Some JobKind"
    by (auto simp: pending_def split: kobj.splits)
  from told have "(q, Inr x) \<in> set (drop (length (ks_hist s)) (ks_hist t))"
    by (auto simp: told_def)
  with p status_event_enqueued [OF assms(1) _ kind] show ?thesis by blast
qed

subsection \<open>A run that waits\<close>

text \<open>A controller runtime that finds an object's owner by its labels.\<close>

fun sample_passes :: "watch_predicate \<Rightarrow> watch_event \<Rightarrow> bool" where
  "sample_passes GenerationChangedPredicate (Updated x y) \<longleftrightarrow> False"
| "sample_passes GenerationChangedPredicate ev \<longleftrightarrow> True"
| "sample_passes (Not_Predicate p) ev \<longleftrightarrow> \<not> sample_passes p ev"

definition sample_requests :: "watch_handler \<Rightarrow> watch_event \<Rightarrow> (string \<times> string) list" where
  "sample_requests h ev = (case meta_of (event_object ev) of None \<Rightarrow> [] | Some m \<Rightarrow>
     (case map_of (m_labels m) instanceLabel of None \<Rightarrow> [] | Some n \<Rightarrow> [(m_namespace m, n)]))"

definition sample_runtime :: runtime where
  "sample_runtime = \<lparr>rt_generation = (\<lambda>_. 1), rt_passes = sample_passes, rt_requests = sample_requests,
     rt_enqueued = (\<lambda>ws ev. concat (map (\<lambda>w. sample_requests (wa_handler w) ev)
       (filter (\<lambda>w. kind_of (event_object ev) = Some (wa_kind w) \<and>
          list_all (\<lambda>p. sample_passes p ev) (wa_predicates w)) ws)))\<rparr>"

lemma sample_runtime_laws: "runtime_laws sample_runtime E"
proof -
  have "(pp_namespace p, pp_name p) \<in> set (sample_requests h ev)"
    if "meta_of (event_object ev) = Some m" "of_instance E (identity p) m" for p m h ev
  proof -
    from that(2) obtain q m0 where "identity q = identity p" "m_namespace m0 = pp_namespace q"
      "m_labels m0 = CommonLabels q" "m = m0\<lparr>m_owners := m_owners m\<rparr>"
      by (auto simp: of_instance_def)
    then have "m_namespace m = pp_namespace p" "map_of (m_labels m) instanceLabel = Some (pp_name p)"
      by (cases m; cases m0; simp add: identity_def CommonLabels_def nameLabel_def instanceLabel_def)+
    with that(1) show ?thesis by (simp add: sample_requests_def)
  qed
  then show ?thesis by (auto simp: runtime_laws_def sample_runtime_def)
qed

text \<open>A server with one stateful set that keeps its two pods.\<close>

definition busy_set :: statefulset where
  "busy_set = (new_statefulset ''db'')\<lparr>sts_available := 2\<rparr>"

definition busy_server :: "event list \<Rightarrow> request \<Rightarrow> error + kobj" where
  "busy_server h q = (case q of
       RGet k _ _ _ \<Rightarrow> if k = StatefulSetKind then Inr (KStatefulSet busy_set) else Inl NotFound
     | RUpdate x \<Rightarrow> Inr x
     | _ \<Rightarrow> Inl (ApiError ''down''))"

abbreviation busy_state :: kstate where
  "busy_state \<equiv> sample_state (sample 17 (sample_status StateUpgradeScaleDown 15 17 []))"

lemma busy_run: "fst (Handle (sample_ctx busy_server) busy_state) = Ok False"
  by (simp add: Handle_def scaledown_handle_def GetK8SStatefulSet_def upgrademap_def upgrade_handlers_def
      busy_server_def busy_set_def sample_defs run_simps new_statefulset_def)

lemma waiting_is_watched_witness:
  "\<exists>q x. (q, Inr x) \<in> set (drop (length (ks_hist busy_state))
        (ks_hist (snd (Handle (sample_ctx busy_server) busy_state)))) \<and>
     pending (ks_inst busy_state) q x \<and>
     (\<forall>y m. status_event sample_runtime x y \<longrightarrow> meta_of y = Some m \<longrightarrow>
       of_instance (wx_env (sample_ctx busy_server)) (identity (ks_inst busy_state)) m \<longrightarrow>
       (pp_namespace (ks_inst busy_state), pp_name (ks_inst busy_state))
         \<in> set (rt_enqueued sample_runtime watches (Updated x y)))"
  by (rule waiting_is_watched [OF sample_runtime_laws]) (simp add: busy_run prod_eq_iff)

lemma status_writes_do_not_wake_witness:
  "rt_enqueued sample_runtime watches
     (Updated (KPatroni (ks_inst busy_state)) (KPatroni (sample 17 new_status))) = []"
  by (rule status_writes_do_not_wake [OF sample_runtime_laws]) (simp add: sample_runtime_def)

end
