(* ===== verification/Storage_Props.thy ===== *)
theory Storage_Props
  imports Config_Props Machine Samples "HOL-Library.Multiset"
begin

section \<open>Properties of the volumes\<close>

text \<open>
  The names of the claims, and the exact sequence of writes of a volume reconcile.
\<close>

text \<open>
  A claim's name tells its cluster and its node: two clusters, or two nodes of one, never
  share a claim, whatever dashes and digits their names hold.
\<close>

theorem pvc_name_inject: "PVCName p i = PVCName q j \<longleftrightarrow> pp_name p = pp_name q \<and> i = j"
  by (simp add: PVCName_def)

subsection \<open>What one reconcile of the volumes does\<close>

text \<open>
  The write a node's claim needs: a patch that touches its metadata and its size if the claim
  is listed, and a new claim with the node's storage class and access mode otherwise.
\<close>

definition node_write :: "patroni \<Rightarrow> pvc list \<Rightarrow> nat \<times> node \<Rightarrow> request \<Rightarrow> bool" where
  "node_write p items iv q =
     (let n = PVCName p (fst iv); size = [(''storage'', spec_volume_size (pp_spec_of p))] in
      case q of
        RPatch (KPVC c) (KPVC o') \<Rightarrow> o' \<in> set items \<and> m_name (pvc_meta o') = n \<and>
          c = o'\<lparr>pvc_meta := pvc_meta c, pvc_requests := size\<rparr> \<and> meta_ok p (pvc_meta o') (pvc_meta c)
      | RCreate (KPVC c) \<Rightarrow> n \<notin> (m_name \<circ> pvc_meta) ` set items \<and>
          c = (new_pvc n (snd iv))\<lparr>pvc_meta := pvc_meta c, pvc_requests := size\<rparr> \<and>
          meta_ok p (new_meta n) (pvc_meta c)
      | _ \<Rightarrow> False)"

definition needed :: "patroni \<Rightarrow> string set" where
  "needed p = PVCName p ` {..<length (pp_nodes p)}"

definition stale_delete :: "patroni \<Rightarrow> pvc list \<Rightarrow> request \<Rightarrow> bool" where
  "stale_delete p items q = (case q of
       RDelete (KPVC c) pol \<Rightarrow> c \<in> set items \<and> m_name (pvc_meta c) \<notin> needed p \<and> pol = Background
     | _ \<Rightarrow> False)"

abbreviation claim_name :: "pvc \<Rightarrow> string" where
  "claim_name c \<equiv> m_name (pvc_meta c)"

lemma pvc_map_snoc [simp]: "pvc_map (items @ [c]) = map_set (claim_name c) c (pvc_map items)"
  by (simp add: pvc_map_def)

lemma pvc_map_Nil [simp]: "pvc_map [] = []"
  by (simp add: pvc_map_def)

lemma pvc_map_listed: "map_of (pvc_map items) n = Some c \<Longrightarrow> c \<in> set items \<and> claim_name c = n"
  by (induction items rule: rev_induct) (auto split: if_splits)

lemma pvc_map_dom: "map_of (pvc_map items) n = None \<longleftrightarrow> n \<notin> claim_name ` set items"
  by (induction items rule: rev_induct) auto

lemma pvc_map_distinct: "distinct (map fst (pvc_map items))"
  by (induction items rule: rev_induct) (simp_all add: distinct_update)

definition reqs :: "kstate \<Rightarrow> kstate \<Rightarrow> request list" where
  "reqs s t = map fst (drop (length (ks_hist s)) (ks_hist t))"

lemma same_identityD: "identity p = identity q \<Longrightarrow>
    pp_namespace p = pp_namespace q \<and> pp_name p = pp_name q \<and> pp_spec_of p = pp_spec_of q"
  by (simp add: identity_def)

text \<open>One round of the loop, then the loop.\<close>

lemma reconcile_node_round:
  assumes "reconcile_node C (idx, node) existing s = (r, t)"
    and "\<And>c. map_of existing (PVCName (ks_inst s) idx) = Some c \<Longrightarrow>
      c \<in> set items \<and> claim_name c = PVCName (ks_inst s) idx"
    and "map_of existing (PVCName (ks_inst s) idx) = None \<Longrightarrow>
      PVCName (ks_inst s) idx \<notin> claim_name ` set items"
  shows "identity (ks_inst t) = identity (ks_inst s) \<and>
    (\<exists>ws. map fst (ks_hist t) = map fst (ks_hist s) @ ws \<and> length ws \<le> 1 \<and>
       list_all (node_write (ks_inst s) items (idx, node)) ws \<and>
       (r \<noteq> Panic) \<and>
       (\<forall>left. r = Ok left \<longrightarrow> length ws = 1 \<and> left = map_del (PVCName (ks_inst s) idx) existing \<and>
          length (pp_volumes (ks_inst t)) = Suc (length (pp_volumes (ks_inst s)))))"
  using assms
  by (cases "map_of existing (PVCName (ks_inst s) idx)")
    (auto simp: reconcile_node_def Let_def set_meta_of_def PVCT_def kpatch_def kcreate_def run_simps
      set_status_run node_write_def meta_ok_def identity_def new_pvc_def comp_def
      split: sum.splits kobj.splits)

lemma node_write_identity:
  "identity p = identity q \<Longrightarrow> node_write p items iv = node_write q items iv"
  by (rule ext) (auto simp: node_write_def meta_ok_def PVCName_def CommonLabels_def identity_def
      Let_def split: request.splits kobj.splits)

lemma PVCName_identity: "identity p = identity q \<Longrightarrow> PVCName p i = PVCName q i"
  by (simp add: PVCName_def identity_def)

definition unclaimed :: "patroni \<Rightarrow> pvc list \<Rightarrow> nat \<Rightarrow> string \<Rightarrow> pvc option" where
  \<comment> \<open>the listed claims but for those of the first \<open>k\<close> nodes\<close>
  "unclaimed p items k x = (if x \<in> PVCName p ` {..<k} then None else map_of (pvc_map items) x)"

lemma unclaimed_Suc: "(unclaimed p items k)(PVCName p k := None) = unclaimed p items (Suc k)"
  by (auto simp: unclaimed_def lessThan_Suc PVCName_def)

lemma unclaimed_next:
  "unclaimed p items k (PVCName p k) = map_of (pvc_map items) (PVCName p k)"
  by (auto simp: unclaimed_def PVCName_def)

definition loop_post ::
  "patroni \<Rightarrow> pvc list \<Rightarrow> nat \<Rightarrow> node list \<Rightarrow> kstate \<Rightarrow>
   (error, (string \<times> pvc) list) res \<Rightarrow> kstate \<Rightarrow> request list \<Rightarrow> bool" where
  "loop_post p items k nodes s r t ws \<longleftrightarrow>
     map fst (ks_hist t) = map fst (ks_hist s) @ ws \<and> length ws \<le> length nodes \<and>
     list_all2 (node_write p items) (take (length ws) (enumerate k nodes)) ws \<and>
     identity (ks_inst t) = identity p \<and> r \<noteq> Panic \<and>
     (\<forall>left. r = Ok left \<longrightarrow> length ws = length nodes \<and> distinct (map fst left) \<and>
        map_of left = unclaimed p items (k + length nodes) \<and>
        length (pp_volumes (ks_inst t)) = length (pp_volumes (ks_inst s)) + length nodes)"

lemma distinct_map_del: "distinct (map fst m) \<Longrightarrow> distinct (map fst (map_del k m))"
  by (simp add: distinct_delete)

lemma claims_loop:
  assumes "for_acc (enumerate k nodes) existing (reconcile_node C) s = (r, t)"
    and "identity (ks_inst s) = identity p" and "map_of existing = unclaimed p items k"
    and "distinct (map fst existing)"
  shows "\<exists>ws. loop_post p items k nodes s r t ws"
  using assms
proof (induction nodes arbitrary: k existing s)
  case Nil
  then show ?case by (auto simp: loop_post_def ret_inv)
next
  case (Cons node nodes)
  let ?n = "PVCName (ks_inst s) k"
  have n: "?n = PVCName p k" using PVCName_identity [OF Cons.prems(2)] .
  have look: "map_of existing ?n = map_of (pvc_map items) ?n"
    using Cons.prems(3) unclaimed_next by (simp add: n)
  have round: "\<exists>ws. map fst (ks_hist v) = map fst (ks_hist s) @ ws \<and> length ws \<le> 1 \<and>
       identity (ks_inst v) = identity p \<and>
       list_all (node_write p items (k, node)) ws \<and> x \<noteq> Panic \<and>
       (\<forall>left. x = Ok left \<longrightarrow> length ws = 1 \<and> left = map_del (PVCName p k) existing \<and>
          length (pp_volumes (ks_inst v)) = Suc (length (pp_volumes (ks_inst s))))"
    if "reconcile_node C (k, node) existing s = (x, v)" for x v
    using reconcile_node_round [OF that, of items] look pvc_map_listed [of items ?n]
      pvc_map_dom [of items ?n] node_write_identity [OF Cons.prems(2)] Cons.prems(2)
    by (auto simp: n)
  from Cons.prems(1) have "bnd (reconcile_node C (k, node) existing)
      (\<lambda>left. for_acc (enumerate (Suc k) nodes) left (reconcile_node C)) s = (r, t)" by simp
  then consider (stop) e where "reconcile_node C (k, node) existing s = (Err e, t)" "r = Err e"
    | (panic) "reconcile_node C (k, node) existing s = (Panic, t)"
    | (go) left u where "reconcile_node C (k, node) existing s = (Ok left, u)"
        "for_acc (enumerate (Suc k) nodes) left (reconcile_node C) u = (r, t)"
    by (auto simp: bnd_def split: prod.splits res.splits)
  then show ?case
  proof cases
    case stop
    from round [OF stop(1)] obtain ws where ws: "map fst (ks_hist t) = map fst (ks_hist s) @ ws"
      "length ws \<le> 1" "identity (ks_inst t) = identity p" "list_all (node_write p items (k, node)) ws"
      by blast
    then show ?thesis
      using stop(2) by (cases ws) (auto simp: loop_post_def intro!: exI [of _ ws])
  next
    case panic
    from round [OF this] show ?thesis by blast
  next
    case (go left u)
    from round [OF go(1)] obtain w where w: "map fst (ks_hist u) = map fst (ks_hist s) @ [w]"
      "identity (ks_inst u) = identity p" "node_write p items (k, node) w"
      "left = map_del (PVCName p k) existing"
      "length (pp_volumes (ks_inst u)) = Suc (length (pp_volumes (ks_inst s)))"
      by (auto simp: length_Suc_conv)
    have "map_of left = unclaimed p items (Suc k)"
      using Cons.prems(3) w(4) unclaimed_Suc by simp
    from Cons.IH [OF go(2) w(2) this] Cons.prems(4) w(4) distinct_map_del obtain ws
      where "loop_post p items (Suc k) nodes u r t ws" by blast
    with w have "loop_post p items k (node # nodes) s r t (w # ws)"
      by (simp add: loop_post_def)
    then show ?thesis by blast
  qed
qed

lemma deletes_loop:
  "for_each cs (delete_pvc C) s = (r, t) \<Longrightarrow>
   ks_inst t = ks_inst s \<and> r \<noteq> Panic \<and> (\<exists>k. k \<le> length cs \<and> (r = Ok () \<longrightarrow> k = length cs) \<and>
     map fst (ks_hist t) = map fst (ks_hist s) @ map (\<lambda>c. RDelete (KPVC c) Background) (take k cs))"
proof (induction cs arbitrary: s)
  case Nil
  then show ?case by (auto simp: ret_inv)
next
  case (Cons c cs)
  have one: "ks_inst v = ks_inst s \<and> x \<noteq> Panic \<and>
      map fst (ks_hist v) = map fst (ks_hist s) @ [RDelete (KPVC c) Background]"
    if "delete_pvc C c s = (x, v)" for x v
    using that by (auto simp: delete_pvc_def kdelete_def PVCT_def run_simps split: sum.splits if_splits)
  from Cons.prems consider (stop) e where "delete_pvc C c s = (Err e, t)" "r = Err e"
    | (panic) "delete_pvc C c s = (Panic, t)"
    | (go) u where "delete_pvc C c s = (Ok (), u)" "for_each cs (delete_pvc C) u = (r, t)"
    by (auto simp: bnd_def split: prod.splits res.splits)
  then show ?case
  proof cases
    case stop
    with one [OF stop(1)] show ?thesis by (auto intro!: exI [of _ 1])
  next
    case panic
    with one show ?thesis by blast
  next
    case (go u)
    from Cons.IH [OF go(2)] one [OF go(1)] obtain k where "k \<le> length cs" "r = Ok () \<longrightarrow> k = length cs"
      "ks_inst t = ks_inst s" "r \<noteq> Panic"
      "map fst (ks_hist t) = map fst (ks_hist s) @ map (\<lambda>c. RDelete (KPVC c) Background) (take (Suc k) (c # cs))"
      by auto
    then show ?thesis by (intro conjI exI [of _ "Suc k"]) simp_all
  qed
qed

lemma stale_claims:
  assumes "map_of left = unclaimed p items (length (pp_nodes p))" and "distinct (map fst left)"
    and "c \<in> snd ` set left"
  shows "c \<in> set items \<and> claim_name c \<notin> needed p"
proof -
  from assms(2,3) obtain n where "map_of left n = Some c" by force
  with assms(1) have "unclaimed p items (length (pp_nodes p)) n = Some c" by simp
  then show ?thesis
    using pvc_map_listed [of items n c] by (auto simp: unclaimed_def needed_def split: if_splits)
qed

lemma stale_covered:
  assumes "map_of left = unclaimed p items (length (pp_nodes p))"
    and "c \<in> set items" and "claim_name c \<notin> needed p"
  shows "\<exists>c' \<in> snd ` set left. claim_name c' = claim_name c"
proof -
  from assms(2) have "map_of (pvc_map items) (claim_name c) \<noteq> None" by (simp add: pvc_map_dom)
  then obtain c' where c': "map_of (pvc_map items) (claim_name c) = Some c'" by blast
  with assms(1,3) have "map_of left (claim_name c) = Some c'"
    by (auto simp: unclaimed_def needed_def)
  with pvc_map_listed [OF c'] show ?thesis by (force dest: map_of_SomeD)
qed

definition pvc_trace ::
  "patroni \<Rightarrow> pvc list \<Rightarrow> (error, unit) res \<Rightarrow> kstate \<Rightarrow> request list \<Rightarrow> request list \<Rightarrow> bool" where
  "pvc_trace p items r t ws ds \<longleftrightarrow>
     list_all2 (node_write p items) (take (length ws) (enumerate 0 (pp_nodes p))) ws \<and>
     list_all (stale_delete p items) ds \<and>
     (ds = [] \<or> length ws = length (pp_nodes p)) \<and>
     (r = Ok () \<longrightarrow> length ws = length (pp_nodes p) \<and>
        length (pp_volumes (ks_inst t)) = length (pp_nodes p) \<and>
        (\<forall>c \<in> set items. claim_name c \<notin> needed p \<longrightarrow>
           (\<exists>c'. claim_name c' = claim_name c \<and> RDelete (KPVC c') Background \<in> set ds)))"

lemma pvc_trace_listed:
  assumes order: "\<And>h cs. mset (ke_order (wx_env C) h cs) = mset cs"
    and api: "ke_api (wx_env C) (ks_hist s) (RListPVCs (pp_namespace (ks_inst s)) (CommonLabels (ks_inst s)))
      = Inr (KPVCList items)"
    and run: "pvc_Reconcile C s = (r, t)"
  shows "r \<noteq> Panic \<and> (\<exists>ws ds. map fst (ks_hist t) = map fst (ks_hist s) @
      RListPVCs (pp_namespace (ks_inst s)) (CommonLabels (ks_inst s)) # ws @ ds \<and>
      pvc_trace (ks_inst s) items r t ws ds)"
proof -
  let ?p = "ks_inst s" and ?q = "RListPVCs (pp_namespace (ks_inst s)) (CommonLabels (ks_inst s))"
  let ?u = "(after (wx_env C) ?q s)\<lparr>ks_inst := upd_status (\<lambda>st. st\<lparr>st_volumes := []\<rparr>) ?p\<rparr>"
  let ?loop = "for_acc (enumerate 0 (pp_nodes ?p)) (pvc_map items) (reconcile_node C)"
  have rest: "bnd ?loop (\<lambda>left. bnd (gets ks_hist) (\<lambda>h.
      for_each (ke_order (wx_env C) h (map snd left)) (delete_pvc C))) ?u = (r, t)"
    using run api by (simp add: pvc_Reconcile_def list_pvcs_def ListOption_def bnd_run inst_run
        ask_after decode_as_def ret_run set_status_run)
  have loop: "\<exists>ws. loop_post ?p items 0 (pp_nodes ?p) ?u x v ws" if "?loop ?u = (x, v)" for x v
    using that by (rule claims_loop) (simp_all add: identity_def unclaimed_def pvc_map_distinct fun_eq_iff)
  from rest consider (stop) x where "?loop ?u = (x, t)" "\<And>y. x \<noteq> Ok y" "r = Panic \<longleftrightarrow> x = Panic" "r \<noteq> Ok ()"
    | (go) left v where "?loop ?u = (Ok left, v)"
        "for_each (ke_order (wx_env C) (ks_hist v) (map snd left)) (delete_pvc C) v = (r, t)"
    by (auto simp: bnd_def gets_def split: prod.splits res.splits)
  then show ?thesis
  proof cases
    case stop
    from loop [OF stop(1)] obtain ws where "loop_post ?p items 0 (pp_nodes ?p) ?u x t ws" by blast
    then show ?thesis
      using stop(3,4) by (intro conjI exI [of _ ws] exI [of _ "[]::request list"])
        (auto simp: loop_post_def pvc_trace_def)
  next
    case (go left v)
    from loop [OF go(1)] obtain ws where ws: "loop_post ?p items 0 (pp_nodes ?p) ?u (Ok left) v ws" by blast
    let ?cs = "ke_order (wx_env C) (ks_hist v) (map snd left)"
    have cs: "set ?cs = snd ` set left"
      using order [of "ks_hist v" "map snd left"] by (metis list.set_map mset_eq_setD)
    from deletes_loop [OF go(2)] obtain k where k: "r = Ok () \<longrightarrow> k = length ?cs" "ks_inst t = ks_inst v"
      "r \<noteq> Panic" "map fst (ks_hist t) = map fst (ks_hist v) @ map (\<lambda>c. RDelete (KPVC c) Background) (take k ?cs)"
      by blast
    have left: "map_of left = unclaimed ?p items (length (pp_nodes ?p))" "distinct (map fst left)"
      using ws by (simp_all add: loop_post_def)
    have "list_all (stale_delete ?p items) (map (\<lambda>c. RDelete (KPVC c) Background) (take k ?cs))"
      using stale_claims [OF left] cs by (auto simp: list_all_iff stale_delete_def dest: in_set_takeD)
    moreover have "\<exists>c'. claim_name c' = claim_name c \<and> RDelete (KPVC c') Background \<in>
        set (map (\<lambda>c. RDelete (KPVC c) Background) (take k ?cs))"
      if "r = Ok ()" "c \<in> set items" "claim_name c \<notin> needed ?p" for c
      using stale_covered [OF left(1) that(2,3)] k(1) that(1) cs by auto
    ultimately show ?thesis
      using ws k by (intro conjI exI [of _ ws] exI [of _ "map (\<lambda>c. RDelete (KPVC c) Background) (take k ?cs)"])
        (auto simp: loop_post_def pvc_trace_def)
  qed
qed

text \<open>
  C29. A reconcile of the volumes lists the cluster's claims, then makes for each node, in
  order, the one write its claim needs: a patch that leaves everything of an existing claim but
  its metadata and size alone, or the creation of a missing one. Only when every node has its
  claim does it delete, and only listed claims that no node needs, in whatever order Go visits
  its map; if it returns without an error all of those are gone and the status holds one entry
  per node. It never panics, and an error stops it at a prefix of this sequence.
\<close>

theorem pvc_reconcile_trace:
  assumes "\<And>h cs. mset (ke_order (wx_env C) h cs) = mset cs"
  shows "case pvc_Reconcile C s of (r, t) \<Rightarrow> r \<noteq> Panic \<and>
    (let p = ks_inst s; q = RListPVCs (pp_namespace p) (CommonLabels p) in
     case ke_api (wx_env C) (ks_hist s) q of
       Inr (KPVCList items) \<Rightarrow> \<exists>ws ds. map fst (ks_hist t) = map fst (ks_hist s) @ q # ws @ ds \<and>
         pvc_trace p items r t ws ds
     | _ \<Rightarrow> map fst (ks_hist t) = map fst (ks_hist s) @ [q] \<and> (\<exists>e. r = Err e))"
proof -
  obtain r t where run: "pvc_Reconcile C s = (r, t)" by fastforce
  show ?thesis
  proof (cases "\<exists>items. ke_api (wx_env C) (ks_hist s)
      (RListPVCs (pp_namespace (ks_inst s)) (CommonLabels (ks_inst s))) = Inr (KPVCList items)")
    case True
    with pvc_trace_listed [OF assms _ run] run show ?thesis by (auto simp: Let_def)
  next
    case False
    with run show ?thesis
      by (auto simp: pvc_Reconcile_def list_pvcs_def ListOption_def bnd_run inst_run ask_after
          decode_as_def fail_run Let_def split: sum.splits kobj.splits)
  qed
qed

text \<open>A server with the claim of node 0 and a claim of a node that was removed.\<close>

definition sample_claim :: "nat \<Rightarrow> pvc" where
  "sample_claim i = new_pvc (indexed ''pgdata-db'' i) sample_node"

definition storage_api :: "event list \<Rightarrow> request \<Rightarrow> error + kobj" where
  "storage_api h q = (case q of
       RListPVCs _ _ \<Rightarrow> Inr (KPVCList [sample_claim 0, sample_claim 7])
     | RPatch x _ \<Rightarrow> Inr x
     | RCreate x \<Rightarrow> Inr x
     | RDelete x _ \<Rightarrow> Inr x
     | _ \<Rightarrow> Inl NotFound)"

lemma pvc_reconcile_trace_witness:
  "case pvc_Reconcile (sample_ctx storage_api) (sample_state (sample 15 new_status)) of (r, t) \<Rightarrow>
     \<exists>ws ds. map fst (ks_hist t) = RListPVCs ''ns'' (CommonLabels (sample 15 new_status)) # ws @ ds \<and>
       pvc_trace (sample 15 new_status) [sample_claim 0, sample_claim 7] r t ws ds"
  using pvc_reconcile_trace [of "sample_ctx storage_api" "sample_state (sample 15 new_status)"]
  by (simp add: sample_ctx_def sample_env_def sample_state_def storage_api_def Let_def sample_def
      split: prod.splits)

end
