(* ===== verification/Settles.thy ===== *)
theory Settles
  imports Permissions Ownership Sts_Props Storage_Props
begin

section \<open>A quiet cluster stays as it is\<close>

text \<open>
  A successful reconcile brings every owned object to the desired form, and a reconcile that
  finds them in that form changes nothing: the desired states do not fight each other, and no
  object is rewritten into something else by its own reconciler. The server completes what it
  is sent (it fills in defaults, moves a secret's \<open>stringData\<close> into its \<open>data\<close>), so an object
  is stored as the server answered the write, not as it was sent.
\<close>

subsection \<open>What the server stores\<close>

type_synonym key = "kind \<times> string \<times> string"
type_synonym world = "key \<Rightarrow> kobj option"

definition key_of :: "kobj \<Rightarrow> key option" where
  "key_of x = (case (kind_of x, meta_of x) of
       (Some k, Some m) \<Rightarrow> Some (k, m_namespace m, m_name m)
     | _ \<Rightarrow> None)"

definition put_object :: "kobj \<Rightarrow> world \<Rightarrow> world" where
  "put_object x W = (case key_of x of None \<Rightarrow> W | Some k \<Rightarrow> W(k \<mapsto> x))"

text \<open>
  An acknowledged write stores the object it is answered with. An acknowledged deletion is over:
  nothing holds the object back.
\<close>

definition happen :: "world \<Rightarrow> event \<Rightarrow> world" where
  "happen W ev = (case ev of
       (RCreate _, Inr y) \<Rightarrow> put_object y W
     | (RUpdate _, Inr y) \<Rightarrow> put_object y W
     | (RPatch _ _, Inr y) \<Rightarrow> put_object y W
     | (RDelete x _, Inr _) \<Rightarrow> (case key_of x of None \<Rightarrow> W | Some k \<Rightarrow> W(k := None))
     | _ \<Rightarrow> W)"

definition filed :: "world \<Rightarrow> bool" where
  "filed W \<longleftrightarrow> (\<forall>k x. W k = Some x \<longrightarrow> key_of x = Some k)"

abbreviation world_at :: "world \<Rightarrow> kstate \<Rightarrow> world" where
  "world_at W s \<equiv> foldl happen W (ks_hist s)"

definition labelled :: "string_map \<Rightarrow> object_meta \<Rightarrow> bool" where
  "labelled ls m \<longleftrightarrow> (\<forall>(k, v) \<in> set ls. map_of (m_labels m) k = Some v)"

text \<open>
  What a server keeps of an object it is sent: the type and name, the labels, the owners.
\<close>

definition kept :: "kobj \<Rightarrow> kobj \<Rightarrow> bool" where
  "kept x y \<longleftrightarrow> kind_of y = kind_of x \<and> (\<exists>m m'. meta_of x = Some m \<and> meta_of y = Some m' \<and>
     m_namespace m' = m_namespace m \<and> m_name m' = m_name m \<and> m_labels m' = m_labels m \<and> m_owners m' = m_owners m)"

definition wrote :: "kube_env \<Rightarrow> kobj \<Rightarrow> kobj \<Rightarrow> bool" where
  \<comment> \<open>some write of \<open>x\<close> is answered with \<open>y\<close>\<close>
  "wrote E x y \<longleftrightarrow> (\<exists>h o'. ke_api E h (RCreate x) = Inr y \<or> ke_api E h (RUpdate x) = Inr y \<or>
     ke_api E h (RPatch x o') = Inr y)"

text \<open>
  The object \<open>z\<close> has the metadata of \<open>y\<close>, and each of its fields as \<open>x\<close> or \<open>y\<close> has it. Only
  the types whose objects the reconcilers rewrite matter.
\<close>

abbreviation either :: "('a \<Rightarrow> 'b) \<Rightarrow> 'a \<Rightarrow> 'a \<Rightarrow> 'a \<Rightarrow> bool" where
  "either f x y z \<equiv> f z = f x \<or> f z = f y"

definition mixes :: "kobj \<Rightarrow> kobj \<Rightarrow> kobj \<Rightarrow> bool" where
  "mixes x y z \<longleftrightarrow> meta_of z = meta_of y \<and> (case (x, y, z) of
       (KPVC x, KPVC y, KPVC z) \<Rightarrow> either pvc_access_modes x y z \<and> either pvc_storage_class x y z \<and>
         either pvc_requests x y z \<and> either pvc_rest x y z \<and> pvc_phase z = pvc_phase y \<and> pvc_capacity z = pvc_capacity y
     | (KRole x, KRole y, KRole z) \<Rightarrow> either role_rules x y z
     | (KRoleBinding x, KRoleBinding y, KRoleBinding z) \<Rightarrow> either rb_role_ref x y z \<and> either rb_subjects x y z
     | (KService x, KService y, KService z) \<Rightarrow> either svc_type x y z \<and> either svc_cluster_ip x y z \<and>
         either svc_selector x y z \<and> either svc_ports x y z \<and> either svc_rest x y z
     | (KStatefulSet x, KStatefulSet y, KStatefulSet z) \<Rightarrow> sts_ready z = sts_ready y \<and> sts_available z = sts_available y \<and>
         (let x = sts_spec x; y = sts_spec y; z = sts_spec z in
          either ss_selector x y z \<and> either ss_claim_templates x y z \<and> either ss_service_name x y z \<and>
          either ss_pod_management x y z \<and> either ss_min_ready x y z \<and> either ss_replicas x y z \<and> either ss_template x y z)
     | (KNetworkPolicy x, KNetworkPolicy y, KNetworkPolicy z) \<Rightarrow> either np_pod_selector x y z \<and> either np_ingress x y z
     | (KPDB x, KPDB y, KPDB z) \<Rightarrow> either pdb_max_unavailable x y z \<and> either pdb_selector x y z
     | _ \<Rightarrow> False)"

text \<open>
  Sending \<open>z\<close> while \<open>y\<close> is stored asks for no change: every field of \<open>z\<close> is as \<open>y\<close> has it, or
  as it was sent when the server answered \<open>y\<close>.
\<close>

definition steady :: "kube_env \<Rightarrow> kobj \<Rightarrow> kobj \<Rightarrow> bool" where
  "steady E z y \<longleftrightarrow> (\<exists>x. wrote E x y \<and> mixes x y z)"

text \<open>
  What is asked of the server, which may fail any call and complete what it is sent. It answers
  a read with what it stores, and that an object does not exist only if it does not; and it lists
  the claims that carry the labels.
\<close>

definition reads_back :: "kube_env \<Rightarrow> world \<Rightarrow> bool" where
  "reads_back E W \<longleftrightarrow> (\<forall>h k ns n into. k \<noteq> PatroniKind \<longrightarrow>
     (case ke_api E h (RGet k ns n into) of
        Inl e \<Rightarrow> e = NotFound \<longrightarrow> foldl happen W h (k, ns, n) = None
      | Inr x \<Rightarrow> foldl happen W h (k, ns, n) = Some x)) \<and>
     (\<forall>h ns ls l. ke_api E h (RListPVCs ns ls) = Inr (KPVCList l) \<longrightarrow>
       set l = {c. (\<exists>n. foldl happen W h (PVCKind, ns, n) = Some (KPVC c)) \<and> labelled ls (pvc_meta c)}) \<and>
     (\<forall>h x pol k. ke_api E h (RDelete x pol) = Inl NotFound \<and> key_of x = Some k \<longrightarrow> foldl happen W h k = None)"

text \<open>
  It keeps the name, the labels and the owners of an object that it accepts. It completes every
  field by itself, and what is complete not further: a write that asks for no change stores none.
\<close>

definition completes :: "kube_env \<Rightarrow> world \<Rightarrow> bool" where
  "completes E W \<longleftrightarrow> (\<forall>x y. wrote E x y \<and> key_of x \<noteq> None \<longrightarrow> kept x y) \<and>
     (\<forall>h k y z a. foldl happen W h k = Some y \<and> key_of z = Some k \<and> steady E z y \<and>
       (ke_api E h (RUpdate z) = Inr a \<or> ke_api E h (RPatch z y) = Inr a) \<longrightarrow> a = y)"

definition honest :: "kube_env \<Rightarrow> world \<Rightarrow> bool" where
  "honest E W \<longleftrightarrow> filed W \<and> reads_back E W \<and> completes E W"

text \<open>
  \<open>SetOwnerReference\<close> adds a reference to the instance; an object that has it keeps its
  references as they are, whatever status the instance has; of the object's metadata only the
  namespace and the references matter to it. Go's loop over a map visits every entry once.
\<close>

definition library_laws :: "kube_env \<Rightarrow> bool" where
  "library_laws E \<longleftrightarrow> (\<forall>p q m os. ke_set_owner E (KPatroni p) m = Inr os \<and> identity q = identity p \<longrightarrow>
     os \<noteq> [] \<and> ke_set_owner E (KPatroni q) (m\<lparr>m_owners := os\<rparr>) = Inr os) \<and>
     (\<forall>q m m'. m_namespace m' = m_namespace m \<and> m_owners m' = m_owners m \<longrightarrow> ke_set_owner E q m' = ke_set_owner E q m) \<and>
     (\<forall>h cs. mset (ke_order E h cs) = mset cs)"

lemma filed_happen: "filed W \<Longrightarrow> filed (happen W ev)"
  by (cases ev; cases "fst ev") (auto simp: happen_def filed_def put_object_def split: sum.splits option.splits)

lemma filed_world: "filed W \<Longrightarrow> filed (foldl happen W h)"
  by (induction h arbitrary: W) (auto simp: filed_happen)

lemma honest_get:
  assumes "honest E W" and "k \<noteq> PatroniKind"
  shows "case ke_api E h (RGet k ns n into) of
      Inl e \<Rightarrow> e = NotFound \<longrightarrow> foldl happen W h (k, ns, n) = None
    | Inr x \<Rightarrow> foldl happen W h (k, ns, n) = Some x \<and> key_of x = Some (k, ns, n)"
proof -
  have "filed (foldl happen W h)" using assms(1) by (simp add: honest_def filed_world)
  moreover have "case ke_api E h (RGet k ns n into) of Inl e \<Rightarrow> e = NotFound \<longrightarrow> foldl happen W h (k, ns, n) = None
      | Inr x \<Rightarrow> foldl happen W h (k, ns, n) = Some x"
    using assms unfolding honest_def reads_back_def by blast
  ultimately show ?thesis by (simp add: filed_def split: sum.splits)
qed

lemma happen_read [simp]: "happen W (RGet k ns n into, a) = W" "happen W (RListPVCs ns ls, a) = W"
  by (simp_all add: happen_def split: sum.splits)

lemma honest_wrote:
  assumes "honest E W" and "wrote E x y" and "key_of x \<noteq> None"
  shows "kept x y"
  using assms unfolding honest_def completes_def by blast

lemma honest_steady:
  assumes "honest E W" and "foldl happen W h k = Some y" and "key_of z = Some k" and "steady E z y"
    and "ke_api E h (RUpdate z) = Inr a \<or> ke_api E h (RPatch z y) = Inr a"
  shows "a = y"
proof -
  have "\<forall>h k y z a. foldl happen W h k = Some y \<and> key_of z = Some k \<and> steady E z y \<and>
      (ke_api E h (RUpdate z) = Inr a \<or> ke_api E h (RPatch z y) = Inr a) \<longrightarrow> a = y"
    using assms(1) unfolding honest_def completes_def by (elim conjE)
  from this [rule_format, OF conjI [OF assms(2) conjI [OF assms(3) conjI [OF assms(4,5)]]]] show ?thesis .
qed

lemma kept_key: "kept x y \<Longrightarrow> key_of y = key_of x"
  by (auto simp: kept_def key_of_def split: option.splits)

subsection \<open>Runs that change nothing\<close>

text \<open>Reads, lists, and writes that ask for no change and are answered with what is stored.\<close>

definition unchanged :: "kube_env \<Rightarrow> world \<Rightarrow> kobj \<Rightarrow> error + kobj \<Rightarrow> bool" where
  "unchanged E W z a \<longleftrightarrow> (\<exists>k y. key_of z = Some k \<and> W k = Some y \<and> key_of y = Some k \<and> steady E z y \<and>
     (\<forall>b. a = Inr b \<longrightarrow> b = y))"

definition idle :: "kube_env \<Rightarrow> world \<Rightarrow> event \<Rightarrow> bool" where
  "idle E W ev \<longleftrightarrow> (case fst ev of
       RGet _ _ _ _ \<Rightarrow> True
     | RListPVCs _ _ \<Rightarrow> True
     | RUpdate z \<Rightarrow> unchanged E W z (snd ev)
     | RPatch z y \<Rightarrow> unchanged E W z (snd ev) \<and> (\<exists>k. key_of z = Some k \<and> W k = Some y)
     | _ \<Rightarrow> False)"

definition quiet :: "kube_env \<Rightarrow> world \<Rightarrow> kstate \<Rightarrow> kstate \<Rightarrow> bool" where
  "quiet E W0 s t \<longleftrightarrow> (\<exists>es. ks_hist t = ks_hist s @ es \<and> list_all (idle E (world_at W0 s)) es)"

lemma unchanged_put: "unchanged E W z (Inr y) \<Longrightarrow> put_object y W = W"
  by (auto simp: unchanged_def put_object_def fun_upd_idem)

lemma idle_happen:
  assumes "idle E W ev"
  shows "happen W ev = W"
proof -
  obtain q a where ev: "ev = (q, a)" by fastforce
  with assms show ?thesis
    by (cases q; cases a) (auto simp: idle_def happen_def unchanged_put)
qed

lemma idle_events: "list_all (idle E W) es \<Longrightarrow> foldl happen W es = W"
  by (induction es) (auto simp: idle_happen)

lemma quiet_world: "quiet E W0 s t \<Longrightarrow> world_at W0 t = world_at W0 s"
  by (auto simp: quiet_def idle_events)

interpretation resting: effect "quiet E W0" for E W0
proof
  show "quiet E W0 s s" for s by (simp add: quiet_def)
  show "quiet E W0 s u" if "quiet E W0 s t" "quiet E W0 t u" for s t u
    using that quiet_world [OF that(1)] by (auto simp: quiet_def)
qed

subsection \<open>Objects that are stored\<close>

text \<open>Metadata that \<open>SetMeta\<close> leaves as it is.\<close>

definition meta_settled :: "kube_env \<Rightarrow> patroni \<Rightarrow> object_meta \<Rightarrow> bool" where
  "meta_settled E p m \<longleftrightarrow> m_namespace m = pp_namespace p \<and> m_labels m = CommonLabels p \<and>
     ke_set_owner E (KPatroni p) m = Inr (m_owners m)"

definition same_run :: "patroni \<Rightarrow> patroni \<Rightarrow> bool" where
  "same_run p q \<longleftrightarrow> identity q = identity p \<and> pp_version q = pp_version p"

lemma same_runD:
  assumes "same_run p q"
  shows "pp_name q = pp_name p" "pp_namespace q = pp_namespace p" "pp_spec_of q = pp_spec_of p"
    "pp_version q = pp_version p" "CommonLabels q = CommonLabels p" "identity q = identity p"
  using assms by (simp_all add: same_run_def identity_def CommonLabels_def)

lemma same_run_parts:
  "same_run p q \<Longrightarrow> pp_name q = pp_name p \<and> pp_namespace q = pp_namespace p \<and> pp_spec_of q = pp_spec_of p \<and>
     pp_version q = pp_version p \<and> CommonLabels q = CommonLabels p \<and> (\<forall>c. PodLabels q c = PodLabels p c)"
  by (simp add: same_runD PodLabels_def)

lemma same_run_refl [simp]: "same_run p p"
  by (simp add: same_run_def)

lemma same_run_trans: "same_run p q \<Longrightarrow> same_run q r \<Longrightarrow> same_run p r"
  by (simp add: same_run_def)

lemma meta_settled_same:
  assumes "meta_settled E p m" and "same_run p q" and "library_laws E"
  shows "meta_settled E q m"
proof -
  have "ke_set_owner E (KPatroni q) (m\<lparr>m_owners := m_owners m\<rparr>) = Inr (m_owners m)"
    using assms unfolding library_laws_def meta_settled_def same_run_def by blast
  with assms(1) same_runD [OF assms(2)] show ?thesis by (simp add: meta_settled_def)
qed

lemma meta_settled_kept:
  assumes "meta_settled E p m" and "library_laws E"
    and "m_namespace m' = m_namespace m" "m_labels m' = m_labels m" "m_owners m' = m_owners m"
  shows "meta_settled E p m'"
proof -
  have "ke_set_owner E (KPatroni p) m' = ke_set_owner E (KPatroni p) m"
    using assms(2,3,5) unfolding library_laws_def by blast
  with assms show ?thesis by (simp add: meta_settled_def)
qed

lemma set_meta_settles:
  assumes "set_meta_of C T x s = (r, t)" and "library_laws (wx_env C)"
  shows "t = s \<and> ((\<exists>e. r = Err e) \<or> (\<exists>m. r = Ok (kt_set_meta T m x) \<and> m_name m = m_name (kt_meta T x) \<and>
    m_owners m \<noteq> [] \<and> meta_settled (wx_env C) (ks_inst s) m))"
proof (cases "ke_set_owner (wx_env C) (KPatroni (ks_inst s)) ((kt_meta T x)
    \<lparr>m_namespace := pp_namespace (ks_inst s), m_labels := CommonLabels (ks_inst s)\<rparr>)")
  case (Inl e)
  with assms(1) show ?thesis by (auto simp: set_meta_of_def bnd_run SetMeta_run Let_def)
next
  case (Inr os)
  let ?m = "(kt_meta T x)\<lparr>m_namespace := pp_namespace (ks_inst s), m_labels := CommonLabels (ks_inst s), m_owners := os\<rparr>"
  have "os \<noteq> []" "ke_set_owner (wx_env C) (KPatroni (ks_inst s)) ?m = Inr os"
    using assms(2) Inr unfolding library_laws_def by blast+
  with Inr assms(1) show ?thesis
    by (auto simp: set_meta_of_def bnd_run SetMeta_run Let_def ret_run meta_settled_def intro!: exI [of _ ?m])
qed

lemma set_meta_settled:
  "meta_settled (wx_env C) (ks_inst s) (kt_meta T x) \<Longrightarrow> kt_set_meta T (kt_meta T x) x = x \<Longrightarrow>
   set_meta_of C T x s = (Ok x, s)"
  by (cases "kt_meta T x") (simp add: set_meta_of_def bnd_run SetMeta_run Let_def ret_run meta_settled_def)

text \<open>A type whose objects are filed under the kind, the namespace and the name of their metadata.\<close>

locale stored_object = api_object T for T :: "'a kube_type" +
  assumes key_wrap: "key_of (kt_wrap T x) = Some (kt_kind T, m_namespace (kt_meta T x), m_name (kt_meta T x))"
    and meta_wrap: "meta_of (kt_wrap T x) = Some (kt_meta T x)"
    and not_patroni: "kt_kind T \<noteq> PatroniKind"

interpretation cm_stored: stored_object ConfigMapT
  by unfold_locales (simp_all add: kube_sel key_of_def)

interpretation sec_stored: stored_object SecretT
  by unfold_locales (simp_all add: kube_sel key_of_def)

interpretation pvc_stored: stored_object PVCT
  by unfold_locales (simp_all add: PVCT_def key_of_def)

interpretation sa_stored: stored_object ServiceAccountT
  by unfold_locales (simp_all add: kube_sel key_of_def)

interpretation role_stored: stored_object RoleT
  by unfold_locales (simp_all add: kube_sel key_of_def)

interpretation rb_stored: stored_object RoleBindingT
  by unfold_locales (simp_all add: kube_sel key_of_def)

interpretation svc_stored: stored_object ServiceT
  by unfold_locales (simp_all add: kube_sel key_of_def)

interpretation sts_stored: stored_object StatefulSetT
  by unfold_locales (simp_all add: kube_sel key_of_def)

interpretation np_stored: stored_object NetworkPolicyT
  by unfold_locales (simp_all add: kube_sel key_of_def)

interpretation pdb_stored: stored_object PDBT
  by unfold_locales (simp_all add: kube_sel key_of_def)

subsection \<open>Read, complete, write\<close>

text \<open>
  The shape of all reconcilers that set fields: \<open>m\<close> reads the object, which gets its metadata and
  the desired fields.
\<close>

definition bring :: "wctx \<Rightarrow> 'a kube_type \<Rightarrow> 'a option kop \<Rightarrow> 'a \<Rightarrow> ('a \<Rightarrow> 'a) \<Rightarrow> 'a kop" where
  "bring C T m new fill = bnd m (\<lambda>r. bnd (set_meta_of C T (case r of None \<Rightarrow> new | Some x \<Rightarrow> x))
     (\<lambda>x. create_or_update (wx_env C) T (r = None) (fill x)))"

definition reads :: "kube_env \<Rightarrow> 'a kube_type \<Rightarrow> string \<Rightarrow> string \<Rightarrow> 'a option kop \<Rightarrow> bool" where
  "reads E T ns n m \<longleftrightarrow> (\<exists>into. \<forall>s. m s = (let q = RGet (kt_kind T) ns n into in
     case ke_api E (ks_hist s) q of
       Inl e \<Rightarrow> (if e = NotFound then Ok None else Err e, after E q s)
     | Inr y \<Rightarrow> (case kt_unwrap T y of None \<Rightarrow> Err DecodeError | Some x \<Rightarrow> Ok (Some x), after E q s)))"

context stored_object
begin

lemma reads_found: "reads E T ns n (found (kget E T ns n))" "reads E T ns n (found (kget_into E T ns n y))"
  unfolding reads_def by (rule exI, rule allI, rule kget_after kget_into_after)+

text \<open>What a read says of the world.\<close>

lemma read_world:
  assumes "honest E W0" and "reads E T ns n m" and "m s = (r, t)"
  shows "quiet E W0 s t \<and> ks_inst t = ks_inst s \<and> r \<noteq> Panic \<and>
    (r = Ok None \<longrightarrow> world_at W0 s (kt_kind T, ns, n) = None) \<and>
    (\<forall>x. r = Ok (Some x) \<longrightarrow> world_at W0 s (kt_kind T, ns, n) = Some (kt_wrap T x) \<and> m_name (kt_meta T x) = n)"
proof -
  obtain into where m: "m s = (let q = RGet (kt_kind T) ns n into in
     case ke_api E (ks_hist s) q of
       Inl e \<Rightarrow> (if e = NotFound then Ok None else Err e, after E q s)
     | Inr y \<Rightarrow> (case kt_unwrap T y of None \<Rightarrow> Err DecodeError | Some x \<Rightarrow> Ok (Some x), after E q s))"
    using assms(2) unfolding reads_def by blast
  have "quiet E W0 s (after E (RGet (kt_kind T) ns n into) s)"
    by (simp add: quiet_def idle_def)
  with m assms(3) honest_get [OF assms(1) not_patroni, of "ks_hist s" ns n into] show ?thesis
    by (auto simp: Let_def key_wrap split: sum.splits option.splits if_splits dest!: wrap_inj)
qed

text \<open>An acknowledged write is stored as it is answered, under the key it was sent with.\<close>

lemma kept_meta:
  assumes "kept (kt_wrap T x) (kt_wrap T y)"
  shows "m_namespace (kt_meta T y) = m_namespace (kt_meta T x)" "m_name (kt_meta T y) = m_name (kt_meta T x)"
    "m_labels (kt_meta T y) = m_labels (kt_meta T x)" "m_owners (kt_meta T y) = m_owners (kt_meta T x)"
  using assms by (auto simp: kept_def meta_wrap)

lemma written:
  assumes "create_or_update E T create x s = (Ok y, t)" and "honest E W0"
  shows "ks_inst t = ks_inst s \<and> kept (kt_wrap T x) (kt_wrap T y) \<and> wrote E (kt_wrap T x) (kt_wrap T y) \<and> world_at W0 t =
    (world_at W0 s)((kt_kind T, m_namespace (kt_meta T x), m_name (kt_meta T x)) \<mapsto> kt_wrap T y)"
proof -
  let ?q = "if create then RCreate (kt_wrap T x) else RUpdate (kt_wrap T x)"
  have t: "ke_api E (ks_hist s) ?q = Inr (kt_wrap T y)" "t = after E ?q s"
    using assms(1) by (auto simp: create_or_update_def kcreate_def kupdate_def bnd_run ask_after decode_as_def ret_run fail_run
        split: if_splits sum.splits option.splits dest!: wrap_inj)
  then have "wrote E (kt_wrap T x) (kt_wrap T y)" by (auto simp: wrote_def split: if_splits)
  moreover from honest_wrote [OF assms(2) this] have "kept (kt_wrap T x) (kt_wrap T y)" by (simp add: key_wrap)
  ultimately show ?thesis using t kept_key [of "kt_wrap T x" "kt_wrap T y"]
    by (auto simp: happen_def put_object_def key_wrap)
qed

lemma rewritten:
  assumes "kupdate E T z s = (r, t)" and "honest E W0"
    and "world_at W0 s (kt_kind T, m_namespace (kt_meta T z), m_name (kt_meta T z)) = Some (kt_wrap T y)"
    and "kt_meta T z = kt_meta T y" and "steady E (kt_wrap T z) (kt_wrap T y)"
  shows "quiet E W0 s t \<and> ks_inst t = ks_inst s"
proof -
  note same = honest_steady [OF assms(2,3) key_wrap assms(5)]
  have "unchanged E (world_at W0 s) (kt_wrap T z) (ke_api E (ks_hist s) (RUpdate (kt_wrap T z)))"
    unfolding unchanged_def using assms(3-5) same
    by (intro exI [of _ "(kt_kind T, m_namespace (kt_meta T z), m_name (kt_meta T z))"] exI [of _ "kt_wrap T y"])
      (auto simp: key_wrap)
  then show ?thesis using write_after(2) [OF assms(1)] by (simp add: quiet_def idle_def)
qed

lemma bring_reached:
  assumes run: "bring C T m new fill s = (Ok y, t)"
    and server: "honest (wx_env C) W0" "library_laws (wx_env C)"
    and read: "reads (wx_env C) T (pp_namespace (ks_inst s)) n m" and new: "m_name (kt_meta T new) = n"
    and fill: "\<And>x. kt_meta T (fill x) = kt_meta T x" "\<And>x y. mixes (kt_wrap T (fill x)) (kt_wrap T y) (kt_wrap T (fill y))"
  shows "ks_inst t = ks_inst s \<and> (\<exists>x. world_at W0 t =
      (world_at W0 s)((kt_kind T, pp_namespace (ks_inst s), n) \<mapsto> kt_wrap T x) \<and>
    m_name (kt_meta T x) = n \<and> meta_settled (wx_env C) (ks_inst s) (kt_meta T x) \<and>
    steady (wx_env C) (kt_wrap T (fill x)) (kt_wrap T x))"
proof -
  from run obtain r u x' v where u: "m s = (Ok r, u)"
    and x': "set_meta_of C T (case r of None \<Rightarrow> new | Some x \<Rightarrow> x) u = (Ok x', v)"
    and t: "create_or_update (wx_env C) T (r = None) (fill x') v = (Ok y, t)"
    unfolding bring_def by (auto simp: bnd_Ok_inv)
  note read = read_world [OF server(1) read u]
  then have name: "m_name (kt_meta T (case r of None \<Rightarrow> new | Some x \<Rightarrow> x)) = n"
    using new by (cases r) auto
  from set_meta_settles [OF x' server(2)] name read obtain m' where v: "v = u"
    and m': "x' = kt_set_meta T m' (case r of None \<Rightarrow> new | Some x \<Rightarrow> x)" "m_name m' = n"
      "meta_settled (wx_env C) (ks_inst s) m'" by auto
  from written [OF t server(1)] have w: "ks_inst t = ks_inst v" "wrote (wx_env C) (kt_wrap T (fill x')) (kt_wrap T y)"
    "kept (kt_wrap T (fill x')) (kt_wrap T y)"
    "world_at W0 t = (world_at W0 v)((kt_kind T, m_namespace (kt_meta T x'), m_name (kt_meta T x')) \<mapsto> kt_wrap T y)"
    by (simp_all add: fill(1))
  have x'm: "kt_meta T x' = m'" using m'(1) by (simp add: meta_set_meta)
  have key: "m_namespace m' = pp_namespace (ks_inst s)" using m'(3) by (simp add: meta_settled_def)
  have y: "m_name (kt_meta T y) = n" using kept_meta(2) [OF w(3)] by (simp add: fill(1) x'm m'(2))
  have "meta_settled (wx_env C) (ks_inst s) (kt_meta T y)"
    by (rule meta_settled_kept [OF m'(3) server(2)]) (simp_all add: kept_meta [OF w(3)] fill(1) x'm)
  moreover have "steady (wx_env C) (kt_wrap T (fill y)) (kt_wrap T y)"
    using w(2) fill(2) unfolding steady_def by blast
  moreover have "ks_inst t = ks_inst s" "world_at W0 v = world_at W0 s"
    using w(1) v read quiet_world [of "wx_env C" W0 s u] by simp_all
  ultimately show ?thesis
    using w(4) y unfolding x'm key m'(2) by auto
qed

lemma bring_rests:
  assumes run: "bring C T m new fill s = (r, t)" and server: "honest (wx_env C) W0"
    and read: "reads (wx_env C) T (pp_namespace (ks_inst s)) n m"
    and good: "world_at W0 s (kt_kind T, pp_namespace (ks_inst s), n) = Some (kt_wrap T x)"
      "meta_settled (wx_env C) (ks_inst s) (kt_meta T x)" "kt_meta T (fill x) = kt_meta T x"
      "steady (wx_env C) (kt_wrap T (fill x)) (kt_wrap T x)"
  shows "quiet (wx_env C) W0 s t \<and> ks_inst t = ks_inst s"
proof -
  obtain a u where u: "m s = (a, u)" by fastforce
  note read = read_world [OF server read u]
  show ?thesis
  proof (cases a)
    case (Ok z)
    with read good(1) have z: "a = Ok (Some x)" "m_name (kt_meta T x) = n" by (cases z; auto simp: wrap_eq)+
    from read have inst: "ks_inst u = ks_inst s" "quiet (wx_env C) W0 s u" by simp_all
    then have "set_meta_of C T x u = (Ok x, u)" using good(2) by (intro set_meta_settled) (simp_all add: set_meta_meta)
    with run u z(1) have "kupdate (wx_env C) T (fill x) u = (r, t)"
      by (simp add: bring_def bnd_run create_or_update_def)
    from rewritten [OF this server _ good(3,4)] have "quiet (wx_env C) W0 u t \<and> ks_inst t = ks_inst u"
      using good(1-3) z(2) quiet_world [OF inst(2)] by (simp add: meta_settled_def)
    with inst show ?thesis by (auto intro: resting.effect_trans)
  qed (use run u read in \<open>auto simp: bring_def bnd_run\<close>)
qed

lemma bring_inst: "keeps (same id) m \<Longrightarrow> keeps (same id) (bring C T m new fill)"
  unfolding bring_def by (intro eff_intro)

end

subsection \<open>What it takes to settle\<close>

text \<open>
  The contract of a reconciler \<open>f\<close>: it is responsible for the objects under \<open>keys\<close>; when it
  succeeds these are \<open>good\<close> and it has touched no other; when they are good, it changes nothing.
\<close>

locale settling =
  fixes f :: "wctx \<Rightarrow> 'a kop" and keys :: "patroni \<Rightarrow> key set" and good :: "wctx \<Rightarrow> patroni \<Rightarrow> world \<Rightarrow> bool"
  assumes same_inst: "f C s = (r, t) \<Longrightarrow> same_run (ks_inst s) (ks_inst t)"
    and same_keys: "same_run p q \<Longrightarrow> keys q = keys p"
    and same_good: "good C p W \<Longrightarrow> same_run p q \<Longrightarrow> library_laws (wx_env C) \<Longrightarrow>
      \<forall>k \<in> keys p. W' k = W k \<Longrightarrow> good C q W'"
    and reached: "f C s = (Ok x, t) \<Longrightarrow> honest (wx_env C) W0 \<Longrightarrow> library_laws (wx_env C) \<Longrightarrow>
      good C (ks_inst s) (world_at W0 t) \<and> (\<forall>k. k \<notin> keys (ks_inst s) \<longrightarrow> world_at W0 t k = world_at W0 s k)"
    and rests: "f C s = (r, t) \<Longrightarrow> honest (wx_env C) W0 \<Longrightarrow> library_laws (wx_env C) \<Longrightarrow>
      good C (ks_inst s) (world_at W0 s) \<Longrightarrow> quiet (wx_env C) W0 s t"
begin

text \<open>Another one, responsible for other objects, may follow.\<close>

lemma followed:
  assumes g: "\<And>x. settling (g x) keys' good'" and disjoint: "\<And>p. keys p \<inter> keys' p = {}"
  shows "settling (\<lambda>C. bnd (f C) (\<lambda>x. g x C)) (\<lambda>p. keys p \<union> keys' p) (\<lambda>C p W. good C p W \<and> good' C p W)"
proof
  fix C s r t
  assume run: "bnd (f C) (\<lambda>x. g x C) s = (r, t)"
  then show "same_run (ks_inst s) (ks_inst t)"
    using settling.same_inst [OF g] same_inst by (auto dest!: bnd_parts) (blast intro: same_run_trans)
next
  show "keys q \<union> keys' q = keys p \<union> keys' p" if "same_run p q" for p q
    using same_keys [OF that] settling.same_keys [OF g that] by simp
next
  show "good C q W' \<and> good' C q W'" if "good C p W \<and> good' C p W" "same_run p q" "library_laws (wx_env C)"
    "\<forall>k \<in> keys p \<union> keys' p. W' k = W k" for C p W q W'
    using that same_good settling.same_good [OF g] by blast
next
  fix C s y t W0
  assume run: "bnd (f C) (\<lambda>x. g x C) s = (Ok y, t)" and E: "honest (wx_env C) W0" "library_laws (wx_env C)"
  then obtain x u where u: "f C s = (Ok x, u)" "g x C u = (Ok y, t)" by (auto simp: bnd_Ok_inv)
  have s_u: "same_run (ks_inst s) (ks_inst u)" by (rule same_inst [OF u(1)])
  from reached [OF u(1) E] settling.reached [OF g u(2) E]
  have first: "good C (ks_inst s) (world_at W0 u)" "\<And>k. k \<notin> keys (ks_inst s) \<Longrightarrow> world_at W0 u k = world_at W0 s k"
    and second: "good' C (ks_inst u) (world_at W0 t)" "\<And>k. k \<notin> keys' (ks_inst s) \<Longrightarrow> world_at W0 t k = world_at W0 u k"
    using settling.same_keys [OF g s_u] by auto
  have "good C (ks_inst s) (world_at W0 t)"
    by (rule same_good [OF first(1) same_run_refl E(2)]) (use second(2) disjoint in blast)
  moreover have "same_run (ks_inst u) (ks_inst s)" using s_u by (simp add: same_run_def)
  from settling.same_good [OF g second(1) this E(2)] have "good' C (ks_inst s) (world_at W0 t)" by simp
  ultimately show "(good C (ks_inst s) (world_at W0 t) \<and> good' C (ks_inst s) (world_at W0 t)) \<and>
    (\<forall>k. k \<notin> keys (ks_inst s) \<union> keys' (ks_inst s) \<longrightarrow> world_at W0 t k = world_at W0 s k)"
    using first(2) second(2) by simp
next
  fix C s r t W0
  assume run: "bnd (f C) (\<lambda>x. g x C) s = (r, t)" and E: "honest (wx_env C) W0" "library_laws (wx_env C)"
    and good: "good C (ks_inst s) (world_at W0 s) \<and> good' C (ks_inst s) (world_at W0 s)"
  obtain a u where u: "f C s = (a, u)" by fastforce
  have rest: "quiet (wx_env C) W0 s u" by (rule rests [OF u E conjunct1 [OF good]])
  have "quiet (wx_env C) W0 u t" if "g x C u = (r, t)" for x
  proof (rule settling.rests [OF g that E])
    show "good' C (ks_inst u) (world_at W0 u)"
      by (rule settling.same_good [OF g conjunct2 [OF good] same_inst [OF u] E(2)])
        (simp add: quiet_world [OF rest])
  qed
  with run u rest show "quiet (wx_env C) W0 s t"
    by (cases a) (auto simp: bnd_run intro: resting.effect_trans)
qed

end

lemma settling_nothing: "settling (\<lambda>_. ret ()) (\<lambda>_. {}) (\<lambda>_ _ _. True)"
  by unfold_locales (auto simp: ret_run resting.effect_refl)

subsection \<open>The reconcilers that set fields\<close>

context stored_object
begin

text \<open>What the key of the instance's object named \<open>nm p\<close> holds when it is settled.\<close>

definition set_good :: "(patroni \<Rightarrow> string) \<Rightarrow> (wctx \<Rightarrow> patroni \<Rightarrow> 'a \<Rightarrow> 'a) \<Rightarrow> wctx \<Rightarrow> patroni \<Rightarrow> world \<Rightarrow> bool" where
  "set_good nm fill C p W \<longleftrightarrow> (\<exists>x. W (kt_kind T, pp_namespace p, nm p) = Some (kt_wrap T x) \<and>
     m_name (kt_meta T x) = nm p \<and> meta_settled (wx_env C) p (kt_meta T x) \<and>
     steady (wx_env C) (kt_wrap T (fill C p x)) (kt_wrap T x))"

lemma set_good_same:
  assumes "set_good nm fill C p W" "same_run p q" "library_laws (wx_env C)"
    and "W' (kt_kind T, pp_namespace p, nm p) = W (kt_kind T, pp_namespace p, nm p)"
    and "nm q = nm p" "fill C q = fill C p"
  shows "set_good nm fill C q W'"
  using assms meta_settled_same [OF _ assms(2,3)] same_runD(2) [OF assms(2)]
  by (auto simp: set_good_def)

text \<open>A run that brings one object to the desired state, whatever it does with the result.\<close>

lemma bring_settles:
  assumes run: "\<And>C s r t. f C s = (r, t) \<Longrightarrow> \<exists>a u. bring C T (m C (ks_inst s)) (new (ks_inst s)) (fill C (ks_inst s)) s = (a, u) \<and>
      ks_hist t = ks_hist u \<and> ((\<exists>x. r = Ok x) \<longrightarrow> (\<exists>y. a = Ok y)) \<and> same_run (ks_inst u) (ks_inst t)"
    and m: "\<And>C p. reads (wx_env C) T (pp_namespace p) (nm p) (m C p)" "\<And>C p. keeps (same id) (m C p)"
    and nm: "\<And>p q. same_run p q \<Longrightarrow> nm q = nm p" "\<And>p. m_name (kt_meta T (new p)) = nm p"
    and fill: "\<And>C p x. kt_meta T (fill C p x) = kt_meta T x" 
      "\<And>C p x y. mixes (kt_wrap T (fill C p x)) (kt_wrap T y) (kt_wrap T (fill C p y))"
      "\<And>C p q. same_run p q \<Longrightarrow> fill C q = fill C p"
  shows "settling f (\<lambda>p. {(kt_kind T, pp_namespace p, nm p)}) (set_good nm fill)"
proof
  fix C s r t
  assume "f C s = (r, t)"
  from run [OF this] show "same_run (ks_inst s) (ks_inst t)"
    by (auto dest!: keepsD [OF bring_inst [OF m(2)]] simp: same_def)
next
  show "{(kt_kind T, pp_namespace q, nm q)} = {(kt_kind T, pp_namespace p, nm p)}" if "same_run p q" for p q
    using nm(1) [OF that] same_runD(2) [OF that] by simp
next
  show "set_good nm fill C q W'" if "set_good nm fill C p W" "same_run p q" "library_laws (wx_env C)"
    "\<forall>k \<in> {(kt_kind T, pp_namespace p, nm p)}. W' k = W k" for C p W q W'
    by (rule set_good_same [OF that(1-3)]) (use that nm fill in simp_all)
next
  fix C s x t W0
  assume "f C s = (Ok x, t)" and E: "honest (wx_env C) W0" "library_laws (wx_env C)"
  with run obtain y u where "bring C T (m C (ks_inst s)) (new (ks_inst s)) (fill C (ks_inst s)) s = (Ok y, u)"
    and hist: "ks_hist t = ks_hist u" by blast
  from bring_reached [OF this(1) E m(1) nm(2) fill(1,2)] hist
  show "set_good nm fill C (ks_inst s) (world_at W0 t) \<and>
    (\<forall>k. k \<notin> {(kt_kind T, pp_namespace (ks_inst s), nm (ks_inst s))} \<longrightarrow> world_at W0 t k = world_at W0 s k)"
    by (auto simp: set_good_def)
next
  fix C s r t W0
  assume "f C s = (r, t)" and E: "honest (wx_env C) W0" "library_laws (wx_env C)"
    and good: "set_good nm fill C (ks_inst s) (world_at W0 s)"
  with run obtain a u where u: "bring C T (m C (ks_inst s)) (new (ks_inst s)) (fill C (ks_inst s)) s = (a, u)"
    and hist: "ks_hist t = ks_hist u" by blast
  from good obtain x where "world_at W0 s (kt_kind T, pp_namespace (ks_inst s), nm (ks_inst s)) = Some (kt_wrap T x)"
    "meta_settled (wx_env C) (ks_inst s) (kt_meta T x)"
    "steady (wx_env C) (kt_wrap T (fill C (ks_inst s) x)) (kt_wrap T x)"
    unfolding set_good_def by blast
  from bring_rests [OF u E(1) m(1) this(1,2) fill(1) this(3)] hist show "quiet (wx_env C) W0 s t" by (simp add: quiet_def)
qed

lemma set_settles:
  assumes nm: "\<And>p q. same_run p q \<Longrightarrow> nm q = nm p" "\<And>p. m_name (kt_meta T (new p)) = nm p"
    and fill: "\<And>p x. kt_meta T (fill p x) = kt_meta T x" 
      "\<And>p x y. mixes (kt_wrap T (fill p x)) (kt_wrap T y) (kt_wrap T (fill p y))"
      "\<And>p q. same_run p q \<Longrightarrow> fill q = fill p"
  shows "settling (\<lambda>C. bnd inst (\<lambda>p. bnd (create_or_set C T (nm p) (new p) (fill p)) (\<lambda>_. ret ())))
    (\<lambda>p. {(kt_kind T, pp_namespace p, nm p)}) (set_good nm (\<lambda>_. fill))"
proof (rule bring_settles [where m = "\<lambda>C p. found (kget (wx_env C) T (pp_namespace p) (nm p))" and new = new])
  fix C r t and s :: kstate
  let ?bring = "bring C T (found (kget (wx_env C) T (pp_namespace (ks_inst s)) (nm (ks_inst s)))) (new (ks_inst s))
    (fill (ks_inst s))"
  assume "bnd inst (\<lambda>p. bnd (create_or_set C T (nm p) (new p) (fill p)) (\<lambda>_. ret ())) s = (r, t)"
  then have "bnd ?bring (\<lambda>_. ret ()) s = (r, t)"
    by (simp add: create_or_set_def bring_def bnd_run inst_run Let_def)
  then show "\<exists>a u. ?bring s = (a, u) \<and> ks_hist t = ks_hist u \<and> ((\<exists>x. r = Ok x) \<longrightarrow> (\<exists>y. a = Ok y)) \<and>
      same_run (ks_inst u) (ks_inst t)"
    by (cases "?bring s"; cases "fst (?bring s)") (auto simp: bnd_run ret_run)
qed (use assms reads_found in \<open>auto intro: eff_intro\<close>)

end

lemma role_settles: "settling reconcileRole (\<lambda>p. {(RoleKind, pp_namespace p, ServiceAccountName p)})
    (role_stored.set_good ServiceAccountName (\<lambda>_ _ r. r\<lparr>role_rules := patroni_rules\<rparr>))"
  unfolding reconcileRole_def
  by (rule role_stored.set_settles [unfolded kube_sel])
    (auto simp: mixes_def new_meta_def ServiceAccountName_def dest!: same_run_parts)

lemma role_binding_settles: "settling reconcileRoleBinding (\<lambda>p. {(RoleBindingKind, pp_namespace p, ServiceAccountName p)})
    (rb_stored.set_good ServiceAccountName (\<lambda>_ p b. b\<lparr>rb_subjects :=
       [\<lparr>sj_kind = ''ServiceAccount'', sj_name = ServiceAccountName p\<rparr>]\<rparr>))"
  unfolding reconcileRoleBinding_def
  by (rule rb_stored.set_settles [unfolded kube_sel])
    (auto simp: mixes_def new_meta_def ServiceAccountName_def dest!: same_run_parts)

lemma network_policy_settles: "settling networkpolicy_Reconcile (\<lambda>p. {(NetworkPolicyKind, pp_namespace p, pp_name p)})
    (np_stored.set_good pp_name (\<lambda>_ p n. n\<lparr>np_pod_selector := CommonLabels p, np_ingress := policy_ingress p\<rparr>))"
  unfolding networkpolicy_Reconcile_def
  by (rule np_stored.set_settles [unfolded kube_sel])
    (auto simp: mixes_def new_meta_def policy_ingress_def dest!: same_run_parts)

lemma pdb_settles: "settling pdb_Reconcile (\<lambda>p. {(PDBKind, pp_namespace p, pp_name p)})
    (pdb_stored.set_good pp_name (\<lambda>_ p b. b\<lparr>pdb_max_unavailable := Some maxUnavailable, pdb_selector := Some (CommonLabels p)\<rparr>))"
  unfolding pdb_Reconcile_def
  by (rule pdb_stored.set_settles [unfolded kube_sel])
    (auto simp: mixes_def new_meta_def dest!: same_run_parts)

subsection \<open>The reconcilers that adopt\<close>

context stored_object
begin

definition adopt_good :: "(patroni \<Rightarrow> string) \<Rightarrow> wctx \<Rightarrow> patroni \<Rightarrow> world \<Rightarrow> bool" where
  "adopt_good nm C p W \<longleftrightarrow> (\<exists>x. W (kt_kind T, pp_namespace p, nm p) = Some (kt_wrap T x) \<and> m_owners (kt_meta T x) \<noteq> [])"

lemma adopt_reached:
  assumes run: "adopt_or_create C T n new s = (Ok (), t)"
    and server: "honest (wx_env C) W0" "library_laws (wx_env C)"
    and new: "\<And>x v u. new v = (Ok x, u) \<Longrightarrow> ks_inst u = ks_inst v \<and> world_at W0 u = world_at W0 v \<and> m_name (kt_meta T x) = n"
  shows "\<exists>x. world_at W0 t = (world_at W0 s)((kt_kind T, pp_namespace (ks_inst s), n) \<mapsto> kt_wrap T x) \<and>
    m_owners (kt_meta T x) \<noteq> []"
proof -
  let ?p = "ks_inst s" and ?k = "(kt_kind T, pp_namespace (ks_inst s), n)"
  have put: "\<exists>x. world_at W0 t = (world_at W0 v)(?k \<mapsto> kt_wrap T x) \<and> m_owners (kt_meta T x) \<noteq> []"
    if run: "bnd (set_meta_of C T x) (\<lambda>x'. bnd (create_or_update (wx_env C) T b x') (\<lambda>_. ret ())) v = (Ok (), t)"
      and v: "ks_inst v = ?p" "m_name (kt_meta T x) = n" for x v b
  proof -
    from run obtain x' u y w where x': "set_meta_of C T x v = (Ok x', u)"
      and w: "create_or_update (wx_env C) T b x' u = (Ok y, w)" "ks_hist t = ks_hist w"
      by (auto simp: bnd_Ok_inv ret_inv)
    note w' = written [OF w(1) server(1)]
    with set_meta_settles [OF x' server(2)] v w(2) kept_meta(4) [of x' y] show ?thesis
      by (auto simp: meta_set_meta meta_settled_def)
  qed
  from run obtain r u where u: "found (kget (wx_env C) T (pp_namespace ?p) n) s = (Ok r, u)"
    and rest: "(case r of Some x \<Rightarrow> when_op (m_owners (kt_meta T x) = [])
           (bnd (set_meta_of C T x) (\<lambda>x'. bnd (kupdate (wx_env C) T x') (\<lambda>_. ret ())))
       | None \<Rightarrow> bnd new (\<lambda>x. bnd (set_meta_of C T x) (\<lambda>x'. bnd (kcreate (wx_env C) T x') (\<lambda>_. ret ())))) u = (Ok (), t)"
    unfolding adopt_or_create_def by (auto simp: bnd_Ok_inv inst_inv)
  note read = read_world [OF server(1) reads_found(1) u]
  then have same: "ks_inst u = ?p" "world_at W0 u = world_at W0 s" using quiet_world by auto
  show ?thesis
  proof (cases r)
    case None
    with rest obtain x v where "new u = (Ok x, v)"
      and "bnd (set_meta_of C T x) (\<lambda>x'. bnd (create_or_update (wx_env C) T True x') (\<lambda>_. ret ())) v = (Ok (), t)"
      by (auto simp: bnd_Ok_inv create_or_update_def)
    with put [OF this(2)] new [OF this(1)] same show ?thesis by simp
  next
    case (Some x)
    with read have x: "world_at W0 s ?k = Some (kt_wrap T x)" "m_name (kt_meta T x) = n" by simp_all
    show ?thesis
    proof (cases "m_owners (kt_meta T x) = []")
      case True
      with rest Some have "bnd (set_meta_of C T x) (\<lambda>x'. bnd (create_or_update (wx_env C) T False x') (\<lambda>_. ret ())) u = (Ok (), t)"
        by (simp add: create_or_update_def when_op_def)
      from put [OF this same(1) x(2)] same show ?thesis by simp
    next
      case False
      with rest Some have "t = u" by (simp add: when_op_def ret_run)
      with same x(1) have "world_at W0 t = (world_at W0 s)(?k \<mapsto> kt_wrap T x)" by (simp add: fun_upd_idem)
      with False show ?thesis by blast
    qed
  qed
qed

lemma adopt_rests:
  assumes run: "adopt_or_create C T n new s = (r, t)" and server: "honest (wx_env C) W0"
    and good: "world_at W0 s (kt_kind T, pp_namespace (ks_inst s), n) = Some (kt_wrap T x)" "m_owners (kt_meta T x) \<noteq> []"
  shows "quiet (wx_env C) W0 s t"
proof -
  obtain a u where u: "found (kget (wx_env C) T (pp_namespace (ks_inst s)) n) s = (a, u)" by fastforce
  note read = read_world [OF server reads_found(1) u]
  show ?thesis
  proof (cases a)
    case (Ok z)
    with read good(1) have "a = Ok (Some x)" by (cases z) (auto simp: wrap_eq)
    with run u good(2) have "t = u" by (simp add: adopt_or_create_def bnd_run inst_run when_op_def ret_run)
    with read show ?thesis by simp
  qed (use run u read in \<open>auto simp: adopt_or_create_def bnd_run inst_run\<close>)
qed

lemma adopt_settles:
  assumes nm: "\<And>p q. same_run p q \<Longrightarrow> nm q = nm p"
    and new: "\<And>C p x v u W0. new C p v = (Ok x, u) \<Longrightarrow> world_at W0 u = world_at W0 v \<and> m_name (kt_meta T x) = nm p"
      "\<And>C p. keeps (same id) (new C p)"
  shows "settling (\<lambda>C. bnd inst (\<lambda>p. adopt_or_create C T (nm p) (new C p))) (\<lambda>p. {(kt_kind T, pp_namespace p, nm p)})
    (adopt_good nm)"
proof
  fix C s r t
  assume "bnd inst (\<lambda>p. adopt_or_create C T (nm p) (new C p)) s = (r, t)"
  moreover have "keeps (same id) (bnd inst (\<lambda>p. adopt_or_create C T (nm p) (new C p)))"
    by (intro eff_intro adopt_or_create_same new(2))
  ultimately show "same_run (ks_inst s) (ks_inst t)" by (auto dest!: keepsD simp: same_def)
next
  show "{(kt_kind T, pp_namespace q, nm q)} = {(kt_kind T, pp_namespace p, nm p)}" if "same_run p q" for p q
    using nm [OF that] same_runD(2) [OF that] by simp
next
  show "adopt_good nm C q W'" if "adopt_good nm C p W" "same_run p q" "library_laws (wx_env C)"
    "\<forall>k \<in> {(kt_kind T, pp_namespace p, nm p)}. W' k = W k" for C p W q W'
    using that nm [OF that(2)] same_runD(2) [OF that(2)] by (simp add: adopt_good_def)
next
  fix C s t W0 and x :: unit
  assume "bnd inst (\<lambda>p. adopt_or_create C T (nm p) (new C p)) s = (Ok x, t)"
    and E: "honest (wx_env C) W0" "library_laws (wx_env C)"
  then have "adopt_or_create C T (nm (ks_inst s)) (new C (ks_inst s)) s = (Ok (), t)" by (simp add: bnd_run inst_run)
  from adopt_reached [OF this E] new keepsD [OF new(2)]
  obtain x where "world_at W0 t = (world_at W0 s)((kt_kind T, pp_namespace (ks_inst s), nm (ks_inst s)) \<mapsto> kt_wrap T x)"
    "m_owners (kt_meta T x) \<noteq> []" by (auto simp: same_def)
  then show "adopt_good nm C (ks_inst s) (world_at W0 t) \<and>
    (\<forall>k. k \<notin> {(kt_kind T, pp_namespace (ks_inst s), nm (ks_inst s))} \<longrightarrow> world_at W0 t k = world_at W0 s k)"
    by (auto simp: adopt_good_def)
next
  fix C s r t W0
  assume "bnd inst (\<lambda>p. adopt_or_create C T (nm p) (new C p)) s = (r, t)"
    and E: "honest (wx_env C) W0" "library_laws (wx_env C)" and "adopt_good nm C (ks_inst s) (world_at W0 s)"
  then show "quiet (wx_env C) W0 s t" by (auto simp: bnd_run inst_run adopt_good_def intro: adopt_rests)
qed

end

lemma config_map_settles: "settling (\<lambda>C. bnd inst (\<lambda>p. adopt_or_create C ConfigMapT (cmName p name) (ret (new_config_map (cmName p name)))))
    (\<lambda>p. {(ConfigMapKind, pp_namespace p, cmName p name)}) (cm_stored.adopt_good (\<lambda>p. cmName p name))"
  by (rule cm_stored.adopt_settles [unfolded kube_sel])
    (auto simp: ret_run new_config_map_def new_meta_def cmName_def dest!: same_run_parts intro: eff_intro)

lemma service_account_settles: "settling reconcileServiceAccount (\<lambda>p. {(ServiceAccountKind, pp_namespace p, ServiceAccountName p)})
    (sa_stored.adopt_good ServiceAccountName)"
  unfolding reconcileServiceAccount_def
  by (rule sa_stored.adopt_settles [unfolded kube_sel])
    (auto simp: ret_run new_meta_def ServiceAccountName_def dest!: same_run_parts intro: eff_intro)

lemma new_secret_after:
  assumes "new_secret E p v = (Ok x, u)"
  shows "world_at W0 u = world_at W0 v \<and> m_name (sec_meta x) = secret_Name p"
proof -
  have rand: "happen W (RRand n, a) = W" for W n a by (simp add: happen_def split: sum.splits)
  have gen: "world_at W0 u = world_at W0 v" if "genSecret E v = (r, u)" for r u v
    using that by (auto simp: genSecret_def bnd_run attempt_run ask_after ret_run rand split: sum.splits)
  from assms show ?thesis
    by (auto simp: new_secret_def bnd_Ok_inv ret_inv new_meta_def dest!: gen)
qed

lemma secret_settles: "settling secret_Reconcile (\<lambda>p. {(SecretKind, pp_namespace p, secret_Name p)})
    (sec_stored.adopt_good secret_Name)"
  unfolding secret_Reconcile_def
  by (rule sec_stored.adopt_settles [unfolded kube_sel])
    (auto simp: secret_Name_def new_secret_after dest!: same_run_parts intro: eff_intro new_secret_same)

subsection \<open>Services and the stateful set\<close>

lemma stateful_set_written:
  assumes "ReconcileSts C [] s = (r, t)"
  shows "\<exists>u. bring C StatefulSetT (found (kget (wx_env C) StatefulSetT (pp_namespace (ks_inst s)) (pp_name (ks_inst s))))
      ((new_statefulset (pp_name (ks_inst s)))\<lparr>sts_spec := initial_sts_spec (ks_inst s)\<rparr>)
      (\<lambda>x. desired_sts C (ks_inst s) False (sts_meta x) x) s = (r, u) \<and>
    ks_hist t = ks_hist u \<and> same_run (ks_inst u) (ks_inst t)"
proof -
  let ?p = "ks_inst s" and ?q = "RGet StatefulSetKind (pp_namespace (ks_inst s)) (pp_name (ks_inst s)) None"
  have get: "found (GetK8SStatefulSet C) s = found (kget (wx_env C) StatefulSetT (pp_namespace ?p) (pp_name ?p)) s"
    by (simp add: found_def attempt_run bnd_run GetK8SStatefulSet_def inst_run)
  have finish: "finish_sts C b x v = (r', t') \<Longrightarrow> \<exists>u. create_or_update (wx_env C) StatefulSetT b x v = (r', u) \<and>
      ks_hist t' = ks_hist u \<and> same_run (ks_inst u) (ks_inst t')" for b x v r' t'
    by (cases "create_or_update (wx_env C) StatefulSetT b x v"; cases "fst (create_or_update (wx_env C) StatefulSetT b x v)")
      (auto simp: finish_sts_def bnd_run attempt_run set_status_run ret_run fail_run same_run_def identity_def)
  have new: "set_meta_of C StatefulSetT (x\<lparr>sts_spec := sp\<rparr>) v =
      (case set_meta_of C StatefulSetT x v of (Ok y, u) \<Rightarrow> (Ok (y\<lparr>sts_spec := sp\<rparr>), u) | (Err e, u) \<Rightarrow> (Err e, u)
        | (Panic, u) \<Rightarrow> (Panic, u))" for x sp v
    by (simp add: set_meta_of_def kube_sel bnd_def ret_def split: prod.splits res.splits)
  let ?y = "\<lambda>b x. let y = (if b then x\<lparr>sts_spec := initial_sts_spec ?p\<rparr> else x) in
      finish_sts C b (desired_sts C ?p False (sts_meta y) y)"
  obtain a v where a: "found (kget (wx_env C) StatefulSetT (pp_namespace ?p) (pp_name ?p)) s = (a, v)" by fastforce
  have run: "ReconcileSts C [] s = bnd (found (kget (wx_env C) StatefulSetT (pp_namespace ?p) (pp_name ?p))) (\<lambda>r.
      bnd (set_meta_of C StatefulSetT (case r of None \<Rightarrow> new_statefulset (pp_name ?p) | Some s \<Rightarrow> s)) (?y (r = None))) s"
    using ReconcileSts_finish [of C False] by (simp add: bnd_run inst_run get)
  show ?thesis
  proof (cases a)
    case (Ok z)
    let ?x = "case z of None \<Rightarrow> new_statefulset (pp_name ?p) | Some x \<Rightarrow> x"
    obtain b w where b: "set_meta_of C StatefulSetT ?x v = (b, w)" by fastforce
    from assms run a Ok b show ?thesis
      by (cases z; cases b) (auto simp: bring_def bnd_run new Let_def dest!: finish)
  qed (use assms run a in \<open>auto simp: bring_def bnd_run\<close>)
qed

definition sts_fill :: "wctx \<Rightarrow> patroni \<Rightarrow> statefulset \<Rightarrow> statefulset" where
  "sts_fill C p x = desired_sts C p False (sts_meta x) x"

lemma sts_fill_same:
  assumes "same_run p q"
  shows "sts_fill C q = sts_fill C p"
proof -
  note parts = same_run_parts [OF assms]
  have "pod_affinity_of q = pod_affinity_of p" "genNodeTagsEnvs q = genNodeTagsEnvs p" "postgres_envs q = postgres_envs p"
    unfolding pod_affinity_of_def genNodeTagsEnvs_def postgres_envs_def secret_Name_def PodLabels_def
      same_runD [OF assms] by (rule refl)+
  with parts show ?thesis
    by (simp add: fun_eq_iff sts_fill_def desired_sts_def desired_template_def desired_container_def
        sts_pod_template_def postgres_container_def ServiceAccountName_def)
qed

lemma stateful_set_settles: "settling statefulset_Reconcile (\<lambda>p. {(StatefulSetKind, pp_namespace p, pp_name p)})
    (sts_stored.set_good pp_name sts_fill)"
proof (rule sts_stored.bring_settles [unfolded kube_sel, where new = "\<lambda>p. (new_statefulset (pp_name p))\<lparr>sts_spec := initial_sts_spec p\<rparr>"
      and m = "\<lambda>C p. found (kget (wx_env C) StatefulSetT (pp_namespace p) (pp_name p))"])
  fix C s r t
  assume "statefulset_Reconcile C s = (r, t)"
  moreover obtain a v where a: "ReconcileSts C [] s = (a, v)" by fastforce
  ultimately have "ks_hist t = ks_hist v \<and> ((\<exists>x. r = Ok x) \<longrightarrow> (\<exists>y. a = Ok y)) \<and> same_run (ks_inst v) (ks_inst t)"
    by (cases a) (auto simp: statefulset_Reconcile_def bnd_run inst_run set_status_run same_run_def identity_def
        split: if_splits)
  moreover have fill: "sts_fill C (ks_inst s) = (\<lambda>x. desired_sts C (ks_inst s) False (sts_meta x) x)"
    by (simp add: fun_eq_iff sts_fill_def)
  moreover from stateful_set_written [OF a] obtain u where "bring C StatefulSetT
      (found (kget (wx_env C) StatefulSetT (pp_namespace (ks_inst s)) (pp_name (ks_inst s))))
      ((new_statefulset (pp_name (ks_inst s)))\<lparr>sts_spec := initial_sts_spec (ks_inst s)\<rparr>) (sts_fill C (ks_inst s)) s = (a, u)"
    "ks_hist v = ks_hist u" "same_run (ks_inst u) (ks_inst v)"
    unfolding fill by blast
  ultimately show "\<exists>a u. bring C StatefulSetT (found (kget (wx_env C) StatefulSetT (pp_namespace (ks_inst s)) (pp_name (ks_inst s))))
      ((new_statefulset (pp_name (ks_inst s)))\<lparr>sts_spec := initial_sts_spec (ks_inst s)\<rparr>) (sts_fill C (ks_inst s)) s = (a, u) \<and>
    ks_hist t = ks_hist u \<and> ((\<exists>x. r = Ok x) \<longrightarrow> (\<exists>y. a = Ok y)) \<and> same_run (ks_inst u) (ks_inst t)"
    by (intro exI conjI) (auto intro: same_run_trans)
qed (use sts_stored.reads_found in \<open>auto simp: mixes_def Let_def sts_fill_same fun_eq_iff sts_fill_def desired_sts_def new_statefulset_def new_meta_def
    dest!: same_run_parts intro: eff_intro\<close>)

lemma service_writes_bring:
  "write_main C p [] = bring C ServiceT (found (kget (wx_env C) ServiceT (pp_namespace p) (pp_name p)))
     (new_service (pp_name p)) (main_service_fields p)"
  "write_headless C p x = bring C ServiceT (found (kget_into (wx_env C) ServiceT (pp_namespace p) (HeadlessServiceName p) x))
     (new_service (HeadlessServiceName p)) (headless_service_fields p)"
  by (simp_all add: write_main_def write_headless_def bring_def)

lemma main_service_settles: "settling (\<lambda>C. bnd inst (\<lambda>p. write_main C p []))
    (\<lambda>p. {(ServiceKind, pp_namespace p, pp_name p)}) (svc_stored.set_good pp_name (\<lambda>_. main_service_fields))"
  by (rule svc_stored.bring_settles [unfolded kube_sel, where new = "\<lambda>p. new_service (pp_name p)"
        and m = "\<lambda>C p. found (kget (wx_env C) ServiceT (pp_namespace p) (pp_name p))"])
    (use svc_stored.reads_found in \<open>auto simp: mixes_def service_writes_bring bnd_run [of inst] inst_run new_service_def new_meta_def
      main_service_fields_def master_selector_def PodLabels_def dest!: same_run_parts intro: eff_intro\<close>)

lemma headless_service_settles: "settling (\<lambda>C. bnd inst (\<lambda>p. write_headless C p x))
    (\<lambda>p. {(ServiceKind, pp_namespace p, HeadlessServiceName p)})
    (svc_stored.set_good HeadlessServiceName (\<lambda>_. headless_service_fields))"
  by (rule svc_stored.bring_settles [unfolded kube_sel, where new = "\<lambda>p. new_service (HeadlessServiceName p)"
        and m = "\<lambda>C p. found (kget_into (wx_env C) ServiceT (pp_namespace p) (HeadlessServiceName p) x)"])
    (use svc_stored.reads_found in \<open>auto simp: mixes_def service_writes_bring bnd_run [of inst] inst_run new_service_def new_meta_def
      headless_service_fields_def HeadlessServiceName_def master_selector_def PodLabels_def dest!: same_run_parts intro: eff_intro\<close>)

subsection \<open>All of them\<close>

text \<open>What an instance's objects look like when every one of them is settled.\<close>

definition all_keys :: "patroni \<Rightarrow> key set" where
  "all_keys p = {(k, pp_namespace p, pp_name p) | k. k \<in> {SecretKind, ServiceAccountKind, RoleKind, RoleBindingKind,
       ServiceKind, StatefulSetKind, NetworkPolicyKind, PDBKind}} \<union>
     {(ServiceKind, pp_namespace p, HeadlessServiceName p)} \<union>
     {(ConfigMapKind, pp_namespace p, cmName p n) | n. n \<in> {configCMName, leaderCMName, syncCMName, failoverCMName}}"

lemma configmaps_settle: "\<exists>good. settling configmap_Reconcile
    (\<lambda>p. {(ConfigMapKind, pp_namespace p, cmName p n) | n. n \<in> {configCMName, leaderCMName, syncCMName, failoverCMName}}) good"
proof -
  have names: "cmName p m = cmName p n \<longleftrightarrow> m = n" for p m n by (simp add: cmName_def)
  have keys: "{(ConfigMapKind, pp_namespace p, cmName p n) | n. n \<in> {configCMName, leaderCMName, syncCMName, failoverCMName}} =
      {(ConfigMapKind, pp_namespace p, cmName p configCMName)} \<union> ({(ConfigMapKind, pp_namespace p, cmName p leaderCMName)} \<union>
      ({(ConfigMapKind, pp_namespace p, cmName p syncCMName)} \<union> ({(ConfigMapKind, pp_namespace p, cmName p failoverCMName)} \<union> {})))" for p
    by auto
  note step = settling.followed [OF config_map_settles]
  show ?thesis
    unfolding keys configmap_Reconcile_def for_each.simps
    by (rule exI, rule step, rule step, rule step, rule step, rule settling_nothing)
      (simp_all add: names configCMName_def leaderCMName_def syncCMName_def failoverCMName_def)
qed

lemma rbac_settles: "\<exists>good. settling rbac_Reconcile
    (\<lambda>p. {(k, pp_namespace p, pp_name p) | k. k \<in> {ServiceAccountKind, RoleKind, RoleBindingKind}}) good"
proof -
  have keys: "{(k, pp_namespace p, pp_name p) | k. k \<in> {ServiceAccountKind, RoleKind, RoleBindingKind}} =
      {(ServiceAccountKind, pp_namespace p, ServiceAccountName p)} \<union> ({(RoleKind, pp_namespace p, ServiceAccountName p)} \<union>
      ({(RoleBindingKind, pp_namespace p, ServiceAccountName p)} \<union> {}))" for p
    by (auto simp: ServiceAccountName_def)
  show ?thesis
    unfolding keys rbac_Reconcile_def
    by (rule exI, rule settling.followed [OF service_account_settles], rule settling.followed [OF role_settles],
        rule settling.followed [OF role_binding_settles], rule settling_nothing) simp_all
qed

lemma services_settle: "\<exists>good. settling service_Reconcile
    (\<lambda>p. {(ServiceKind, pp_namespace p, n) | n. n \<in> {pp_name p, HeadlessServiceName p}}) good"
proof -
  have keys: "{(ServiceKind, pp_namespace p, n) | n. n \<in> {pp_name p, HeadlessServiceName p}} =
      {(ServiceKind, pp_namespace p, pp_name p)} \<union> ({(ServiceKind, pp_namespace p, HeadlessServiceName p)} \<union> {})" for p
    by auto
  have same: "keeps (same id) (write_main C p [])" for C p
    unfolding service_writes_bring by (rule svc_stored.bring_inst) (intro eff_intro)
  have "service_Reconcile C s = bnd (bnd inst (\<lambda>p. write_main C p [])) (\<lambda>x.
      bnd (bnd inst (\<lambda>p. write_headless C p x)) (\<lambda>_. ret ())) s" for C s
    using keepsD [OF same, of C "ks_inst s" s]
    by (cases "write_main C (ks_inst s) [] s"; cases "fst (write_main C (ks_inst s) [] s)")
      (auto simp: service_Reconcile_def ReconcileService_writes bnd_run [of inst] bnd_run [of "bnd inst _"] bnd_run [of "write_main _ _ _"]
        bnd_assoc inst_run same_def)
  then have run: "service_Reconcile = (\<lambda>C. bnd (bnd inst (\<lambda>p. write_main C p [])) (\<lambda>x.
      bnd (bnd inst (\<lambda>p. write_headless C p x)) (\<lambda>_. ret ())))"
    by (simp add: fun_eq_iff)
  show ?thesis
    unfolding keys run
    by (rule exI, rule settling.followed [OF main_service_settles], rule settling.followed [OF headless_service_settles],
        rule settling_nothing) (simp_all add: HeadlessServiceName_def)
qed

lemma owned_settle: "\<exists>good. settling (\<lambda>C. for_each (tl reconcilers) (\<lambda>f. f C)) all_keys good"
proof -
  obtain g1 g2 g3 where g: "settling configmap_Reconcile
      (\<lambda>p. {(ConfigMapKind, pp_namespace p, cmName p n) | n. n \<in> {configCMName, leaderCMName, syncCMName, failoverCMName}}) g1"
    "settling rbac_Reconcile (\<lambda>p. {(k, pp_namespace p, pp_name p) | k. k \<in> {ServiceAccountKind, RoleKind, RoleBindingKind}}) g2"
    "settling service_Reconcile (\<lambda>p. {(ServiceKind, pp_namespace p, n) | n. n \<in> {pp_name p, HeadlessServiceName p}}) g3"
    using configmaps_settle rbac_settles services_settle by blast
  have keys: "all_keys = (\<lambda>p. {(SecretKind, pp_namespace p, secret_Name p)} \<union>
      ({(ConfigMapKind, pp_namespace p, cmName p n) | n. n \<in> {configCMName, leaderCMName, syncCMName, failoverCMName}} \<union>
      ({(k, pp_namespace p, pp_name p) | k. k \<in> {ServiceAccountKind, RoleKind, RoleBindingKind}} \<union>
      ({(ServiceKind, pp_namespace p, n) | n. n \<in> {pp_name p, HeadlessServiceName p}} \<union>
      ({(StatefulSetKind, pp_namespace p, pp_name p)} \<union> ({(NetworkPolicyKind, pp_namespace p, pp_name p)} \<union>
      ({(PDBKind, pp_namespace p, pp_name p)} \<union> {})))))))"
    by (auto simp: all_keys_def fun_eq_iff secret_Name_def)
  show ?thesis
    unfolding keys reconcilers_def list.sel for_each.simps
    by (rule exI, rule settling.followed [OF secret_settles], rule settling.followed [OF g(1)],
        rule settling.followed [OF g(2)], rule settling.followed [OF g(3)], rule settling.followed [OF stateful_set_settles],
        rule settling.followed [OF network_policy_settles], rule settling.followed [OF pdb_settles],
        rule settling_nothing) auto
qed

end
