(* ===== verification/Progress.thy ===== *)
theory Progress
  imports Permissions Step_Props
begin

section \<open>An upgrade that is helped along completes\<close>

text \<open>
  The cluster may refuse, delay and fail as it likes; a reconcile that meets a cluster which has
  done its part takes the upgrade one stage further, and enough of them finish it, whatever the
  reconciles in between meet.
\<close>

subsection \<open>Programs that end well\<close>

text \<open>
  From any state whose instance satisfies \<open>J\<close> the program returns a value that satisfies \<open>P\<close>,
  without an error or a panic, and the instance still satisfies \<open>J\<close>.
\<close>

definition attains :: "(patroni \<Rightarrow> bool) \<Rightarrow> ('a \<Rightarrow> bool) \<Rightarrow> 'a kop \<Rightarrow> bool" where
  "attains J P m \<longleftrightarrow> (\<forall>s. J (ks_inst s) \<longrightarrow> (\<exists>x t. m s = (Ok x, t) \<and> J (ks_inst t) \<and> P x))"

lemma attains_ret: "P x \<Longrightarrow> attains J P (ret x)"
  by (simp add: attains_def ret_run)

lemma attains_bnd: "attains J Q m \<Longrightarrow> (\<And>x. Q x \<Longrightarrow> attains J P (f x)) \<Longrightarrow> attains J P (bnd m f)"
  unfolding attains_def by (fastforce simp: bnd_run)

lemma attains_inst: "(\<And>p. J p \<Longrightarrow> attains J P (f p)) \<Longrightarrow> attains J P (bnd inst f)"
  by (simp add: attains_def bnd_run inst_run)

lemma attains_of_option:
  "r \<noteq> None \<Longrightarrow> (\<And>y. r = Some y \<Longrightarrow> attains J P (f y)) \<Longrightarrow> attains J P (bnd (of_option r) f)"
  by (cases r) (simp_all add: attains_def bnd_run ret_run)

lemma attains_mono: "attains J Q m \<Longrightarrow> (\<And>x. Q x \<Longrightarrow> P x) \<Longrightarrow> attains J P m"
  unfolding attains_def by blast

lemma attains_attempt: "attains J P m \<Longrightarrow> attains J (\<lambda>r. \<exists>x. r = Inr x \<and> P x) (attempt m)"
  unfolding attains_def attempt_run by fastforce

lemma attains_found: "attains J P m \<Longrightarrow> attains J (\<lambda>r. \<exists>x. r = Some x \<and> P x) (found m)"
  unfolding found_def by (rule attains_bnd [OF attains_attempt [where P = P]], assumption) (elim exE conjE, simp, rule attains_ret, simp)

lemma attains_set_status: "(\<And>p. J p \<Longrightarrow> J (upd_status f p)) \<Longrightarrow> attains J (\<lambda>_. True) (set_status f)"
  by (simp add: attains_def set_status_run)

lemma attains_when: "(b \<Longrightarrow> attains J (\<lambda>_. True) m) \<Longrightarrow> attains J (\<lambda>_. True) (when_op b m)"
  by (cases b) (simp_all add: attains_ret when_op_def)

lemma attains_ask: "(\<And>h. \<exists>x. ke_api E h q = Inr x \<and> P x) \<Longrightarrow> attains J P (ask E q)"
  unfolding attains_def ask_run by (metis (no_types, lifting) kstate.select_convs(1) kstate.surjective kstate.update_convs(2) sum.simps(6))

lemma attains_decode: "(\<exists>y. f x = Some y \<and> P y) \<Longrightarrow> attains J P (decode_as f x)"
  by (auto simp: decode_as_def attains_ret)

lemma attains_for_each: "(\<And>x. x \<in> set xs \<Longrightarrow> attains J (\<lambda>_. True) (f x)) \<Longrightarrow> attains J (\<lambda>_. True) (for_each xs f)"
  by (induction xs) (auto intro: attains_ret attains_bnd)

lemma attains_for_acc:
  "P (0::nat) a \<Longrightarrow> (\<And>i a. i < length xs \<Longrightarrow> P i a \<Longrightarrow> attains J (P (Suc i)) (f (xs ! i) a)) \<Longrightarrow>
   attains J (P (length xs)) (for_acc xs a f)"
proof (induction xs arbitrary: a P)
  case (Cons x xs)
  have "attains J (P 1) (f x a)" using Cons.prems(2) [of 0 a] Cons.prems(1) by simp
  moreover have "attains J (P (length (x # xs))) (for_acc xs b f)" if "P 1 b" for b
    using Cons.IH [of "\<lambda>i. P (Suc i)" b] that Cons.prems(2) by fastforce
  ultimately show ?case by (auto intro: attains_bnd)
qed (simp add: attains_ret)

subsection \<open>A cluster that has done its part\<close>

text \<open>
  Of the config maps: Patroni's own holds, when the secondaries are upgraded, the two notes of
  the primary's upgrade, and its configuration can be read; the other names a member.
\<close>

definition good_map :: "kube_env \<Rightarrow> patroni \<Rightarrow> string \<Rightarrow> config_map \<Rightarrow> bool" where
  "good_map E p n cm \<longleftrightarrow>
     (n = cmName p configCMName \<longrightarrow> m_annotations (cm_meta cm) \<noteq> None \<and>
        (case annotation cm configCMconfigAnnotation of None \<Rightarrow> False | Some c \<Rightarrow> resume_config (ke_f64 E) c \<noteq> None) \<and>
        (pp_state p = StateUpgradeSecondaries \<longrightarrow> annotation cm configCMdbidAnnotation \<noteq> None \<and>
           annotation cm configCMLatestCheckpointLocation \<noteq> None)) \<and>
     (n = cmName p syncCMName \<longrightarrow> (case annotation cm syncCMLeaderAnnotation of None \<Rightarrow> False
        | Some l \<Rightarrow> sscanf_int (last (split_on (CHR ''-'') l)) \<noteq> None))"

text \<open>The last line of a job's log is what the operator expects of the stage's job.\<close>

definition good_log :: "patroni \<Rightarrow> string \<Rightarrow> bool" where
  "good_log p b \<longleftrightarrow> b \<noteq> [] \<and>
     (pp_state p = StateUpgradePreupgrade \<longrightarrow>
        (case unmarshal_config (take 2048 b) of None \<Rightarrow> False | Some c \<Rightarrow> cfg_MaxPreparedTransactions c = 0)) \<and>
     (pp_state p = StateUpgradePrimary \<longrightarrow> unmarshal_struct result_fields
        \<lparr>OldLatestCheckpointLocation = [], NewDatabaseSystemIdentifier = []\<rparr> (take 2048 b) \<noteq> None)"

text \<open>The stateful set has scaled down, or up again, when the stage is about that.\<close>

definition scaled :: "patroni \<Rightarrow> statefulset \<Rightarrow> bool" where
  "scaled p y \<longleftrightarrow>
     (pp_state p \<in> {StateUpgradePreupgradeScaleDown, StateUpgradeScaleDown} \<longrightarrow> sts_available y = 0) \<and>
     (pp_state p = StateUpgradePostupgrade \<longrightarrow> sint (sts_ready y) = int (length (pp_nodes p)))"

text \<open>
  What the server answers a request with: objects that are there, jobs that have succeeded,
  stateful sets that have scaled to what was asked.
\<close>

definition good_answer :: "kube_env \<Rightarrow> patroni \<Rightarrow> request \<Rightarrow> kobj \<Rightarrow> bool" where
  "good_answer E p q x = (case q of
       RGet k ns n into \<Rightarrow>
         (k = PatroniKind \<longrightarrow> x = KPatroni p) \<and>
         (k = ServiceKind \<longrightarrow> (\<exists>y. x = KService y)) \<and>
         (k = StatefulSetKind \<longrightarrow> (\<exists>y. x = KStatefulSet y)) \<and>
         (k = ConfigMapKind \<longrightarrow> (\<exists>y. x = KConfigMap y \<and> good_map E p n y)) \<and>
         (k = JobKind \<longrightarrow> (\<exists>y. x = KJob y \<and> int32_pos (job_succeeded y) \<and> \<not> int32_pos (job_failed y)))
     | RUpdate (KStatefulSet _) \<Rightarrow> (\<exists>y. x = KStatefulSet y \<and> scaled p y)
     | RUpdate (KService _) \<Rightarrow> (\<exists>y. x = KService y)
     | RUpdate (KConfigMap _) \<Rightarrow> (\<exists>y. x = KConfigMap y)
     | RListPods _ _ \<Rightarrow> (\<exists>pod pods. x = KPodList (pod # pods))
     | RReadLogs _ _ _ \<Rightarrow> (\<exists>b. x = KBytes b \<and> good_log p b)
     | RStatusUpdate _ \<Rightarrow> (\<exists>y. x = KPatroni y)
     | _ \<Rightarrow> True)"

definition helpful :: "kube_env \<Rightarrow> patroni \<Rightarrow> bool" where
  "helpful E p \<longleftrightarrow> (\<forall>h q. \<exists>x. ke_api E h q = Inr x \<and> good_answer E p q x) \<and>
     (\<forall>x m. \<exists>os. ke_set_owner E x m = Inr os)"

definition alike :: "patroni \<Rightarrow> patroni \<Rightarrow> bool" where
  "alike p q \<longleftrightarrow> identity q = identity p \<and> pp_volumes q = pp_volumes p"

lemma alikeD: "alike p q \<Longrightarrow> pp_name q = pp_name p" "alike p q \<Longrightarrow> pp_nodes q = pp_nodes p"
  "alike p q \<Longrightarrow> pp_volumes q = pp_volumes p" "alike p q \<Longrightarrow> cmName q n = cmName p n"
  by (auto simp: alike_def identity_def cmName_def)

lemma attains_ask_good:
  "helpful E p \<Longrightarrow> (\<And>x. good_answer E p q x \<Longrightarrow> P x) \<Longrightarrow> attains J P (ask E q)"
  unfolding helpful_def by (intro attains_ask) metis

subsection \<open>The client's calls\<close>

definition good_job :: "job \<Rightarrow> bool" where
  "good_job job \<longleftrightarrow> int32_pos (job_succeeded job) \<and> \<not> int32_pos (job_failed job)"

lemma attains_get:
  assumes "helpful E p"
  shows "attains J good_job (kget E JobT ns n)" "attains J (\<lambda>_. True) (kget E StatefulSetT ns n)"
    "attains J (\<lambda>_. True) (kget E ServiceT ns n)" "attains J (\<lambda>_. True) (kget_into E ServiceT ns n x)"
    "attains J (good_map E p n) (kget E ConfigMapT ns n)"
  unfolding kget_def kget_into_def
  by (rule attains_bnd [OF attains_ask_good [OF assms]], assumption,
    rule attains_decode, force simp: good_answer_def good_job_def kube_types)+

lemma attains_found_job: "helpful E p \<Longrightarrow> attains J (\<lambda>r. \<exists>job. r = Some job \<and> good_job job) (found (kget E JobT ns n))"
  by (rule attains_found [OF attains_get(1)])

lemma attains_update:
  assumes "helpful E p"
  shows "attains J (scaled p) (kupdate E StatefulSetT w)" "attains J (\<lambda>_. True) (kupdate E ServiceT svc)"
    "attains J (\<lambda>_. True) (kupdate E ConfigMapT cm)"
  unfolding kupdate_def
  by (rule attains_bnd [OF attains_ask_good [OF assms]], assumption,
    rule attains_decode, force simp: good_answer_def kube_types)+

lemma attains_delete: "helpful E p \<Longrightarrow> attains J (\<lambda>_. True) (kdelete E T x pol)"
  unfolding kdelete_def by (rule attains_bnd [OF attains_ask_good]) (auto intro: attains_ret)

lemma attains_set_meta: "helpful (wx_env C) p \<Longrightarrow> attains J (\<lambda>y. \<exists>m. y = kt_set_meta T m x) (set_meta_of C T x)"
  unfolding set_meta_of_def helpful_def attains_def
  by (simp add: bnd_run SetMeta_run Let_def ret_run split: sum.splits) (metis Inr_not_Inl)

lemma attains_cleanup: "helpful (wx_env C) p \<Longrightarrow> attains J (\<lambda>_. True) (cleanupJob C job)"
  unfolding cleanupJob_def by (intro attains_when attains_delete)

lemma attains_settle: "helpful (wx_env C) p \<Longrightarrow> good_job job \<Longrightarrow> attains J (\<lambda>d. d) (settle C job e)"
  unfolding settle_def good_job_def by (rule attains_bnd [OF attains_cleanup]) (auto intro: attains_ret)

lemma attains_ensure: "helpful (wx_env C) p \<Longrightarrow> attains J good_job (ensureUpgradeJob C j)"
  unfolding ensureUpgradeJob_def
  by (intro attains_inst attains_bnd [OF attains_found_job]) (auto intro: attains_ret)

subsection \<open>Notes and results\<close>

lemma attains_getConfigCM:
  "helpful (wx_env C) p \<Longrightarrow> attains (alike p) (good_map (wx_env C) p (cmName p configCMName)) (getConfigCM C)"
  unfolding getConfigCM_def by (intro attains_inst) (metis alikeD(4) attains_get(5))

lemma set_annotation_Some: "m_annotations (cm_meta cm) \<noteq> None \<Longrightarrow> \<exists>cm'. set_annotation k v cm = Some cm'"
  by (auto simp: set_annotation_def)

lemma attains_notes:
  assumes H: "helpful (wx_env C) p"
  shows "attains (alike p) (\<lambda>_. True) (SetPrimaryInitdbArgs C v)"
    "attains (alike p) (\<lambda>_. True) (SetLatestCheckpointLocation C v)"
    "attains (alike p) (\<lambda>_. True) (ClearUpgradeAnnotations C)"
  unfolding SetPrimaryInitdbArgs_def SetLatestCheckpointLocation_def ClearUpgradeAnnotations_def Let_def
  by (rule attains_bnd [OF attains_getConfigCM [OF H]], (rule attains_of_option, force simp: good_map_def set_annotation_def)?,
    rule attains_bnd [OF attains_update(3) [OF H]], simp add: attains_ret)+

lemma attains_SetDBId:
  assumes H: "helpful (wx_env C) p"
  shows "attains (alike p) (\<lambda>_. True) (SetDBId C v)"
proof -
  have rest: "attains (alike p) (\<lambda>_. True) (case annotation cm' configCMconfigAnnotation of None \<Rightarrow> fail ErrNoConfigAnnotation
     | Some configs \<Rightarrow> (case resume_config (ke_f64 (wx_env C)) configs of None \<Rightarrow> fail JsonError
          | Some configb \<Rightarrow> bnd (of_option (set_annotation configCMconfigAnnotation configb cm')) (\<lambda>cm.
              bnd (kupdate (wx_env C) ConfigMapT cm) (\<lambda>_. ret ()))))"
    if cm: "good_map (wx_env C) p (cmName p configCMName) cm" "set_annotation configCMdbidAnnotation v cm = Some cm'" for cm cm'
  proof -
    have "annotation cm' configCMconfigAnnotation = annotation cm configCMconfigAnnotation"
      and "m_annotations (cm_meta cm') \<noteq> None"
      using cm by (auto simp: set_annotation_def annotation_def cm_keys split: option.splits)
    then obtain c r where "annotation cm' configCMconfigAnnotation = Some c" "resume_config (ke_f64 (wx_env C)) c = Some r"
      and some: "\<And>k w. set_annotation k w cm' \<noteq> None"
      using cm(1) by (auto simp: good_map_def set_annotation_def split: option.splits)
    then show ?thesis
      by simp (intro attains_of_option some attains_bnd [OF attains_update(3) [OF H]] attains_ret, simp)
  qed
  show ?thesis
    unfolding SetDBId_def
    by (rule attains_bnd [OF attains_getConfigCM [OF H]], rule attains_of_option)
      (force simp: good_map_def set_annotation_def, erule (1) rest)
qed

lemma attains_GetSyncLeader:
  assumes H: "helpful (wx_env C) p"
  shows "attains (alike p) (\<lambda>_. True) (GetSyncLeader C)"
  unfolding GetSyncLeader_def
proof (intro attains_inst)
  fix q assume q: "alike p q"
  have "attains (alike p) (\<lambda>_. True) (case annotation cm syncCMLeaderAnnotation of None \<Rightarrow> fail ErrNoSyncLeader
     | Some leader \<Rightarrow> (case sscanf_int (last (split_on (CHR ''-'') leader)) of None \<Rightarrow> fail ScanError | Some index \<Rightarrow> ret index))"
    if "good_map (wx_env C) p (cmName q syncCMName) cm" for cm
    using that alikeD(4) [OF q] by (auto simp: good_map_def intro: attains_ret split: option.splits)
  then show "attains (alike p) (\<lambda>_. True) (if 1 < length (pp_volumes q) then
      bnd (kget (wx_env C) ConfigMapT (pp_namespace q) (cmName q syncCMName)) (\<lambda>cm.
       case annotation cm syncCMLeaderAnnotation of None \<Rightarrow> fail ErrNoSyncLeader
       | Some leader \<Rightarrow> (case sscanf_int (last (split_on (CHR ''-'') leader)) of None \<Rightarrow> fail ScanError | Some index \<Rightarrow> ret index))
     else ret 0)"
    by (simp add: attains_ret attains_bnd [OF attains_get(5) [OF H]])
qed

lemma attains_GetSecondaryStreamArgs:
  assumes H: "helpful (wx_env C) p" and "pp_state p = StateUpgradeSecondaries"
  shows "attains (alike p) (\<lambda>_. True) (GetSecondaryStreamArgs C)"
  unfolding GetSecondaryStreamArgs_def
  by (rule attains_bnd [OF attains_getConfigCM [OF H]])
    (use assms(2) in \<open>auto simp: good_map_def intro: attains_ret split: option.splits\<close>)

lemma attains_read_job_log:
  assumes H: "helpful (wx_env C) p"
  shows "attains J (\<lambda>buf. \<exists>b. good_log p b \<and> buf = take 2048 b) (read_job_log C job msg)"
proof -
  have pods: "attains J (\<lambda>pods. pods \<noteq> []) (list_pods (wx_env C) ns sel)" for ns sel
    unfolding list_pods_def
    by (rule attains_bnd [OF attains_ask_good [OF H]], assumption, rule attains_decode) (auto simp: good_answer_def)
  have logs: "attains J (\<lambda>buf. \<exists>b. good_log p b \<and> buf = take 2048 b)
      (bnd (decode_as (\<lambda>x. case x of KBytes b \<Rightarrow> Some b | _ \<Rightarrow> None) x) (\<lambda>logs.
         let buf = take 2048 logs in if buf = [] then fail (ErrText ''short read from pod logs'') else ret buf))"
    if "good_answer (wx_env C) p (RReadLogs ns n 1) x" for x ns n
    by (rule attains_bnd [OF attains_decode [where P = "good_log p"]])
      (use that in \<open>auto simp: good_answer_def good_log_def Let_def intro: attains_ret\<close>)
  show ?thesis
    unfolding read_job_log_def
  proof (rule attains_bnd [OF pods])
    fix pods :: "pod list" assume "pods \<noteq> []"
    then obtain pod more where "pods = pod # more" by (cases pods) auto
    then show "attains J (\<lambda>buf. \<exists>b. good_log p b \<and> buf = take 2048 b) (case pods of
       [] \<Rightarrow> fail (ErrText msg)
     | pod # _ \<Rightarrow> bnd (ask (wx_env C) (RReadLogs (pod_namespace pod) (pod_name pod) 1)) (\<lambda>x.
         bnd (decode_as (\<lambda>x. case x of KBytes b \<Rightarrow> Some b | _ \<Rightarrow> None) x) (\<lambda>logs.
         let buf = take 2048 logs in if buf = [] then fail (ErrText ''short read from pod logs'') else ret buf)))"
      by (simp only: list.case) (rule attains_bnd [OF attains_ask_good [OF H]], assumption, rule logs)
  qed
qed

lemma attains_results:
  assumes H: "helpful (wx_env C) p"
  shows "pp_state p = StateUpgradePreupgrade \<Longrightarrow> attains J (\<lambda>c. cfg_MaxPreparedTransactions c = 0) (getInitdbArgsFromJob C job)"
    "pp_state p = StateUpgradePrimary \<Longrightarrow> attains J (\<lambda>_. True) (getResultFromPrimaryUpgradeJob C job)"
  unfolding getInitdbArgsFromJob_def getResultFromPrimaryUpgradeJob_def
  by (rule attains_bnd [OF attains_read_job_log [OF H]],
    force simp: good_log_def intro: attains_ret split: option.splits)+

subsection \<open>Services and stateful sets\<close>

lemma service_patched:
  "apply_service_patches [] (main_service_fields p x) \<noteq> None"
  "apply_service_patches [withPostgresqlPort_Patch n, withPatroniAPI_Patch] (main_service_fields p x) \<noteq> None"
  by (simp_all add: main_service_fields_def withPostgresqlPort_Patch_def withPatroniAPI_Patch_def)

lemma attains_ReconcileService:
  assumes H: "helpful (wx_env C) p" and ps: "\<And>q x. apply_service_patches ps (main_service_fields q x) \<noteq> None"
  shows "attains J (\<lambda>_. True) (ReconcileService C ps)"
  unfolding ReconcileService_def Let_def create_or_update_def
  by (intro attains_inst attains_bnd [OF attains_found [OF attains_get(3) [OF H]]] attains_bnd [OF attains_set_meta [OF H]]
      attains_of_option ps attains_bnd [OF attains_found [OF attains_get(4) [OF H]]])
    (auto intro!: attains_bnd [OF attains_set_meta [OF H]] attains_of_option ps attains_bnd [OF attains_update(2) [OF H]]
      attains_bnd [OF attains_found [OF attains_get(4) [OF H]]] attains_ret)

lemma sts_fields_patched:
  "apply_sts_patches [] (sts_fields C p x) \<noteq> None"
  "apply_sts_patches [sts_withPostgresqlPort_Patch n, withPausedPatroni_Patch] (sts_fields C p x) \<noteq> None"
  "apply_sts_patches [] (sts_fields C p x) = Some y \<Longrightarrow> on_first_container f y \<noteq> None"
  "apply_sts_patches [sts_withPostgresqlPort_Patch n, withPausedPatroni_Patch] (sts_fields C p x) = Some y \<Longrightarrow>
     on_first_container f y \<noteq> None"
  by (auto simp: sts_fields_def sts_pod_template_def sts_withPostgresqlPort_Patch_def withPausedPatroni_Patch_def
      on_first_container_def set_containers_def)

lemma alike_refl [simp]: "alike p p"
  by (simp add: alike_def)

lemma alike_ready: "alike p q \<Longrightarrow> alike p (upd_status (\<lambda>st. st\<lparr>st_ready := n\<rparr>) q)"
  by (simp add: alike_def identity_def)

lemma attains_ready: "attains (alike p) (\<lambda>_. True) (set_status (\<lambda>st. st\<lparr>st_ready := n\<rparr>))"
  by (rule attains_set_status) (rule alike_ready)

lemma attains_found_sts:
  "helpful (wx_env C) p \<Longrightarrow> attains J (\<lambda>r. \<exists>x. r = Some x \<and> True) (found (GetK8SStatefulSet C))"
  unfolding GetK8SStatefulSet_def by (rule attains_found, intro attains_inst attains_get(2))

lemma attains_ReconcileSts:
  assumes H: "helpful (wx_env C) p"
    and ps: "\<And>q x. apply_sts_patches ps (sts_fields C q x) \<noteq> None"
      "\<And>q x y f. apply_sts_patches ps (sts_fields C q x) = Some y \<Longrightarrow> on_first_container f y \<noteq> None"
  shows "attains (alike p) (scaled p) (ReconcileSts C ps)"
proof -
  have put: "attains (alike p) (scaled p) (bnd (attempt (create_or_update (wx_env C) StatefulSetT False x)) (\<lambda>w.
      let s' = (case w of Inr s' \<Rightarrow> s' | Inl _ \<Rightarrow> x) in
      bnd (set_status (\<lambda>st. st\<lparr>st_ready := sts_ready s'\<rparr>)) (\<lambda>_. case w of Inl e \<Rightarrow> fail e | Inr _ \<Rightarrow> ret s')))" for x
    unfolding create_or_update_def
    by simp (rule attains_bnd [OF attains_attempt [OF attains_update(1) [OF H]]], elim exE conjE,
      simp add: Let_def, rule attains_bnd [OF attains_ready], rule attains_ret)
  show ?thesis
    unfolding ReconcileSts_def
  proof (intro attains_inst, rule attains_bnd [OF attains_found_sts [OF H]], elim exE conjE)
    fix q r x assume "r = Some (x :: statefulset)"
    then show "attains (alike p) (scaled p) (let create = (r = None);
        s = (case r of None \<Rightarrow> new_statefulset (pp_name q) | Some s \<Rightarrow> s) in
     bnd (set_meta_of C StatefulSetT s) (\<lambda>s.
     let s = (if create then s\<lparr>sts_spec := initial_sts_spec q\<rparr> else s) in
     bnd (of_option (apply_sts_patches ps (sts_fields C q s))) (\<lambda>s.
     bnd (of_option (on_first_container (add_envs (genNodeTagsEnvs q)) s)) (\<lambda>s.
     let s = add_extra_containers q s in
     bnd (attempt (create_or_update (wx_env C) StatefulSetT create s)) (\<lambda>w.
     let s' = (case w of Inr s' \<Rightarrow> s' | Inl _ \<Rightarrow> s) in
     bnd (set_status (\<lambda>st. st\<lparr>st_ready := sts_ready s'\<rparr>)) (\<lambda>_.
     case w of Inl e \<Rightarrow> fail e | Inr _ \<Rightarrow> ret s'))))))"
      using put by (simp add: Let_def) (intro attains_bnd [OF attains_set_meta [OF H]] attains_of_option ps; blast intro: ps)
  qed
qed

subsection \<open>The steps\<close>

text \<open>
  Every step is done in one run if the cluster has done its part; the state it depends on is the
  one the instance had when the run began.
\<close>

lemma attains_preupgrade:
  assumes H: "helpful (wx_env C) p" and st: "pp_state p = StateUpgradePreupgrade"
  shows "attains (alike p) (\<lambda>d. d) (preupgrade_handle C)"
  unfolding preupgrade_handle_def
proof (rule attains_bnd [OF attains_ensure [OF H]])
  fix job assume job: "good_job job"
  have read: "attains (alike p) (\<lambda>r. r = (True, None)) (bnd (getInitdbArgsFromJob C job) (\<lambda>cfg.
      if cfg_MaxPreparedTransactions cfg \<noteq> 0 then ret (False, Some ErrMaxPreparedTransactionsNotZero)
      else bnd (SetPrimaryInitdbArgs C (parseConfigToInitdbArgs cfg)) (\<lambda>_. ret (True, None))))"
    by (rule attains_bnd [OF attains_results(1) [OF H st]]) (simp add: attains_bnd [OF attains_notes(1) [OF H]] attains_ret)
  from job show "attains (alike p) (\<lambda>d. d) (bnd (if int32_pos (job_succeeded job) then
            bnd (getInitdbArgsFromJob C job) (\<lambda>cfg.
            if cfg_MaxPreparedTransactions cfg \<noteq> 0
            then ret (False, Some ErrMaxPreparedTransactionsNotZero)
            else bnd (SetPrimaryInitdbArgs C (parseConfigToInitdbArgs cfg)) (\<lambda>_. ret (True, None)))
          else ret (False, None)) (\<lambda>(done, err2).
     bnd (cleanupJob C job) (\<lambda>_.
     if int32_pos (job_failed job) then fail ErrPreupgradeJobFailed
     else case err2 of Some e \<Rightarrow> fail e | None \<Rightarrow> ret done)))"
    by (simp add: good_job_def) (rule attains_bnd [OF read], simp add: attains_bnd [OF attains_cleanup [OF H]] attains_ret)
qed

lemma attains_scaledown:
  assumes H: "helpful (wx_env C) p" and st: "pp_state p \<in> {StateUpgradePreupgradeScaleDown, StateUpgradeScaleDown}"
  shows "attains (alike p) (\<lambda>d. d) (scaledown_handle C)"
  unfolding scaledown_handle_def GetK8SStatefulSet_def bnd_assoc
  by (intro attains_inst attains_bnd [OF attains_get(2) [OF H]] attains_bnd [OF attains_update(1) [OF H]] attains_bnd [OF attains_ready])
    (use st in \<open>auto simp: scaled_def intro!: attains_ret\<close>)

lemma attains_sync:
  assumes H: "helpful (wx_env C) p"
  shows "attains (alike p) (\<lambda>d. d) (preupgradeSync_handle C)"
  unfolding preupgradeSync_handle_def settle_def [symmetric]
  by (intro attains_inst) (auto intro!: attains_ret attains_bnd [OF attains_ReconcileSts [OF H sts_fields_patched(2,4)]]
    attains_bnd [OF attains_ReconcileService [OF H service_patched(2)]] attains_bnd [OF attains_ensure [OF H]] attains_settle [OF H])

lemma attains_primary:
  assumes H: "helpful (wx_env C) p" and st: "pp_state p = StateUpgradePrimary"
  shows "attains (alike p) (\<lambda>d. d) (primary_handle C)"
proof -
  have noted: "attains (alike p) (\<lambda>_. True) (record_primary_result C r)" for r
    unfolding record_primary_result_def
    by (intro attains_bnd [OF attains_when [OF attains_notes(2) [OF H]]] attains_SetDBId [OF H])
  show ?thesis
    unfolding primary_handle_def settle_def [symmetric]
    by (intro attains_inst, rule attains_bnd [OF attains_found_job [OF H]])
      (auto intro!: attains_bnd [OF attains_when [OF attains_bnd [OF attains_results(2) [OF H st] noted]]] attains_settle [OF H])
qed

lemma attains_move:
  assumes H: "helpful (wx_env C) p"
  shows "attains (alike p) (\<lambda>d. d) (move_handle C)"
proof -
  have put: "attains (alike p) (\<lambda>_. True) (set_status (\<lambda>st. st\<lparr>st_version := st_upgrade_version st\<rparr>))"
    by (rule attains_set_status) (simp add: alike_def identity_def)
  show ?thesis
    unfolding move_handle_def settle_def [symmetric]
    by (intro attains_inst, rule attains_bnd [OF attains_found_job [OF H]])
      (auto intro!: attains_bnd [OF attains_when [OF put]] attains_settle [OF H])
qed

lemma attains_postupgrade:
  assumes H: "helpful (wx_env C) p" and st: "pp_state p = StateUpgradePostupgrade"
  shows "attains (alike p) (\<lambda>d. d) (postupgrade_handle C)"
  unfolding postupgrade_handle_def service_Reconcile_def settle_def [symmetric]
  by (intro attains_bnd [OF attains_ReconcileSts [OF H sts_fields_patched(1,3)]]
      attains_bnd [OF attains_ReconcileService [OF H service_patched(1)]] attains_inst)
    (use st in \<open>auto simp: scaled_def alikeD intro!: attains_bnd [OF attains_ensure [OF H]] attains_settle [OF H]\<close>)

lemma attains_streamer:
  assumes H: "helpful (wx_env C) p"
  shows "attains J (\<lambda>_. True) (upgradeSecondariesEnsurestreamer C leader)"
proof -
  have service: "attains J (\<lambda>_. True) (bnd (found (kget (wx_env C) ServiceT ns n)) (\<lambda>r. case r of
      Some _ \<Rightarrow> ret sts | None \<Rightarrow> m))" for ns n sts and m :: "statefulset kop"
    by (rule attains_bnd [OF attains_found [OF attains_get(3) [OF H]]]) (auto intro: attains_ret)
  have got: "attains J (\<lambda>_. True) (bnd (case r of Some x \<Rightarrow> ret x | None \<Rightarrow> m') f)"
    if "\<exists>x. r = Some x \<and> True" "\<And>x. attains J (\<lambda>_. True) (f x)" for r :: "statefulset option" and m' and f :: "statefulset \<Rightarrow> statefulset kop"
    using that by (auto intro: attains_bnd [where Q = "\<lambda>_. True"] attains_ret)
  show ?thesis
    unfolding upgradeSecondariesEnsurestreamer_def Let_def
    by (intro attains_inst, rule attains_bnd [OF attains_found [OF attains_get(2) [OF H]]], erule got, rule service)
qed

lemma attains_seclients:
  assumes H: "helpful (wx_env C) p" and st: "pp_state p = StateUpgradeSecondaries"
  shows "attains (alike p) (\<lambda>jobs. list_all good_job jobs) (upgradeSecondariesEnsureseclients C leader sts)"
proof -
  have job: "attains (alike p) good_job (ensure_secondary_job C sts loc newid iv)" for loc newid iv
    unfolding ensure_secondary_job_def
    by (intro attains_inst, cases iv, simp, rule attains_bnd [OF attains_found_job [OF H]]) (auto intro: attains_ret)
  have step: "attains (alike p) (\<lambda>jobs. list_all good_job jobs) (if int (fst iv) = leader then ret jobs
      else bnd (ensure_secondary_job C sts loc newid iv) (\<lambda>job. ret (jobs @ [job])))"
    if "list_all good_job jobs" for loc newid iv jobs
    using that by (auto intro!: attains_ret attains_bnd [OF job])
  have loop: "attains (alike p) (\<lambda>jobs. list_all good_job jobs) (for_acc ivs [] (\<lambda>iv jobs. if int (fst iv) = leader then ret jobs
      else bnd (ensure_secondary_job C sts loc newid iv) (\<lambda>job. ret (jobs @ [job]))))" for ivs loc newid
    using attains_for_acc [where P = "\<lambda>_ jobs. list_all good_job jobs" and xs = ivs and a = "[]"] step by simp
  show ?thesis
    unfolding upgradeSecondariesEnsureseclients_def
    by (rule attains_bnd [OF attains_GetSecondaryStreamArgs [OF H st]]) (auto intro!: attains_inst loop)
qed

lemma attains_count:
  assumes "list_all good_job jobs"
  shows "attains J (\<lambda>sf. sf = (length jobs, 0)) (for_acc jobs (0, 0) (count_secondary C))"
  using attains_for_acc [where P = "\<lambda>i sf. sf = (i, 0)" and xs = jobs and a = "(0, 0)" and f = "count_secondary C" and J = J] assms
  by (simp add: count_secondary_def good_job_def list_all_length attains_ret)

lemma attains_secondary:
  assumes H: "helpful (wx_env C) p" and st: "pp_state p = StateUpgradeSecondaries"
  shows "attains (alike p) (\<lambda>d. d) (secondary_handle C)"
  unfolding secondary_handle_def
proof (intro attains_inst)
  fix q assume "alike p q"
  have "attains (alike p) (\<lambda>d. d) (bnd (for_acc jobs (0, 0) (count_secondary C)) (\<lambda>(succeeded, failed).
       if failed > 0 then fail ErrSecondaryUpgradeJobFailed
       else if succeeded = length jobs then
         bnd (kdelete (wx_env C) StatefulSetT sts Background) (\<lambda>_.
         bnd (for_each jobs (\<lambda>job. kdelete (wx_env C) JobT job Background)) (\<lambda>_. ret True))
       else ret False))" if "list_all good_job jobs" for jobs sts
    by (rule attains_bnd [OF attains_count [OF that]])
      (auto intro!: attains_bnd [OF attains_delete [OF H]] attains_bnd [OF attains_for_each [OF attains_delete [OF H]]] attains_ret)
  note rest = attains_bnd [OF attains_GetSyncLeader [OF H] attains_bnd [OF attains_streamer [OF H] attains_bnd [OF attains_seclients [OF H st] this]]]
  show "attains (alike p) (\<lambda>d. d) (if length (pp_volumes q) = 1 then ret True
     else
       bnd (GetSyncLeader C) (\<lambda>leader.
       bnd (upgradeSecondariesEnsurestreamer C leader) (\<lambda>sts.
       bnd (upgradeSecondariesEnsureseclients C leader sts) (\<lambda>jobs.
       bnd (for_acc jobs (0, 0) (count_secondary C)) (\<lambda>(succeeded, failed).
       if failed > 0 then fail ErrSecondaryUpgradeJobFailed
       else if succeeded = length jobs then
         bnd (kdelete (wx_env C) StatefulSetT sts Background) (\<lambda>_.
         bnd (for_each jobs (\<lambda>job. kdelete (wx_env C) JobT job Background)) (\<lambda>_.
         ret True))
       else ret False)))))"
    by (simp only: if_split) (auto intro: attains_ret rest)
qed

lemma attains_handler:
  assumes "helpful (wx_env C) p" and "pp_state p = handler_name h"
  shows "attains (alike p) (\<lambda>d. d) (handler_handle h C)"
  using assms by (cases h) (simp_all add: attains_preupgrade preupgradeScaledown_handle_def attains_scaledown attains_sync
    attains_primary attains_secondary attains_move attains_postupgrade)

lemma Handle_helped:
  assumes "helpful (wx_env C) (ks_inst s)"
  shows "\<exists>t. Handle C s = (Ok True, t)"
proof (cases "upgrademap (pp_state (ks_inst s))")
  case None
  then show ?thesis by (simp add: Handle_def bnd_run inst_run set_status_run ret_run)
next
  case (Some step)
  let ?p = "ks_inst s"
  have "pp_state ?p = handler_name (us_handler step)"
    using Some by (cases "pp_state ?p") (auto simp: upgrademap_def upgrade_handlers_def)
  from attains_handler [OF assms this] obtain t where t: "handler_handle (us_handler step) C s = (Ok True, t)" "alike ?p (ks_inst t)"
    unfolding attains_def by force
  have put: "attains (alike ?p) (\<lambda>_. True) (set_status (\<lambda>st. st\<lparr>st_state := StateReady, st_upgrade_version := 0\<rparr>))"
    by (rule attains_set_status) (simp add: alike_def identity_def)
  have clear: "attains (alike ?p) (\<lambda>_. True) (bnd (set_status (\<lambda>st. st\<lparr>st_state := StateReady, st_upgrade_version := 0\<rparr>))
      (\<lambda>_. ClearUpgradeAnnotations C))"
    by (rule attains_bnd [OF put attains_notes(3) [OF assms]])
  with t Some show ?thesis
    by (cases "us_next step") (auto simp: Handle_def bnd_run inst_run set_status_run ret_run attains_def)
qed

subsection \<open>A helped reconcile takes the upgrade one stage further\<close>

lemma store_foreign: "list_all (\<lambda>ev. foreign (fst ev)) es \<Longrightarrow> foldl store st es = st"
proof (induction es)
  case (Cons ev es)
  then have "store st ev = st"
    by (cases ev; cases "fst ev") (auto simp: foreign_def store_def)
  with Cons show ?case by simp
qed simp

lemma server_ok_foreign: "list_all (\<lambda>ev. foreign (fst ev)) es \<Longrightarrow> server_ok st es"
proof (induction es)
  case (Cons ev es)
  then have "answer_ok st ev" "store st ev = st"
    by (cases ev; cases "fst ev"; auto simp: foreign_def answer_ok_def store_def split: kind.splits sum.splits)+
  with Cons show ?case by simp
qed simp

lemma helpful_answer: "helpful E p \<Longrightarrow> \<exists>x. ke_api E h q = Inr x \<and> good_answer E p q x"
  by (simp add: helpful_def)

lemma helpful_get: "helpful E p \<Longrightarrow> ke_api E h (RGet PatroniKind ns n into) = Inr (KPatroni p)"
  by (drule helpful_answer [where q = "RGet PatroniKind ns n into" and h = h]) (auto simp: good_answer_def)

lemma Reconcile_first:
  assumes run: "Reconcile E ns n s = (r, t)"
    and got: "ke_api E (ks_hist s) (RGet PatroniKind ns n None) = Inr (KPatroni p)"
  shows "\<exists>es. ks_hist t = ks_hist s @ (RGet PatroniKind ns n None, Inr (KPatroni p)) # es"
proof -
  let ?rest = "bnd (set_inst p) (\<lambda>_. if spec_ignore (pp_spec_of p) then ret False
     else bnd (initialize E) (\<lambda>_. bnd inst (\<lambda>p. bnd (of_sum (New E p)) (\<lambda>C.
       deferred_update E (reconcile_body C)))))"
  have body: "keeps (asks (\<lambda>_. True)) (reconcile_body C)" for C
    by (rule asks_mono [OF reconcile_body_asks]) simp
  have set: "keeps (asks (\<lambda>_. True)) (set_inst q)" for q
    by (simp add: set_inst_def keeps_def asks_def modify_def)
  have "keeps (asks (\<lambda>_. True)) ?rest"
    unfolding initialize_def by (intro eff_intro set status_update_asks deferred_update_asks body; simp)
  moreover have "?rest (s\<lparr>ks_hist := ks_hist s @ [(RGet PatroniKind ns n None, Inr (KPatroni p))]\<rparr>) = (r, t)"
    using run got by (simp add: Reconcile_def get_instance_def found_def attempt_run bnd_run ask_run
        decode_as_def unwrap_patroni_def ret_run)
  ultimately show ?thesis by (auto dest: keeps_asks_hist)
qed

lemma Reconcile_helped:
  assumes H: "helpful E p" and p: "\<not> spec_ignore (pp_spec_of p)" "pp_state p \<noteq> StateUnset"
      "GetImage (pp_version p) = Some im" "pp_upgrade_version p \<noteq> 0"
    and run: "Reconcile E ns n s = (r, t)"
  obtains fs u y where "ks_hist t = ks_hist s @ (RGet PatroniKind ns n None, Inr (KPatroni p)) # fs @
      [(RStatusUpdate u, Inr (KPatroni y))]" "list_all (\<lambda>ev. foreign (fst ev)) fs"
    "proto_of u = advance (proto_of p)" "ke_api E (ks_hist s @ (RGet PatroniKind ns n None, Inr (KPatroni p)) # fs)
      (RStatusUpdate u) = Inr (KPatroni y)"
proof -
  let ?C = "\<lparr>wx_env = E, wx_image = im\<rparr>"
  let ?g = "(RGet PatroniKind ns n None, Inr (KPatroni p))"
  let ?s = "s\<lparr>ks_inst := p, ks_hist := ks_hist s @ [?g]\<rparr>"
  have answers: "\<exists>x. ke_api E h q = Inr x \<and> good_answer E p q x" for h q
    using H by (simp add: helpful_def)
  from run reconcile_starts [OF helpful_get [OF H] p(1-3)] have body: "deferred_update E (reconcile_body ?C) ?s = (r, t)"
    by simp
  obtain u where u: "Handle ?C ?s = (Ok True, u)"
    using Handle_helped [of ?C ?s] H by auto
  then have inner: "reconcile_body ?C ?s = (Ok True, u)"
    using p(4) by (simp add: reconcile_body_def bnd_run inst_run)
  obtain fs where fs: "ks_hist u = ks_hist ?s @ fs" "list_all (\<lambda>ev. foreign (fst ev)) fs"
    using keeps_asks_hist [OF reconcile_body_asks inner] by auto
  have moved: "proto_of (ks_inst u) = advance (proto_of p)"
  proof -
    have "core (ks_inst u) = core (put_proto (advance (proto_of p)) p)"
      using Handle_step [OF u] by simp
    from core_proto [OF this] show ?thesis by (simp add: proto_of_put)
  qed
  obtain y where y: "ke_api E (ks_hist u) (RStatusUpdate (ks_inst u)) = Inr (KPatroni y)"
    using answers [of "ks_hist u" "RStatusUpdate (ks_inst u)"] by (auto simp: good_answer_def)
  from body inner y have "ks_hist t = ks_hist u @ [(RStatusUpdate (ks_inst u), Inr (KPatroni y))]"
    by (auto simp: deferred_update_def status_update_def unwrap_patroni_def set_inst_def run_simps)
  with that [of fs "ks_inst u" y] fs moved y show ?thesis by simp
qed

subsection \<open>Enough helped reconciles finish the upgrade\<close>

text \<open>How many stages an upgrade that has reached a state still has to complete.\<close>

fun stages_left :: "pg_state \<Rightarrow> nat" where
  "stages_left StateUpgradePostupgrade = 1"
| "stages_left StateUpgradePrimaryMove = 2"
| "stages_left StateUpgradeSecondaries = 3"
| "stages_left StateUpgradePrimary = 4"
| "stages_left StateUpgradeScaleDown = 5"
| "stages_left StateUpgradePreupgradeSync = 6"
| "stages_left StateUpgradePreupgradeScaleDown = 7"
| "stages_left StateUpgradePreupgrade = 8"
| "stages_left _ = 9"

definition underway :: "int \<Rightarrow> proto \<Rightarrow> bool" where
  "underway v a \<longleftrightarrow> proto_inv a \<and> pr_target a = v \<and> v \<noteq> 0"

definition completed :: "int \<Rightarrow> proto \<Rightarrow> bool" where
  "completed v a \<longleftrightarrow> pr_state a = StateReady \<and> pr_version a = v \<and> pr_target a = 0"

lemma stages_left_pos: "0 < stages_left st"
  by (cases st) simp_all

lemma underway_advance:
  assumes "underway v a"
  shows "completed v (advance a) \<or>
    underway v (advance a) \<and> Suc (stages_left (pr_state (advance a))) = stages_left (pr_state a)"
proof -
  have inv: "proto_inv a" "pr_target a = v" "v \<noteq> 0" using assms by (simp_all add: underway_def)
  then have "proto_inv (advance a)" by (simp add: inv_advance)
  moreover have "pr_state a = StateReady \<or> in_upgrade (pr_state a)"
    "pr_state a = StateUpgradePostupgrade \<longrightarrow> pr_version a = v"
    using inv by (auto simp: proto_inv_def split: if_splits)
  ultimately show ?thesis
    using inv by (cases "pr_state a") (auto simp: advance_def underway_def completed_def in_upgrade_def)
qed

lemma underway_step:
  assumes "protocol_step w a b" and "underway v a"
  shows "completed v b \<or> underway v b \<and> stages_left (pr_state b) \<le> stages_left (pr_state a)"
  using assms(1)
proof cases
  case progress
  with underway_advance [OF assms(2)] show ?thesis by auto
next
  case init
  with assms(2) show ?thesis by (auto simp: underway_def proto_inv_def proto_new_def)
qed (use assms(2) in \<open>auto simp: underway_def\<close>)

lemma stored_state: "pr_state (proto_status st) = st_state st"
  by (simp add: proto_status_def)

text \<open>
  Either some prefix of the events has completed the upgrade, or it is underway still and has
  lost no ground.
\<close>

definition done_within :: "int \<Rightarrow> pp_status \<Rightarrow> event list \<Rightarrow> bool" where
  "done_within v st h \<longleftrightarrow> (\<exists>h1 h2. h = h1 @ h2 \<and> completed v (proto_status (foldl store st h1)))"

lemma done_within_append: "done_within v st h \<or> done_within v (foldl store st h) es \<Longrightarrow> done_within v st (h @ es)"
  unfolding done_within_def by (metis append.assoc foldl_append)

lemma underway_events:
  assumes "updates_ok cur es" and "server_ok st es" and "in_step cur st" and "underway v (proto_status st)"
  shows "done_within v st es \<or> underway v (proto_status (foldl store st es)) \<and>
    stages_left (st_state (foldl store st es)) \<le> stages_left (st_state st)"
  using assms
proof (induction es arbitrary: cur st)
  case (Cons ev es)
  from Cons.prems have ev: "update_ok cur (fst ev)" "answer_ok st ev" "in_step cur st" by simp_all
  have "completed v (proto_status (store st ev)) \<or> underway v (proto_status (store st ev)) \<and>
      stages_left (st_state (store st ev)) \<le> stages_left (st_state st)"
    using event_step(2) [OF ev]
  proof
    assume "\<exists>w. protocol_step w (proto_status st) (proto_status (store st ev))"
    then obtain w where "protocol_step w (proto_status st) (proto_status (store st ev))" ..
    from underway_step [OF this Cons.prems(4)] show ?thesis by (simp add: stored_state)
  qed (use Cons.prems(4) in simp)
  then consider "completed v (proto_status (store st ev))"
    | "underway v (proto_status (store st ev))" "stages_left (st_state (store st ev)) \<le> stages_left (st_state st)"
    by blast
  then show ?case
  proof cases
    case 1
    then have "done_within v st [ev]"
      unfolding done_within_def by (intro exI [of _ "[ev]"] exI [of _ "[]"]) simp
    then show ?thesis using done_within_append [of v st "[ev]" es] by simp
  next
    case 2
    with Cons.IH [of "seen cur ev" "store st ev"] Cons.prems event_step(1) [OF ev]
      done_within_append [of v st "[ev]" es]
    show ?thesis by auto
  qed
qed (simp add: done_within_def)

text \<open>
  The operator's life from some moment on, with the number of reconciles that met a cluster
  which has done its part for the instance as the server returned it.
\<close>

inductive helped_history :: "nat \<Rightarrow> event list \<Rightarrow> bool" where
  start: "helped_history 0 []"
| other: "helped_history k h \<Longrightarrow> Reconcile E ns n \<lparr>ks_inst = q, ks_hist = h\<rparr> = (r, t) \<Longrightarrow>
    helped_history k (ks_hist t)"
| helped: "helped_history k h \<Longrightarrow> helpful E p \<Longrightarrow> \<not> spec_ignore (pp_spec_of p) \<Longrightarrow>
    Reconcile E ns n \<lparr>ks_inst = q, ks_hist = h\<rparr> = (r, t) \<Longrightarrow> helped_history (Suc k) (ks_hist t)"

lemma underway_instance:
  assumes "underway v (proto_of p)"
  shows "pp_state p \<noteq> StateUnset" "pp_upgrade_version p \<noteq> 0" "\<exists>im. GetImage (pp_version p) = Some im"
  using assms by (auto simp: underway_def proto_inv_def proto_status_def proto_new_def supported_def)

lemma helped_moves:
  assumes "helpful E p" "\<not> spec_ignore (pp_spec_of p)" "Reconcile E ns n s = (r, t)"
    and "ks_hist t = ks_hist s @ es" "server_ok st es" "underway v (proto_status st)"
  shows "proto_status (foldl store st es) = advance (proto_status st)"
proof -
  have x: "ke_api E (ks_hist s) (RGet PatroniKind ns n None) = Inr (KPatroni p)"
    by (rule helpful_get [OF assms(1)])
  obtain es' where es': "es = (RGet PatroniKind ns n None, Inr (KPatroni p)) # es'"
    using Reconcile_first [OF assms(3) x] assms(4) by auto
  then have same: "pp_status_of p = st" using assms(5) by (simp add: answer_ok_def)
  with assms(6) have "underway v (proto_of p)" by simp
  note inst = underway_instance [OF this]
  obtain im where im: "GetImage (pp_version p) = Some im" using inst(3) by blast
  show ?thesis
  proof (rule Reconcile_helped [OF assms(1,2) inst(1) im inst(2) assms(3)])
    fix fs u y
    assume "ks_hist t = ks_hist s @ (RGet PatroniKind ns n None, Inr (KPatroni p)) # fs @
        [(RStatusUpdate u, Inr (KPatroni y))]"
      and run: "list_all (\<lambda>ev. foreign (fst ev)) fs" "proto_of u = advance (proto_of p)"
    with assms(4) have "es = (RGet PatroniKind ns n None, Inr (KPatroni p)) # fs @ [(RStatusUpdate u, Inr (KPatroni y))]"
      by simp
    moreover have "store st (RGet PatroniKind ns n None, Inr (KPatroni p)) = st" by (simp add: store_def)
    ultimately show ?thesis using run same by (simp add: store_foreign) (simp add: store_def)
  qed
qed

lemma helped_progress:
  assumes "helped_history k h" and "server_ok st h" and "underway v (proto_status st)"
  shows "done_within v st h \<or> underway v (proto_status (foldl store st h)) \<and>
    stages_left (st_state (foldl store st h)) + k \<le> stages_left (st_state st)"
  using assms
proof (induction rule: helped_history.induct)
  case start
  then show ?case by simp
next
  case (other k h E ns n q r t)
  obtain es where es: "ks_hist t = h @ es" "updates_ok None es"
    using Reconcile_tracked [OF other.hyps(2)] by (auto simp: tracked_def)
  let ?st = "foldl store st h"
  have ok: "server_ok st h" "server_ok ?st es" using other.prems(1) by (simp_all add: es(1) server_ok_append)
  from other.IH [OF ok(1) other.prems(2)] show ?case
  proof (elim disjE conjE)
    assume "underway v (proto_status ?st)" and "stages_left (st_state ?st) + k \<le> stages_left (st_state st)"
    with underway_events [OF es(2) ok(2) _ this(1)] done_within_append [of v st h es] show ?thesis
      by (auto simp: es(1) in_step_def)
  qed (simp add: es(1) done_within_append)
next
  case (helped k h E p ns n q r t)
  obtain es where es: "ks_hist t = h @ es" "updates_ok None es"
    using Reconcile_tracked [OF helped.hyps(4)] by (auto simp: tracked_def)
  let ?st = "foldl store st h" and ?st' = "foldl store (foldl store st h) es"
  have ok: "server_ok st h" "server_ok ?st es" using helped.prems(1) by (simp_all add: es(1) server_ok_append)
  from helped.IH [OF ok(1) helped.prems(2)] show ?case
  proof (elim disjE conjE)
    assume now: "underway v (proto_status ?st)" and left: "stages_left (st_state ?st) + k \<le> stages_left (st_state st)"
    have "proto_status ?st' = advance (proto_status ?st)"
      by (rule helped_moves [OF helped.hyps(2-4) _ ok(2) now]) (simp add: es(1))
    with underway_advance [OF now] consider "completed v (proto_status ?st')"
      | "underway v (proto_status ?st')" "Suc (stages_left (st_state ?st')) = stages_left (st_state ?st)"
      by (auto simp: stored_state [symmetric])
    then show ?thesis
    proof cases
      case 1
      then have "done_within v st (h @ es)"
        unfolding done_within_def by (intro exI [of _ "h @ es"] exI [of _ "[]"]) simp
      then show ?thesis by (simp add: es(1))
    qed (use left in \<open>simp add: es(1)\<close>)
  qed (simp add: es(1) done_within_append)
qed

text \<open>
  C4. Upgrades complete. Whatever reconciles fail, wait or find the operator restarted in
  between, and whatever version the user asks for meanwhile: once as many reconciles as the
  upgrade has stages left have met a cluster that has done its part, the upgrade has ended, on the
  version it was started for, with the cluster ready.
\<close>

theorem upgrade_completes:
  assumes "helped_history k h" and "server_ok st h"
    and "proto_inv (proto_status st)" and "st_upgrade_version st \<noteq> 0"
    and "stages_left (st_state st) \<le> k"
  shows "\<exists>h1 h2. h = h1 @ h2 \<and> (let st' = foldl store st h1 in st_state st' = StateReady \<and>
    st_version st' = st_upgrade_version st \<and> st_upgrade_version st' = 0)"
proof -
  have "underway (st_upgrade_version st) (proto_status st)"
    using assms(3,4) by (simp add: underway_def proto_status_def)
  from helped_progress [OF assms(1,2) this] assms(5) stages_left_pos
  have "done_within (st_upgrade_version st) st h"
    by (metis add_leD1 add_le_same_cancel2 le_trans not_le)
  then show ?thesis by (simp add: done_within_def completed_def proto_status_def Let_def)
qed

text \<open>A server that does its part for the sample instance at every stage, and nine runs against it.\<close>

definition helping_map :: "string \<Rightarrow> config_map" where
  "helping_map n = (new_config_map n)\<lparr>cm_meta := (new_meta n)\<lparr>m_annotations := Some
     [(configCMconfigAnnotation, ''{}''), (configCMdbidAnnotation, ''7''),
      (configCMLatestCheckpointLocation, ''0/1''), (syncCMLeaderAnnotation, ''db-0'')]\<rparr>\<rparr>"

definition helping_job :: "string \<Rightarrow> job" where
  "helping_job n = (new_job n \<lparr>js_deadline = None, js_completions = None, js_selector = None,
     js_template = zero_pod_template\<rparr>)\<lparr>job_succeeded := 1\<rparr>"

definition helping :: "patroni \<Rightarrow> event list \<Rightarrow> request \<Rightarrow> error + kobj" where
  "helping p h q = Inr (case q of
       RGet k _ n _ \<Rightarrow> (if k = ServiceKind then KService (new_service n)
         else if k = StatefulSetKind then KStatefulSet (new_statefulset n)
         else if k = ConfigMapKind then KConfigMap (helping_map n)
         else if k = JobKind then KJob (helping_job n) else KPatroni p)
     | RUpdate (KStatefulSet y) \<Rightarrow> KStatefulSet (y\<lparr>sts_ready := 2, sts_available := 0\<rparr>)
     | RUpdate x \<Rightarrow> x
     | RListPods _ _ \<Rightarrow> KPodList [\<lparr>pod_namespace = ''ns'', pod_name = ''pod''\<rparr>]
     | RReadLogs _ _ _ \<Rightarrow> KBytes ''{}''
     | RStatusUpdate p' \<Rightarrow> KPatroni p'
     | _ \<Rightarrow> KBytes [])"

lemma helping_texts:
  "resume_config (\<lambda>_. None) ''{}'' \<noteq> None"
  "(case unmarshal_config ''{}'' of None \<Rightarrow> False | Some c \<Rightarrow> cfg_MaxPreparedTransactions c = 0)"
  "unmarshal_struct result_fields \<lparr>OldLatestCheckpointLocation = [], NewDatabaseSystemIdentifier = []\<rparr> ''{}'' \<noteq> None"
  "sscanf_int (last (split_on (CHR ''-'') ''db-0'')) \<noteq> None"
  by code_simp+

lemma helping_helpful: "helpful (sample_env (helping (sample v st))) (sample v st)"
proof -
  let ?E = "sample_env (helping (sample v st))"
  have map: "good_map ?E (sample v st) n (helping_map m)" for n m
    using helping_texts by (simp add: good_map_def helping_map_def annotation_def cm_keys sample_env_def)
  have nodes: "length (pp_nodes (sample v st)) = 2" by (simp add: sample_defs)
  have log: "good_log (sample v st) ''{}''"
    using helping_texts by (simp add: good_log_def)
  have "good_answer ?E (sample v st) q (case helping (sample v st) h q of Inr x \<Rightarrow> x)" for h q
    by (cases q) (auto simp: good_answer_def helping_def map log scaled_def helping_job_def new_job_def nodes
        split: kobj.splits)
  then show ?thesis
    unfolding helpful_def by (simp add: sample_env_def helping_def)
qed

fun helped_run :: "nat \<Rightarrow> pp_status \<Rightarrow> event list" where
  "helped_run 0 st = []"
| "helped_run (Suc k) st = (let h = helped_run k st; p = sample 15 (foldl store st h) in
     ks_hist (snd (Reconcile (sample_env (helping p)) ''ns'' ''db'' \<lparr>ks_inst = p, ks_hist = h\<rparr>)))"

lemma advance_iterated:
  assumes "underway v a" and "k < stages_left (pr_state a)"
  shows "underway v ((advance ^^ k) a) \<and> stages_left (pr_state ((advance ^^ k) a)) + k = stages_left (pr_state a)"
  using assms(2)
proof (induction k)
  case (Suc k)
  then have now: "underway v ((advance ^^ k) a)"
    "stages_left (pr_state ((advance ^^ k) a)) + k = stages_left (pr_state a)" by simp_all
  then have "1 < stages_left (pr_state ((advance ^^ k) a))" using Suc.prems by simp
  moreover have "pr_state b = StateUpgradePostupgrade" if "underway v b" "completed v (advance b)" for b
    using that by (cases "pr_state b") (auto simp: completed_def underway_def advance_def proto_inv_def in_upgrade_def)
  ultimately show ?case using underway_advance [OF now(1)] now by fastforce
qed (simp add: assms)

lemma helped_run_ok:
  assumes "underway v (proto_status st)" and "k \<le> stages_left (st_state st)"
  shows "helped_history k (helped_run k st) \<and> server_ok st (helped_run k st) \<and>
    proto_status (foldl store st (helped_run k st)) = (advance ^^ k) (proto_status st)"
  using assms(2)
proof (induction k)
  case (Suc k)
  let ?h = "helped_run k st"
  let ?p = "sample 15 (foldl store st ?h)"
  let ?E = "sample_env (helping ?p)"
  have IH: "helped_history k ?h" "server_ok st ?h" "proto_of ?p = (advance ^^ k) (proto_status st)"
    using Suc by (simp_all add: sample_def)
  have "underway v (proto_of ?p)"
    using advance_iterated [OF assms(1), of k] Suc.prems IH(3) by (simp add: stored_state)
  note inst = underway_instance [OF this]
  obtain im where im: "GetImage (pp_version ?p) = Some im" using inst(3) by blast
  obtain r t where run: "Reconcile ?E ''ns'' ''db'' \<lparr>ks_inst = ?p, ks_hist = ?h\<rparr> = (r, t)" by fastforce
  have kept: "\<not> spec_ignore (pp_spec_of ?p)" by (simp add: sample_defs)
  have h: "helped_run (Suc k) st = ks_hist t" using run by (simp add: Let_def)
  have "helped_history (Suc k) (ks_hist t)"
    by (rule helped_history.helped [OF IH(1) helping_helpful kept run])
  moreover have "server_ok st (ks_hist t) \<and> proto_status (foldl store st (ks_hist t)) = (advance ^^ Suc k) (proto_status st)"
  proof (rule Reconcile_helped [OF helping_helpful kept inst(1) im inst(2) run])
    fix fs u y
    let ?get = "(RGet PatroniKind ''ns'' ''db'' None, Inr (KPatroni ?p))"
    assume t: "ks_hist t = ks_hist \<lparr>ks_inst = ?p, ks_hist = ?h\<rparr> @ ?get # fs @ [(RStatusUpdate u, Inr (KPatroni y))]"
      and fs: "list_all (\<lambda>ev. foreign (fst ev)) fs" and u: "proto_of u = advance (proto_of ?p)"
      and "ke_api ?E (ks_hist \<lparr>ks_inst = ?p, ks_hist = ?h\<rparr> @ ?get # fs) (RStatusUpdate u) = Inr (KPatroni y)"
    then have "y = u" by (simp add: sample_env_def helping_def)
    moreover have "pp_status_of ?p = foldl store st ?h" by (simp add: sample_def)
    moreover have "store x ?get = x" for x by (simp add: store_def)
    ultimately show ?thesis
      using IH u fs by (simp add: t server_ok_append store_foreign server_ok_foreign)
        (simp add: answer_ok_def store_def)
  qed
  ultimately show ?case unfolding h by blast
qed (simp_all add: helped_history.start)

lemma upgrade_completes_witness:
  "let st = sample_status StateReady 13 15 [15] in
   helped_history 9 (helped_run 9 st) \<and> server_ok st (helped_run 9 st) \<and>
   (\<exists>h1 h2. helped_run 9 st = h1 @ h2 \<and> (let st' = foldl store st h1 in st_state st' = StateReady \<and>
     st_version st' = st_upgrade_version st \<and> st_upgrade_version st' = 0))"
proof -
  let ?st = "sample_status StateReady 13 15 [15]"
  have inv: "proto_inv (proto_status ?st)" "st_upgrade_version ?st \<noteq> 0" "stages_left (st_state ?st) \<le> 9"
    by (simp_all add: sample_status_def proto_status_def proto_inv_def supported_def GetImage_simps)
  then have "underway 15 (proto_status ?st)" by (simp add: underway_def proto_status_def sample_status_def)
  note run = helped_run_ok [OF this, of 9]
  have "9 \<le> stages_left (st_state ?st)" by (simp add: sample_status_def)
  with run have run: "helped_history 9 (helped_run 9 ?st)" "server_ok ?st (helped_run 9 ?st)" by simp_all
  from upgrade_completes [OF run inv] run show ?thesis by (simp only: Let_def simp_thms)
qed

end
