(* ===== verification/Granting.thy ===== *)
theory Granting
  imports Progress Sts_Props
begin

section \<open>A server that grants what it is asked\<close>

text \<open>
  On a server that refuses nothing, no reconciler of an owned object fails or panics, whatever
  the objects it is shown look like.
\<close>

subsection \<open>Granting\<close>

text \<open>
  An object is returned as the kind that was asked for, or it does not exist; what is written is
  acknowledged by an object of its kind; a deletion finds the object or does not.
\<close>

definition granted :: "request \<Rightarrow> error + kobj \<Rightarrow> bool" where
  "granted q r = (case q of
       RGet k _ _ _ \<Rightarrow> (case r of Inl e \<Rightarrow> e = NotFound | Inr x \<Rightarrow> kind_of x = Some k)
     | RCreate x \<Rightarrow> (case r of Inl _ \<Rightarrow> False | Inr y \<Rightarrow> kind_of y = kind_of x)
     | RUpdate x \<Rightarrow> (case r of Inl _ \<Rightarrow> False | Inr y \<Rightarrow> kind_of y = kind_of x)
     | RPatch x _ \<Rightarrow> (case r of Inl _ \<Rightarrow> False | Inr y \<Rightarrow> kind_of y = kind_of x)
     | RDelete _ _ \<Rightarrow> (case r of Inl e \<Rightarrow> e = NotFound | Inr _ \<Rightarrow> True)
     | RListPVCs _ _ \<Rightarrow> (case r of Inl _ \<Rightarrow> False | Inr y \<Rightarrow> (\<exists>l. y = KPVCList l))
     | _ \<Rightarrow> True)"

definition granting :: "kube_env \<Rightarrow> bool" where
  "granting E \<longleftrightarrow> (\<forall>h q. granted q (ke_api E h q)) \<and> (\<forall>x m. \<exists>os. ke_set_owner E x m = Inr os)"

text \<open>Programs that end well whatever the instance is.\<close>

abbreviation succeeds :: "'a kop \<Rightarrow> bool" where
  "succeeds m \<equiv> attains (\<lambda>_. True) (\<lambda>_. True) m"

lemma succeeds_bnd: "succeeds m \<Longrightarrow> (\<And>x. succeeds (f x)) \<Longrightarrow> succeeds (bnd m f)"
  by (rule attains_bnd)

lemma succeeds_ret: "succeeds (ret x)"
  by (simp add: attains_ret)

lemma succeeds_status: "succeeds (set_status f)"
  by (rule attains_set_status) simp

lemma succeeds_meta: "granting (wx_env C) \<Longrightarrow> succeeds (set_meta_of C T x)"
  unfolding granting_def set_meta_of_def attains_def
  by (simp add: bnd_run SetMeta_run Let_def ret_run split: sum.splits) (metis Inr_not_Inl)

lemmas succeeds_intro = succeeds_bnd succeeds_ret succeeds_status attains_inst attains_for_each

text \<open>
  An object that travels with its kind; whoever asks for one is given one.
\<close>

locale kinded_object = api_object T for T :: "'a kube_type" +
  assumes kind_wrap: "kind_of (kt_wrap T x) = Some (kt_kind T)"
    and kind_unwrap: "kind_of y = Some (kt_kind T) \<Longrightarrow> \<exists>x. kt_unwrap T y = Some x"
begin

lemma granted_decode: "kind_of y = Some (kt_kind T) \<Longrightarrow> succeeds (decode_as (kt_unwrap T) y)"
  using kind_unwrap by (auto intro: attains_decode)

lemma granted_written:
  assumes "granting E"
  shows "succeeds (kcreate E T x)" "succeeds (kupdate E T x)" "succeeds (kpatch E T x y)"
proof -
  have ask: "attains (\<lambda>_. True) (\<lambda>y. kind_of y = Some (kt_kind T)) (ask E q)"
    if "q \<in> {RCreate (kt_wrap T x), RUpdate (kt_wrap T x), RPatch (kt_wrap T x) (kt_wrap T y)}" for q
  proof (rule attains_ask)
    fix h
    have "granted q (ke_api E h q)" using assms by (simp add: granting_def)
    with that show "\<exists>y. ke_api E h q = Inr y \<and> kind_of y = Some (kt_kind T)"
      by (auto simp: granted_def kind_wrap split: sum.splits)
  qed
  show "succeeds (kcreate E T x)" "succeeds (kupdate E T x)" "succeeds (kpatch E T x y)"
    unfolding kcreate_def kupdate_def kpatch_def
    by (rule attains_bnd [OF ask]; simp add: granted_decode)+
qed

lemma granted_read:
  assumes "granting E"
  shows "succeeds (found (kget E T ns n))" "succeeds (found (kget_into E T ns n x))"
proof -
  have "\<exists>y u. found (bnd (ask E (RGet (kt_kind T) ns n into)) (decode_as (kt_unwrap T))) s = (Ok y, u)" for s into
  proof -
    have "granted (RGet (kt_kind T) ns n into) (ke_api E (ks_hist s) (RGet (kt_kind T) ns n into))"
      using assms by (simp add: granting_def)
    then consider "ke_api E (ks_hist s) (RGet (kt_kind T) ns n into) = Inl NotFound"
      | y z where "ke_api E (ks_hist s) (RGet (kt_kind T) ns n into) = Inr y" "kt_unwrap T y = Some z"
      using kind_unwrap by (fastforce simp: granted_def split: sum.splits)
    then show ?thesis
      by cases (simp_all add: found_def attempt_run bnd_run ask_run decode_as_def ret_run)
  qed
  then show "succeeds (found (kget E T ns n))" "succeeds (found (kget_into E T ns n x))"
    unfolding kget_def kget_into_def attains_def by simp_all
qed

lemma granted_adopts:
  assumes "granting (wx_env C)" and "succeeds new"
  shows "succeeds (adopt_or_create C T n new)"
  unfolding adopt_or_create_def
  by (intro attains_inst succeeds_bnd granted_read assms)
    (auto intro!: assms succeeds_intro succeeds_meta granted_written attains_when split: option.splits)

lemma granted_sets:
  assumes "granting (wx_env C)"
  shows "succeeds (create_or_set C T n new fill)"
  unfolding create_or_set_def create_or_update_def Let_def
  by (intro attains_inst succeeds_bnd granted_read assms)
    (auto intro!: assms succeeds_intro succeeds_meta granted_written)

end

interpretation cm_kind: kinded_object ConfigMapT
  by unfold_locales (auto simp: ConfigMapT_def elim!: kind_of.elims)

interpretation sec_kind: kinded_object SecretT
  by unfold_locales (auto simp: SecretT_def elim!: kind_of.elims)

interpretation pvc_kind: kinded_object PVCT
  by unfold_locales (auto simp: PVCT_def elim!: kind_of.elims)

interpretation sa_kind: kinded_object ServiceAccountT
  by unfold_locales (auto simp: ServiceAccountT_def elim!: kind_of.elims)

interpretation role_kind: kinded_object RoleT
  by unfold_locales (auto simp: RoleT_def elim!: kind_of.elims)

interpretation rb_kind: kinded_object RoleBindingT
  by unfold_locales (auto simp: RoleBindingT_def elim!: kind_of.elims)

interpretation svc_kind: kinded_object ServiceT
  by unfold_locales (auto simp: ServiceT_def elim!: kind_of.elims)

interpretation sts_kind: kinded_object StatefulSetT
  by unfold_locales (auto simp: StatefulSetT_def elim!: kind_of.elims)

interpretation np_kind: kinded_object NetworkPolicyT
  by unfold_locales (auto simp: NetworkPolicyT_def elim!: kind_of.elims)

interpretation pdb_kind: kinded_object PDBT
  by unfold_locales (auto simp: PDBT_def elim!: kind_of.elims)

subsection \<open>The reconcilers\<close>

lemma granted_secret:
  assumes "granting (wx_env C)"
  shows "succeeds (secret_Reconcile C)"
proof -
  have "succeeds (attempt (ask E (RRand 48)))" for E
    by (simp add: attains_def attempt_run ask_run split: sum.splits)
  then have "succeeds (new_secret E p)" for E p
    unfolding new_secret_def genSecret_def by (intro succeeds_intro) auto
  with assms show ?thesis
    unfolding secret_Reconcile_def by (intro attains_inst sec_kind.granted_adopts)
qed

lemma granted_services:
  assumes "granting (wx_env C)"
  shows "succeeds (service_Reconcile C)"
  unfolding service_Reconcile_def ReconcileService_def create_or_update_def Let_def
    apply_service_patches.simps of_option_simps bnd_ret
  by (intro attains_inst succeeds_bnd svc_kind.granted_read assms)
    (auto intro!: succeeds_intro succeeds_meta svc_kind.granted_written svc_kind.granted_read assms)

lemma granted_access:
  assumes "granting (wx_env C)"
  shows "succeeds (configmap_Reconcile C)" "succeeds (rbac_Reconcile C)"
    "succeeds (networkpolicy_Reconcile C)" "succeeds (pdb_Reconcile C)"
  unfolding configmap_Reconcile_def rbac_Reconcile_def reconcileServiceAccount_def reconcileRole_def
    reconcileRoleBinding_def networkpolicy_Reconcile_def pdb_Reconcile_def
  by (intro succeeds_intro cm_kind.granted_adopts sa_kind.granted_adopts role_kind.granted_sets
      rb_kind.granted_sets np_kind.granted_sets pdb_kind.granted_sets assms)+

lemma granted_claims:
  assumes "granting (wx_env C)"
  shows "succeeds (pvc_Reconcile C)"
proof -
  let ?E = "wx_env C"
  have ok: "granted q (ke_api ?E h q)" for h q using assms by (simp add: granting_def)
  have "attains (\<lambda>_. True) (\<lambda>x. \<exists>l. x = KPVCList l) (ask ?E (RListPVCs ns ls))" for ns ls
  proof (rule attains_ask)
    show "\<exists>x. ke_api ?E h (RListPVCs ns ls) = Inr x \<and> (\<exists>l. x = KPVCList l)" for h
      using ok [of "RListPVCs ns ls" h] by (auto simp: granted_def split: sum.splits)
  qed
  then have list: "succeeds (list_pvcs ?E lo)" for lo
    unfolding list_pvcs_def by (rule attains_bnd) (auto intro: attains_decode)
  have node: "succeeds (reconcile_node C iv m)" for iv m
    unfolding reconcile_node_def Let_def
    by (cases iv) (auto intro!: succeeds_intro succeeds_meta pvc_kind.granted_written assms split: option.splits)
  have del: "succeeds (delete_pvc C c)" for c
    unfolding attains_def
  proof (intro allI impI)
    fix s :: kstate
    show "\<exists>x t. delete_pvc C c s = (Ok x, t) \<and> True \<and> True"
      using ok [of "RDelete (kt_wrap PVCT c) Background" "ks_hist s"]
      by (auto simp: delete_pvc_def kdelete_def attempt_run bnd_run ask_run ret_run granted_def split: sum.splits)
  qed
  have loop: "succeeds (for_acc xs a (reconcile_node C))" for xs a
    using attains_for_acc [where P = "\<lambda>_ _. True" and J = "\<lambda>_. True" and xs = xs and a = a] node by blast
  have hist: "succeeds (gets ks_hist)" by (simp add: attains_def gets_run)
  show ?thesis
    unfolding pvc_Reconcile_def
    by (intro attains_inst succeeds_bnd list loop hist succeeds_status attains_for_each del)
qed

lemma granted_found_sts:
  assumes "granting (wx_env C)"
  shows "succeeds (found (GetK8SStatefulSet C))"
  unfolding attains_def
proof (intro allI impI)
  fix s :: kstate
  have "found (GetK8SStatefulSet C) s = found (kget (wx_env C) StatefulSetT
      (pp_namespace (ks_inst s)) (pp_name (ks_inst s))) s"
    by (simp add: found_def attempt_run bnd_run GetK8SStatefulSet_def inst_run)
  with sts_kind.granted_read(1) [OF assms] show "\<exists>x t. found (GetK8SStatefulSet C) s = (Ok x, t) \<and> True \<and> True"
    unfolding attains_def by auto
qed

lemma granted_sts:
  assumes "granting (wx_env C)"
  shows "succeeds (statefulset_Reconcile C)"
proof -
  have put: "succeeds (finish_sts C b x)" for b x
    unfolding finish_sts_def create_or_update_def Let_def
    by (rule attains_bnd [OF attains_attempt [where P = "\<lambda>_. True"]])
      (auto intro!: succeeds_intro sts_kind.granted_written assms)
  have "succeeds (ReconcileSts C (maintenance False))"
    unfolding ReconcileSts_finish Let_def
    by (intro attains_inst succeeds_bnd granted_found_sts succeeds_meta put assms)
  then show ?thesis
    unfolding statefulset_Reconcile_def by (intro attains_inst succeeds_bnd) (auto intro!: succeeds_intro)
qed

lemma reconcilers_granted:
  assumes "granting (wx_env C)" and "f \<in> set reconcilers"
  shows "succeeds (f C)"
  using assms(2) granted_claims [OF assms(1)] granted_sts [OF assms(1)] granted_services [OF assms(1)]
    granted_secret [OF assms(1)] granted_access [OF assms(1)]
  by (auto simp: reconcilers_def)

end
