(* ===== verification/Settled.thy ===== *)
theory Settled
  imports Settles Granting
begin

section \<open>Claims settle as well, and so does a whole reconcile\<close>

text \<open>
  The contract \<open>settling\<close> for the volume claims, whose reconciler lists, patches, creates and
  deletes, and with it the property of all reconcilers together.
\<close>

subsection \<open>One claim\<close>








lemma same_run_status: "same_run (ks_inst s) (upd_status (\<lambda>st. st\<lparr>st_volumes := v\<rparr>) (ks_inst s))"
  by (simp add: same_run_def)



subsection \<open>The loop over the nodes\<close>

lemma enumerate_Suc: "enumerate k (x # xs) = (k, x) # enumerate (Suc k) xs"
  by simp




subsection \<open>The reconciler of the claims\<close>











subsection \<open>A whole reconcile\<close>



text \<open>
  A server that starts empty, never fails and completes what it is sent: a service gets a type,
  a probe a success threshold, a claim a storage class, and a secret's \<open>stringData\<close> becomes data.
\<close>

definition full_probe :: "probe \<Rightarrow> probe" where
  "full_probe pr = (if pr_success_threshold pr = 0 then pr\<lparr>pr_success_threshold := 1\<rparr> else pr)"

definition full_container :: "container \<Rightarrow> container" where
  "full_container c = c\<lparr>ct_liveness := map_option full_probe (ct_liveness c),
     ct_readiness := map_option full_probe (ct_readiness c)\<rparr>"

definition full_template :: "pod_template \<Rightarrow> pod_template" where
  "full_template t = t\<lparr>pt_spec := (pt_spec t)\<lparr>ps_containers := map full_container (ps_containers (pt_spec t))\<rparr>\<rparr>"

definition full :: "kobj \<Rightarrow> kobj" where
  "full x = (case x of
       KService y \<Rightarrow> KService (y\<lparr>svc_type := if svc_type y = [] then ''ClusterIP'' else svc_type y\<rparr>)
     | KSecret y \<Rightarrow> KSecret (y\<lparr>sec_data := sec_string_data y @ sec_data y, sec_string_data := []\<rparr>)
     | KPVC y \<Rightarrow> KPVC (y\<lparr>pvc_storage_class := (case pvc_storage_class y of None \<Rightarrow> Some ''standard'' | Some c \<Rightarrow> Some c)\<rparr>)
     | KStatefulSet y \<Rightarrow> KStatefulSet (y\<lparr>sts_spec := (sts_spec y)\<lparr>ss_template := full_template (ss_template (sts_spec y))\<rparr>\<rparr>)
     | _ \<Rightarrow> x)"

definition sent_claims :: "event list \<Rightarrow> pvc list" where
  "sent_claims h = concat (map (\<lambda>ev. case ev of
       (RCreate _, Inr (KPVC c)) \<Rightarrow> [c] | (RUpdate _, Inr (KPVC c)) \<Rightarrow> [c] | (RPatch _ _, Inr (KPVC c)) \<Rightarrow> [c] | _ \<Rightarrow> []) h)"

definition storing :: "event list \<Rightarrow> request \<Rightarrow> error + kobj" where
  "storing h q = (let W = foldl happen (\<lambda>_. None) h in case q of
       RGet k ns n _ \<Rightarrow> (case W (k, ns, n) of None \<Rightarrow> Inl NotFound | Some x \<Rightarrow> Inr x)
     | RCreate x \<Rightarrow> Inr (full x)
     | RUpdate x \<Rightarrow> Inr (full x)
     | RPatch x _ \<Rightarrow> Inr (full x)
     | RListPVCs ns ls \<Rightarrow> Inr (KPVCList (filter (\<lambda>c. W (PVCKind, ns, claim_name c) = Some (KPVC c) \<and>
         labelled ls (pvc_meta c)) (sent_claims h)))
     | _ \<Rightarrow> Inr (KBytes ''r''))"










lemma storing_env [simp]: "wx_env (sample_ctx storing) = sample_env storing"
  by (simp add: sample_ctx_def)



end
