(* ===== verification/Convergence.thy ===== *)
theory Convergence
  imports Granting
begin

section \<open>The cluster converges to what the user asked for\<close>

text \<open>
  The parts together: a new instance is initialised and becomes ready, a ready one with another
  version asked for is upgraded, an upgrade completes. On a cluster that does its part every
  reconcile comes one step nearer to a ready cluster of the version in the specification, and no
  reconcile that fails or waits loses ground.
\<close>

subsection \<open>A cluster that does its part\<close>

text \<open>
  Beside what helps an upgrade: nothing is refused, outside an upgrade all replicas are ready
  when the stateful set is written, and a status update is acknowledged as it was sent.
\<close>

definition serving :: "kube_env \<Rightarrow> patroni \<Rightarrow> bool" where
  "serving E p \<longleftrightarrow> helpful E p \<and> granting E \<and>
     (\<forall>h w x. pp_upgrade_version p = 0 \<and> ke_api E h (RUpdate (KStatefulSet w)) = Inr (KStatefulSet x) \<longrightarrow>
        sint (sts_ready x) = int (length (pp_nodes p))) \<and>
     (\<forall>h q. ke_api E h (RStatusUpdate q) = Inr (KPatroni q))"

abbreviation acknowledged :: "patroni \<Rightarrow> event" where
  "acknowledged q \<equiv> (RStatusUpdate q, Inr (KPatroni q))"

lemma status_update_served:
  "serving E p \<Longrightarrow> status_update E s = (Ok (), s\<lparr>ks_hist := ks_hist s @ [acknowledged (ks_inst s)]\<rparr>)"
  by (simp add: serving_def status_update_def bnd_run inst_run ask_run decode_as_def unwrap_patroni_def
      ret_run set_inst_def modify_run)

lemma deferred_served:
  assumes "serving E p" and "deferred_update E m s = (r, t)" and "m s = (Ok b, u)" and "keeps (asks foreign) m"
  shows "\<exists>fs. ks_hist t = ks_hist s @ fs @ [acknowledged (ks_inst u)] \<and> list_all (\<lambda>ev. foreign (fst ev)) fs"
  using assms keeps_asks_hist [OF assms(4,3)]
  by (auto simp: deferred_update_def bnd_run status_update_served ret_run)

subsection \<open>A plain reconcile makes the cluster ready\<close>

lemma served_sts:
  assumes "serving (wx_env C) p" and "pp_upgrade_version p = 0"
  shows "attains (\<lambda>_. True) (\<lambda>y. sint (sts_ready y) = int (length (pp_nodes p))) (ReconcileSts C (maintenance False))"
proof -
  let ?E = "wx_env C" and ?ready = "\<lambda>y. sint (sts_ready y) = int (length (pp_nodes p))"
  have H: "helpful ?E p" using assms(1) by (simp add: serving_def)
  have answer: "\<exists>y. ke_api ?E h (RUpdate (KStatefulSet x)) = Inr (KStatefulSet y) \<and> ?ready y" for h x
    using helpful_answer [OF H, of h "RUpdate (KStatefulSet x)"] assms by (auto simp: good_answer_def serving_def)
  have "attains (\<lambda>_. True) ?ready (kupdate ?E StatefulSetT x)" for x
    unfolding attains_def
  proof (intro allI impI)
    fix s :: kstate
    show "\<exists>y t. kupdate ?E StatefulSetT x s = (Ok y, t) \<and> True \<and> ?ready y"
      using answer [of "ks_hist s" x]
      by (auto simp: kupdate_def bnd_run ask_run decode_as_def ret_run StatefulSetT_def)
  qed
  note update = attains_attempt [OF this]
  have put: "attains (\<lambda>_. True) ?ready (finish_sts C False x)" for x
    unfolding finish_sts_def create_or_update_def Let_def
    by simp (rule attains_bnd [OF update], elim exE conjE, simp, rule attains_bnd [OF succeeds_status], rule attains_ret)
  show ?thesis
    unfolding ReconcileSts_finish Let_def
    by (intro attains_inst, rule attains_bnd [OF attains_found_sts [OF H]], elim exE conjE, simp)
      (intro attains_bnd [OF attains_set_meta [OF H]] put)
qed

lemma served_statefulset:
  assumes "serving (wx_env C) p" and "pp_upgrade_version p = 0" and "identity (ks_inst s) = identity p"
  shows "\<exists>t. statefulset_Reconcile C s = (Ok (), t) \<and> identity (ks_inst t) = identity p \<and>
    proto_of (ks_inst t) = (proto_of (ks_inst s))\<lparr>pr_state := StateReady,
      pr_offered := image_UpgradeVersions (wx_image C) (pp_version (ks_inst s))\<rparr>"
proof -
  from served_sts [OF assms(1,2)] obtain y u where u: "ReconcileSts C [] s = (Ok y, u)"
    and ready: "sint (sts_ready y) = int (length (pp_nodes p))"
    unfolding attains_def by simp blast
  from ReconcileSts_inst [OF u] obtain n where "ks_inst u = upd_status (\<lambda>st. st\<lparr>st_ready := n\<rparr>) (ks_inst s)" by blast
  moreover have "pp_nodes (ks_inst s) = pp_nodes p" using assms(3) by (simp add: identity_def)
  ultimately show ?thesis
    using u ready assms(3)
    by (simp add: statefulset_Reconcile_def bnd_run inst_run set_status_run identity_def proto_status_def)
qed

lemma served_reconcilers:
  assumes S: "serving (wx_env C) p" "pp_upgrade_version p = 0" and "identity (ks_inst s) = identity p"
  shows "\<exists>t. for_each reconcilers (\<lambda>f. f C) s = (Ok (), t) \<and>
    proto_of (ks_inst t) = (proto_of (ks_inst s))\<lparr>pr_state := StateReady,
      pr_offered := image_UpgradeVersions (wx_image C) (pp_version (ks_inst s))\<rparr>"
proof -
  let ?pre = "[pvc_Reconcile, secret_Reconcile, configmap_Reconcile, rbac_Reconcile, service_Reconcile]"
  let ?post = "[networkpolicy_Reconcile, pdb_Reconcile]"
  have G: "granting (wx_env C)" using S(1) by (simp add: serving_def)
  have "succeeds (for_each fs (\<lambda>f. f C))" if "set fs \<subseteq> set reconcilers" for fs
    using that by (intro attains_for_each reconcilers_granted [OF G]) auto
  note ok = this [of ?pre] this [of ?post]
  from ok(1) obtain u where u: "for_each ?pre (\<lambda>f. f C) s = (Ok (), u)"
    unfolding attains_def by (auto simp: reconcilers_def)
  have u': "identity (ks_inst u) = identity (ks_inst s)" "proto_of (ks_inst u) = proto_of (ks_inst s)"
    using keepsD [OF quiet_reconcilers(1) u] by (simp_all add: same_def id_proto_def)
  moreover from u'(2) have "pp_version (ks_inst u) = pp_version (ks_inst s)" by (simp add: proto_status_def)
  ultimately obtain w where w: "statefulset_Reconcile C u = (Ok (), w)"
    "proto_of (ks_inst w) = (proto_of (ks_inst s))\<lparr>pr_state := StateReady,
      pr_offered := image_UpgradeVersions (wx_image C) (pp_version (ks_inst s))\<rparr>"
    using served_statefulset [OF S, of u] assms(3) by auto
  from ok(2) obtain t where t: "for_each ?post (\<lambda>f. f C) w = (Ok (), t)"
    unfolding attains_def by (auto simp: reconcilers_def)
  have "proto_of (ks_inst t) = proto_of (ks_inst w)"
    using keepsD [OF quiet_reconcilers(2) t] by (simp add: same_def id_proto_def)
  moreover have "for_each reconcilers (\<lambda>f. f C) s = (Ok (), t)"
    unfolding reconcilers_split for_each_append for_each.simps(2) [of statefulset_Reconcile]
    using u w(1) t by (simp add: bnd_run)
  ultimately show ?thesis using w(2) by auto
qed

subsection \<open>The way to the version asked for\<close>

text \<open>What an image of a version offers to upgrade to.\<close>

definition offers_of :: "int \<Rightarrow> int list" where
  "offers_of w = (case GetImage w of None \<Rightarrow> [] | Some im \<Rightarrow> image_UpgradeVersions im w)"

text \<open>
  A status from which the operator can reach version \<open>v\<close>: it upgrades to it, or it runs it, or
  its running version offers it; a ready cluster must have recorded the offer.
\<close>

definition on_course :: "int \<Rightarrow> proto \<Rightarrow> bool" where
  "on_course v a \<longleftrightarrow> proto_inv a \<and> supported v \<and>
     (if pr_target a \<noteq> 0 then pr_target a = v
      else if pr_state a = StateUnset then True
      else pr_version a = v \<or> v \<in> set (if pr_state a = StateReady then pr_offered a else offers_of (pr_version a)))"

text \<open>One reconcile on a cluster that does its part, and how many are needed.\<close>

definition march :: "int \<Rightarrow> proto \<Rightarrow> proto" where
  "march v a = (if pr_target a \<noteq> 0 then advance a
     else if pr_state a = StateReady \<and> pr_version a \<noteq> v then a\<lparr>pr_target := v\<rparr>
     else let w = (if pr_state a = StateUnset then v else pr_version a) in
       a\<lparr>pr_state := StateReady, pr_version := w, pr_offered := offers_of w\<rparr>)"

definition distance :: "int \<Rightarrow> proto \<Rightarrow> nat" where
  "distance v a = (if pr_target a \<noteq> 0 then stages_left (pr_state a)
     else if pr_state a = StateReady then (if pr_version a = v then 0 else 10)
     else if pr_state a = StateUnset \<or> pr_version a = v then 1 else 11)"

lemma supported_nonzero: "supported v \<Longrightarrow> v \<noteq> 0"
  by (auto simp: supported_iff)

lemma no_image_0: "GetImage 0 = None"
  using supported_iff [of 0] by (auto simp: supported_def)

lemma on_course_underway: "on_course v a \<Longrightarrow> pr_target a \<noteq> 0 \<Longrightarrow> underway v a"
  by (auto simp: on_course_def underway_def)

lemma underway_on_course: "underway v a \<Longrightarrow> on_course v a"
  by (auto simp: on_course_def underway_def proto_inv_def)

lemma offers_of_image: "GetImage w = Some im \<Longrightarrow> offers_of w = image_UpgradeVersions im w"
  by (simp add: offers_of_def)

lemma completed_distance: "on_course v a \<Longrightarrow> distance v a = 0 \<longleftrightarrow> completed v a"
  using stages_left_pos [of "pr_state a"] by (auto simp: on_course_def distance_def completed_def)

lemma march_on_course:
  assumes "on_course v a" and "\<not> completed v a"
  shows "completed v (march v a) \<and> distance v a = 1 \<or>
    on_course v (march v a) \<and> Suc (distance v (march v a)) = distance v a"
proof -
  have inv: "proto_inv a" "supported v" using assms(1) by (simp_all add: on_course_def)
  consider (up) "pr_target a \<noteq> 0"
    | (ready) "pr_target a = 0" "pr_state a = StateReady"
    | (unset) "pr_target a = 0" "pr_state a = StateUnset"
    | (scaling) "pr_target a = 0" "pr_state a = StateScaling"
    using inv(1) by (auto simp: proto_inv_def)
  then show ?thesis
  proof cases
    case up
    note under = on_course_underway [OF assms(1) up]
    have "stages_left (pr_state a) = 1" if "completed v (advance a)"
    proof -
      have "next_stage (pr_state a) = Some StateReady"
        using that by (cases "next_stage (pr_state a)") (auto simp: completed_def advance_def)
      then show ?thesis by (simp add: next_stage_Ready)
    qed
    moreover have "distance v a = stages_left (pr_state a)" "march v a = advance a"
      using up by (simp_all add: distance_def march_def)
    moreover have "distance v b = stages_left (pr_state b) \<and> on_course v b" if "underway v b" for b
      using that underway_on_course [OF that] by (simp add: distance_def underway_def)
    ultimately show ?thesis using underway_advance [OF under] by metis
  next
    case ready
    with assms have v: "pr_version a \<noteq> v" "v \<in> set (pr_offered a)"
      by (auto simp: on_course_def completed_def)
    with ready have step: "march v a = a\<lparr>pr_target := v\<rparr>" by (simp add: march_def)
    have "protocol_step v a (a\<lparr>pr_target := v\<rparr>)"
      by (rule protocol_step.start) (use ready v in simp_all)
    from inv_step [OF this inv(1)] show ?thesis
      using ready v supported_nonzero [OF inv(2)] inv(2) by (simp add: step on_course_def distance_def)
  next
    case unset
    then show ?thesis by (simp add: march_def completed_def distance_def Let_def)
  next
    case scaling
    then have "supported (pr_version a)" using inv(1) by (simp add: proto_inv_def)
    then obtain im where im: "GetImage (pr_version a) = Some im" by (auto simp: supported_def)
    have "protocol_step v a (a\<lparr>pr_state := StateReady, pr_offered := image_UpgradeVersions im (pr_version a)\<rparr>)"
      by (rule protocol_step.ready) (use scaling im in simp_all)
    from inv_step [OF this inv(1)] show ?thesis
      using scaling assms(1) inv(2) offers_of_image [OF im]
      by (auto simp: march_def on_course_def distance_def completed_def)
  qed
qed

text \<open>No step the operator can take, whatever the cluster does, leads off the way or back.\<close>

lemma step_on_course:
  assumes "protocol_step v a b" and "on_course v a" and "\<not> completed v a"
  shows "completed v b \<or> on_course v b \<and> distance v b \<le> distance v a"
proof -
  have b: "proto_inv b" "supported v" using inv_step [OF assms(1)] assms(2) by (simp_all add: on_course_def)
  from assms(1) show ?thesis
  proof cases
    case progress
    then show ?thesis using march_on_course [OF assms(2,3)] by (auto simp: march_def)
  next
    case init
    then have "pr_target a = 0" using assms(2) by (auto simp: on_course_def proto_inv_def proto_new_def)
    with init b show ?thesis by (simp add: on_course_def distance_def)
  next
    case start
    with b supported_nonzero [OF b(2)] show ?thesis by (simp add: on_course_def distance_def)
  next
    case scaling
    then show ?thesis using b assms(2,3)
      by (auto simp: on_course_def distance_def completed_def proto_inv_def proto_new_def supported_def no_image_0)
  next
    case (ready im)
    then show ?thesis using b assms(2,3) offers_of_image [OF ready(4)]
      by (auto simp: on_course_def distance_def completed_def proto_inv_def proto_new_def supported_def no_image_0)
  qed (use assms(2,3) in simp_all)
qed

subsection \<open>A reconcile on such a cluster\<close>

lemma served_body:
  assumes S: "serving (wx_env C) p" and im: "GetImage (pp_version q) = Some (wx_image C)"
    and q: "q = ks_inst s" "identity q = identity p" "pp_upgrade_version q = pp_upgrade_version p"
      "q = p \<or> pp_upgrade_version q = 0 \<and> pp_version q = v" "pp_state q \<noteq> StateUnset"
    and course: "on_course v (proto_of q)" "spec_version (pp_spec_of p) = v"
  shows "\<exists>b t. reconcile_body C s = (Ok b, t) \<and> proto_of (ks_inst t) = march v (proto_of q)"
proof -
  have spec: "pp_spec_of q = pp_spec_of p" using q(2) by (simp add: identity_def)
  have H: "helpful (wx_env C) p" using S by (simp add: serving_def)
  consider (up) "pp_upgrade_version q \<noteq> 0" "q = p"
    | (start) "pp_upgrade_version q = 0" "pp_state q = StateReady" "pp_version q \<noteq> v" "q = p"
    | (plain) "pp_upgrade_version q = 0" "\<not> (pp_state q = StateReady \<and> pp_version q \<noteq> v)"
    using q(4) by blast
  then show ?thesis
  proof cases
    case up
    then obtain t where t: "Handle C s = (Ok True, t)" using Handle_helped [of C s] H q(1) by auto
    have "core (ks_inst t) = core (put_proto (advance (proto_of q)) q)"
      using Handle_step [OF t] q(1) by simp
    from core_proto [OF this] have "proto_of (ks_inst t) = advance (proto_of q)" by simp
    with t up q(1) show ?thesis
      by (auto simp: reconcile_body_def bnd_run inst_run march_def proto_status_def)
  next
    case start
    with course(1) have offered: "v \<in> set (st_upgrade_versions (pp_status_of q))"
      by (auto simp: on_course_def proto_status_def)
    have "alike p (ks_inst s)" using start(4) q(1) by simp
    with attains_GetSyncLeader [OF H] obtain i u where u: "GetSyncLeader C s = (Ok i, u)"
      unfolding attains_def by blast
    then have "ks_inst u = q" using keeps_id [OF cm_readers_same(4) u] q(1) by simp
    with u start offered q(1) course(2) show ?thesis
      by (auto simp: reconcile_body_def bnd_run inst_run set_status_run ret_run march_def proto_status_def)
  next
    case plain
    have "identity (ks_inst s) = identity p" "pp_upgrade_version p = 0" using q plain by simp_all
    from served_reconcilers [OF S this(2,1)] obtain t where t: "for_each reconcilers (\<lambda>f. f C) s = (Ok (), t)"
      "proto_of (ks_inst t) = (proto_of q)\<lparr>pr_state := StateReady, pr_offered := image_UpgradeVersions (wx_image C) (pp_version q)\<rparr>"
      using q(1) by auto
    moreover have "march v (proto_of q) = (proto_of q)\<lparr>pr_state := StateReady,
        pr_offered := image_UpgradeVersions (wx_image C) (pp_version q)\<rparr>"
      using plain q(5) offers_of_image [OF im] by (auto simp: march_def proto_status_def Let_def)
    ultimately show ?thesis
      using plain q(1) spec course(2) by (auto simp: reconcile_body_def bnd_run inst_run ret_run)
  qed
qed

text \<open>
  A new instance is first given its status. Then the reconcile sends what it sends and writes
  the status once.
\<close>

lemma served_initialize:
  assumes "serving E p" and "ks_inst s = p"
  shows "if pp_state p = StateUnset \<and> supported (spec_version (pp_spec_of p))
    then let q = upd_status (\<lambda>st. st\<lparr>st_version := spec_version (pp_spec_of p), st_state := StateScaling, st_volumes := []\<rparr>) p in
      initialize E s = (Ok (), s\<lparr>ks_inst := q, ks_hist := ks_hist s @ [acknowledged q]\<rparr>)
    else pp_state p \<noteq> StateUnset \<longrightarrow> initialize E s = (Ok (), s)"
  using assms by (auto simp: initialize_def bnd_run inst_run set_status_run status_update_served ret_run supported_def Let_def)

lemma served_run:
  assumes S: "serving E p" and p: "\<not> spec_ignore (pp_spec_of p)" "spec_version (pp_spec_of p) = v"
    and course: "on_course v (proto_of p)" "\<not> completed v (proto_of p)"
    and run: "Reconcile E ns n s = (r, t)"
  obtains es fs u where "ks_hist t = ks_hist s @ (RGet PatroniKind ns n None, Inr (KPatroni p)) # es @ fs @ [acknowledged u]"
    "es = [] \<or> (\<exists>q. es = [acknowledged q])" "list_all (\<lambda>ev. foreign (fst ev)) fs" "proto_of u = march v (proto_of p)"
proof -
  let ?g = "(RGet PatroniKind ns n None, Inr (KPatroni p))"
  let ?s = "s\<lparr>ks_hist := ks_hist s @ [?g], ks_inst := p\<rparr>"
  let ?body = "bnd inst (\<lambda>p. bnd (of_sum (New E p)) (\<lambda>C. deferred_update E (reconcile_body C)))"
  obtain q where q_def: "q = (if pp_state p = StateUnset
    then upd_status (\<lambda>st. st\<lparr>st_version := v, st_state := StateScaling, st_volumes := []\<rparr>) p else p)" by blast
  obtain es where es: "es = (if pp_state p = StateUnset then [acknowledged q] else [])" by blast
  obtain w where w: "w = ?s\<lparr>ks_inst := q, ks_hist := ks_hist ?s @ es\<rparr>" by blast
  have inv: "proto_inv (proto_of p)" "supported v" using course(1) by (simp_all add: on_course_def)
  have "initialize E ?s = (Ok (), w)"
    using served_initialize [OF S, of ?s] p(2) inv(2) by (auto simp: Let_def w es q_def)
  moreover have "bnd (initialize E) (\<lambda>_. ?body) ?s = (r, t)"
    using run p(1) helpful_get [of E p] S
    by (simp add: serving_def Reconcile_def get_instance_def unwrap_patroni_def found_def attempt_run bnd_run ask_run
        decode_as_def set_inst_def modify_run ret_run)
  ultimately have body: "?body w = (r, t)" by (simp add: bnd_run)
  have "supported (pp_version q)" using inv by (auto simp: q_def proto_inv_def proto_status_def)
  then obtain im where im: "GetImage (pp_version q) = Some im" by (auto simp: supported_def)
  let ?C = "\<lparr>wx_env = E, wx_image = im\<rparr>"
  have unset: "pp_upgrade_version p = 0" if "pp_state p = StateUnset"
    using inv(1) that by (simp add: proto_inv_def proto_status_def proto_new_def)
  have q: "q = ks_inst w" "identity q = identity p" "pp_upgrade_version q = pp_upgrade_version p"
    "q = p \<or> pp_upgrade_version q = 0 \<and> pp_version q = v" "pp_state q \<noteq> StateUnset"
    using unset by (auto simp: q_def w identity_def)
  have "protocol_step v (proto_of p) (proto_of q) \<and> \<not> completed v (proto_of q)" if "pp_state p = StateUnset"
    using protocol_step.init [of "proto_of p" v] that inv(2) by (auto simp: q_def supported_def proto_status_def completed_def)
  then have on: "on_course v (proto_of q)"
    using step_on_course [OF _ course] course(1) by (cases "pp_state p = StateUnset") (auto simp: q_def)
  have same: "march v (proto_of q) = march v (proto_of p)"
    using unset by (auto simp: q_def march_def proto_status_def Let_def)
  obtain b u where u: "reconcile_body ?C w = (Ok b, u)" "proto_of (ks_inst u) = march v (proto_of q)"
    using served_body [where C = ?C, OF _ _ q on p(2)] S im by auto
  have "deferred_update E (reconcile_body ?C) w = (r, t)"
    using body im by (simp add: bnd_run inst_run New_def q(1) [symmetric])
  from deferred_served [OF S this u(1) reconcile_body_asks] obtain fs
    where "ks_hist t = ks_hist w @ fs @ [acknowledged (ks_inst u)]" "list_all (\<lambda>ev. foreign (fst ev)) fs" by auto
  then show ?thesis using that [of es fs "ks_inst u"] u(2) same by (simp add: w es)
qed

subsection \<open>The operator's life while the user wants one version\<close>

text \<open>
  Every instance the server returns asks for version \<open>v\<close>. The reconciles that met a cluster
  which does its part are counted; the others may meet anything.
\<close>

definition wants :: "int \<Rightarrow> event \<Rightarrow> bool" where
  "wants v ev \<longleftrightarrow> (\<forall>c. seen None ev = Some c \<longrightarrow> spec_version (pp_spec_of c) = v)"

inductive attended :: "nat \<Rightarrow> event list \<Rightarrow> bool" where
  start: "attended 0 []"
| other: "attended k h \<Longrightarrow> Reconcile E ns n \<lparr>ks_inst = q, ks_hist = h\<rparr> = (r, t) \<Longrightarrow> attended k (ks_hist t)"
| served: "attended k h \<Longrightarrow> serving E p \<Longrightarrow> \<not> spec_ignore (pp_spec_of p) \<Longrightarrow>
    Reconcile E ns n \<lparr>ks_inst = q, ks_hist = h\<rparr> = (r, t) \<Longrightarrow> attended (Suc k) (ks_hist t)"

lemma wanted_event:
  assumes "update_ok cur (fst ev)" "answer_ok st ev" "in_step cur st"
    and "\<forall>c. cur = Some c \<longrightarrow> spec_version (pp_spec_of c) = v" and "wants v ev"
  shows "store st ev = st \<or> protocol_step v (proto_status st) (proto_status (store st ev))"
    and "\<forall>c. seen cur ev = Some c \<longrightarrow> spec_version (pp_spec_of c) = v"
  using assms
  by (cases ev; cases "fst ev";
      auto simp: wants_def in_step_def seen_def store_def answer_ok_def update_ok_def
        split: option.splits sum.splits kobj.splits kind.splits)+

lemma events_on_course:
  assumes "updates_ok cur es" and "server_ok st es" and "in_step cur st" and "list_all (wants v) es"
    and "\<forall>c. cur = Some c \<longrightarrow> spec_version (pp_spec_of c) = v"
    and "on_course v (proto_status st)" and "\<not> completed v (proto_status st)"
  shows "done_within v st es \<or> on_course v (proto_status (foldl store st es)) \<and>
    distance v (proto_status (foldl store st es)) \<le> distance v (proto_status st)"
  using assms
proof (induction es arbitrary: cur st)
  case (Cons ev es)
  from Cons.prems have ev: "update_ok cur (fst ev)" "answer_ok st ev" "in_step cur st" "wants v ev" by simp_all
  note step = wanted_event [OF ev(1-3) Cons.prems(5) ev(4)]
  show ?case
  proof (cases "completed v (proto_status (store st ev))")
    case True
    then have "done_within v st [ev]"
      unfolding done_within_def by (intro exI [of _ "[ev]"] exI [of _ "[]"]) simp
    then show ?thesis using done_within_append [of v st "[ev]" es] by simp
  next
    case False
    then have on: "on_course v (proto_status (store st ev))"
      "distance v (proto_status (store st ev)) \<le> distance v (proto_status st)"
      using step(1) step_on_course Cons.prems(6,7) by fastforce+
    have "done_within v (store st ev) es \<or> on_course v (proto_status (foldl store (store st ev) es)) \<and>
      distance v (proto_status (foldl store (store st ev) es)) \<le> distance v (proto_status (store st ev))"
      by (rule Cons.IH [OF _ _ event_step(1) [OF ev(1-3)] _ step(2) on(1) False]) (use Cons.prems in simp_all)
    then show ?thesis using on(2) done_within_append [of v st "[ev]" es] by auto
  qed
qed (simp add: done_within_def)

lemma acknowledged_store: "es = [] \<or> (\<exists>q. es = [acknowledged q]) \<Longrightarrow>
    foldl store st (es @ fs @ [acknowledged u]) = pp_status_of u"
  by (simp add: store_def)

lemma served_marches:
  assumes "serving E p" "\<not> spec_ignore (pp_spec_of p)" "Reconcile E ns n s = (r, t)"
    and t: "ks_hist t = ks_hist s @ es" and "server_ok st es" "list_all (wants v) es"
    and "on_course v (proto_status st)" "\<not> completed v (proto_status st)"
  shows "proto_status (foldl store st es) = march v (proto_status st)"
proof -
  let ?g = "(RGet PatroniKind ns n None, Inr (KPatroni p))"
  have "ke_api E (ks_hist s) (RGet PatroniKind ns n None) = Inr (KPatroni p)"
    using assms(1) by (simp add: serving_def helpful_get)
  from Reconcile_first [OF assms(3) this] t obtain es' where es: "es = ?g # es'" by auto
  with assms(5,6) have "pp_status_of p = st" "spec_version (pp_spec_of p) = v"
    by (simp_all add: answer_ok_def wants_def seen_def)
  then have v: "spec_version (pp_spec_of p) = v" "on_course v (proto_of p)" "\<not> completed v (proto_of p)"
    using assms(7,8) by simp_all
  obtain fs gs u where "ks_hist t = ks_hist s @ ?g # fs @ gs @ [acknowledged u]"
    "fs = [] \<or> (\<exists>q. fs = [acknowledged q])" "list_all (\<lambda>ev. foreign (fst ev)) gs" "proto_of u = march v (proto_of p)"
    by (rule served_run [OF assms(1,2) v assms(3)])
  with t \<open>pp_status_of p = st\<close> show ?thesis using acknowledged_store [of fs "store st ?g" gs u] by auto
qed

lemma attended_progress:
  assumes "attended k h" and "server_ok st h" and "list_all (wants v) h" and "on_course v (proto_status st)"
  shows "done_within v st h \<or> on_course v (proto_status (foldl store st h)) \<and>
    distance v (proto_status (foldl store st h)) + k \<le> distance v (proto_status st)"
  using assms
proof (induction rule: attended.induct)
  case (other k h E ns n q r t)
  obtain es where es: "ks_hist t = h @ es" "updates_ok None es"
    using Reconcile_tracked [OF other.hyps(2)] by (auto simp: tracked_def)
  let ?st = "foldl store st h"
  have ok: "server_ok st h" "server_ok ?st es" "list_all (wants v) h" "list_all (wants v) es"
    using other.prems(1,2) by (simp_all add: es(1) server_ok_append)
  have here: "completed v (proto_status ?st) \<Longrightarrow> done_within v st h"
    unfolding done_within_def by (metis append_Nil2)
  from other.IH [OF ok(1,3) other.prems(3)] here show ?case
    using events_on_course [OF es(2) ok(2) _ ok(4)] done_within_append [of v st h es]
    by (fastforce simp: es(1) in_step_def)
next
  case (served k h E p ns n q r t)
  obtain es where es: "ks_hist t = h @ es" using Reconcile_tracked [OF served.hyps(4)] by (auto simp: tracked_def)
  let ?st = "foldl store st h" and ?st' = "foldl store (foldl store st h) es"
  have ok: "server_ok st h" "server_ok ?st es" "list_all (wants v) h" "list_all (wants v) es"
    using served.prems(1,2) by (simp_all add: es(1) server_ok_append)
  have here: "completed v (proto_status ?st) \<Longrightarrow> done_within v st h"
    and there: "completed v (proto_status ?st') \<Longrightarrow> done_within v st (h @ es)"
    unfolding done_within_def by (metis append_Nil2 foldl_append)+
  show ?case
  proof (cases "done_within v st h")
    case True
    then show ?thesis by (simp add: es done_within_append)
  next
    case False
    with here served.IH [OF ok(1,3) served.prems(3)] have now: "\<not> completed v (proto_status ?st)"
      "on_course v (proto_status ?st)" "distance v (proto_status ?st) + k \<le> distance v (proto_status st)" by auto
    have "proto_status ?st' = march v (proto_status ?st)"
      by (rule served_marches [OF served.hyps(2-4) _ ok(2,4) now(2,1)]) (simp add: es)
    with march_on_course [OF now(2,1)] now(3) there show ?thesis by (auto simp: es)
  qed
qed simp

text \<open>
  C5. The cluster converges. As long as the user asks for version \<open>v\<close> and the cluster can be
  brought there, whatever reconciles fail, wait or find the operator restarted: once as many
  reconciles as the status is away from the goal (at most eleven) have met a cluster that does
  its part, the cluster has been ready at version \<open>v\<close> with no upgrade pending. For a new instance
  one such reconcile is enough.
\<close>

theorem cluster_converges:
  assumes "attended k h" and "server_ok st h" and "list_all (wants v) h"
    and "on_course v (proto_status st)" and "distance v (proto_status st) \<le> k"
  shows "\<exists>h1 h2. h = h1 @ h2 \<and> (let st' = foldl store st h1 in st_state st' = StateReady \<and>
    st_version st' = v \<and> st_upgrade_version st' = 0)"
proof -
  from attended_progress [OF assms(1-4)] assms(5)
  have "done_within v st h \<or> completed v (proto_status (foldl store st h))"
    using completed_distance [of v "proto_status (foldl store st h)"] by linarith
  then have "done_within v st h" unfolding done_within_def by (metis append_Nil2)
  then show ?thesis by (simp add: done_within_def completed_def proto_status_def Let_def)
qed

text \<open>A server that does all that for the sample instance, and as many runs as are needed against it.\<close>

definition attending :: "patroni \<Rightarrow> event list \<Rightarrow> request \<Rightarrow> error + kobj" where
  "attending p h q = Inr (case q of
       RGet k _ n _ \<Rightarrow> (case k of
           ConfigMapKind \<Rightarrow> KConfigMap (helping_map n)
         | SecretKind \<Rightarrow> KSecret \<lparr>sec_meta = new_meta n, sec_data = [], sec_string_data = []\<rparr>
         | PVCKind \<Rightarrow> KPVC (new_pvc n sample_node)
         | ServiceAccountKind \<Rightarrow> KServiceAccount \<lparr>sa_meta = new_meta n, sa_rest = []\<rparr>
         | RoleKind \<Rightarrow> KRole \<lparr>role_meta = new_meta n, role_rules = []\<rparr>
         | RoleBindingKind \<Rightarrow> KRoleBinding \<lparr>rb_meta = new_meta n,
             rb_role_ref = \<lparr>rr_group = [], rr_kind = [], rr_name = []\<rparr>, rb_subjects = []\<rparr>
         | ServiceKind \<Rightarrow> KService (new_service n)
         | StatefulSetKind \<Rightarrow> KStatefulSet (new_statefulset n)
         | NetworkPolicyKind \<Rightarrow> KNetworkPolicy \<lparr>np_meta = new_meta n, np_pod_selector = [], np_ingress = []\<rparr>
         | PDBKind \<Rightarrow> KPDB \<lparr>pdb_meta = new_meta n, pdb_max_unavailable = None, pdb_selector = None\<rparr>
         | JobKind \<Rightarrow> KJob (helping_job n)
         | PatroniKind \<Rightarrow> KPatroni p)
     | RCreate x \<Rightarrow> x
     | RUpdate x \<Rightarrow> (case x of KStatefulSet y \<Rightarrow> KStatefulSet (y\<lparr>sts_ready := 2, sts_available := 0\<rparr>) | _ \<Rightarrow> x)
     | RPatch x _ \<Rightarrow> x
     | RListPVCs _ _ \<Rightarrow> KPVCList []
     | RListPods _ _ \<Rightarrow> KPodList [\<lparr>pod_namespace = ''ns'', pod_name = ''pod''\<rparr>]
     | RReadLogs _ _ _ \<Rightarrow> KBytes ''{}''
     | RStatusUpdate p' \<Rightarrow> KPatroni p'
     | _ \<Rightarrow> KBytes [])"

lemma attending_serves: "serving (sample_env (attending (sample v st))) (sample v st)"
proof -
  let ?p = "sample v st"
  let ?E = "sample_env (attending ?p)"
  have map: "good_map ?E ?p n (helping_map m)" for n m
    using helping_texts by (simp add: good_map_def helping_map_def annotation_def cm_keys sample_env_def)
  have nodes: "length (pp_nodes ?p) = 2" by (simp add: sample_defs)
  have log: "good_log ?p ''{}''" using helping_texts by (simp add: good_log_def)
  have good: "good_answer ?E ?p q (case attending ?p h q of Inr x \<Rightarrow> x)" for h q
    by (cases q) (auto simp: good_answer_def attending_def map log scaled_def helping_job_def new_job_def nodes
        split: kobj.splits)
  have "\<exists>x. ke_api ?E h q = Inr x \<and> good_answer ?E ?p q x" for h q
    using good [of q h] by (simp add: sample_env_def attending_def)
  moreover have "granted q (attending ?p h q)" for h q
    by (cases q) (auto simp: granted_def attending_def split: kind.splits kobj.splits)
  ultimately show ?thesis
    unfolding serving_def helpful_def granting_def using nodes by (simp add: sample_env_def attending_def)
qed

fun attended_run :: "int \<Rightarrow> nat \<Rightarrow> pp_status \<Rightarrow> event list" where
  "attended_run v 0 st = []"
| "attended_run v (Suc k) st = (let h = attended_run v k st; p = sample v (foldl store st h) in
     ks_hist (snd (Reconcile (sample_env (attending p)) ''ns'' ''db'' \<lparr>ks_inst = p, ks_hist = h\<rparr>)))"

lemma march_iterated:
  assumes "on_course v a" and "k < distance v a"
  shows "on_course v ((march v ^^ k) a) \<and> distance v ((march v ^^ k) a) + k = distance v a"
  using assms(2)
proof (induction k)
  case (Suc k)
  then have now: "on_course v ((march v ^^ k) a)" "distance v ((march v ^^ k) a) + k = distance v a" by simp_all
  with Suc.prems have "1 < distance v ((march v ^^ k) a)" by simp
  moreover from this have "\<not> completed v ((march v ^^ k) a)"
    using completed_distance [OF now(1)] by auto
  ultimately show ?case using march_on_course [OF now(1)] now by fastforce
qed (simp add: assms)

text \<open>What a served reconcile of the sample instance against that server adds to the history.\<close>

lemma acknowledged_wants:
  assumes "updates_ok None ((RGet PatroniKind ns n None, Inr (KPatroni p)) # es @ fs @ [acknowledged u])"
    and "es = [] \<or> (\<exists>q. es = [acknowledged q])" and "list_all (\<lambda>ev. foreign (fst ev)) fs"
    and "spec_version (pp_spec_of p) = v"
  shows "list_all (wants v) ((RGet PatroniKind ns n None, Inr (KPatroni p)) # es @ fs @ [acknowledged u])"
proof -
  have "list_all (wants v) fs"
    using assms(3) by (auto simp: list_all_iff wants_def foreign_seen)
  then show ?thesis
    using assms foreign_events [OF assms(3)]
    by (auto simp: updates_ok_append wants_def seen_def update_ok_def identity_def)
qed

lemma acknowledged_ok:
  assumes "es = [] \<or> (\<exists>q. es = [acknowledged q])" and "list_all (\<lambda>ev. foreign (fst ev)) fs"
  shows "server_ok (pp_status_of p) ((RGet PatroniKind ns n None, Inr (KPatroni p)) # es @ fs @ [acknowledged u])"
  using assms server_ok_foreign [OF assms(2)] by (auto simp: server_ok_append answer_ok_def)

lemma attended_run_ok:
  assumes "on_course v (proto_status st)" and "k \<le> distance v (proto_status st)"
  shows "attended k (attended_run v k st) \<and> server_ok st (attended_run v k st) \<and> list_all (wants v) (attended_run v k st) \<and>
    proto_status (foldl store st (attended_run v k st)) = (march v ^^ k) (proto_status st)"
  using assms(2)
proof (induction k)
  case (Suc k)
  let ?h = "attended_run v k st"
  let ?p = "sample v (foldl store st ?h)"
  let ?E = "sample_env (attending ?p)"
  have IH: "attended k ?h" "server_ok st ?h" "list_all (wants v) ?h" "proto_of ?p = (march v ^^ k) (proto_status st)"
    using Suc by (simp_all add: sample_def)
  have on: "on_course v (proto_of ?p)" "distance v (proto_of ?p) \<noteq> 0"
    using march_iterated [OF assms(1), of k] Suc.prems IH(4) by auto
  then have short: "\<not> completed v (proto_of ?p)" using completed_distance [OF on(1)] by simp
  have kept: "\<not> spec_ignore (pp_spec_of ?p)" "spec_version (pp_spec_of ?p) = v" by (simp_all add: sample_defs)
  obtain r t where run: "Reconcile ?E ''ns'' ''db'' \<lparr>ks_inst = ?p, ks_hist = ?h\<rparr> = (r, t)" by fastforce
  obtain es fs u where t: "ks_hist t = ks_hist \<lparr>ks_inst = ?p, ks_hist = ?h\<rparr> @
      (RGet PatroniKind ''ns'' ''db'' None, Inr (KPatroni ?p)) # es @ fs @ [acknowledged u]"
    and shape: "es = [] \<or> (\<exists>q. es = [acknowledged q])" "list_all (\<lambda>ev. foreign (fst ev)) fs"
    and u: "proto_of u = march v (proto_of ?p)"
    by (rule served_run [OF attending_serves kept on(1) short run])
  let ?es = "(RGet PatroniKind ''ns'' ''db'' None, Inr (KPatroni ?p)) # es @ fs @ [acknowledged u]"
  have "updates_ok None ?es" using Reconcile_tracked [OF run] t by (auto simp: tracked_def)
  from acknowledged_wants [OF this shape kept(2)] have "list_all (wants v) ?es" .
  moreover have "server_ok (foldl store st ?h) ?es"
    using acknowledged_ok [OF shape, of ?p "''ns''" "''db''" u] by (simp add: sample_def)
  moreover have "foldl store (foldl store st ?h) ?es = pp_status_of u"
    using acknowledged_store [OF shape(1)] by simp
  moreover have "attended_run v (Suc k) st = ?h @ ?es" using run t by (simp add: Let_def)
  moreover have "attended (Suc k) (ks_hist t)" by (rule attended.served [OF IH(1) attending_serves kept(1) run])
  ultimately show ?case
    using IH u t by (simp add: server_ok_append)
qed (simp_all add: attended.start)

text \<open>A cluster that scales at version 13 and is asked for 15.\<close>

lemma cluster_converges_witness:
  "let st = sample_status StateScaling 13 0 []; h = attended_run 15 11 st in
   attended 11 h \<and> server_ok st h \<and> list_all (wants 15) h \<and>
   (\<exists>h1 h2. h = h1 @ h2 \<and> (let st' = foldl store st h1 in st_state st' = StateReady \<and>
     st_version st' = 15 \<and> st_upgrade_version st' = 0))"
proof -
  let ?st = "sample_status StateScaling 13 0 []"
  have on: "on_course 15 (proto_status ?st)" "distance 15 (proto_status ?st) = 11"
    by (simp_all add: sample_status_def proto_status_def on_course_def proto_inv_def supported_iff distance_def
        offers_of_def GetImage_simps image_UpgradeVersions_def images_def)
  note run = attended_run_ok [OF on(1), of 11, unfolded on(2), simplified]
  from run cluster_converges [OF _ _ _ on(1), of 11 "attended_run 15 11 ?st", unfolded on(2)]
  show ?thesis by (simp only: Let_def simp_thms)
qed

end
