(* ===== verification/Deepcopy.thy ===== *)
theory Deepcopy
  imports Api_Types "HOL-Library.Multiset"
begin

section \<open>Deep copies: \<open>api/v1alpha1/zz_generated.deepcopy.go\<close>\<close>

text \<open>
  The caches of the client library hand out objects that must not be written to, so copies of
  them must share no memory with them. Elsewhere in the model a value is a value; here the
  objects are what they are in memory: structs that refer to arrays, maps and other structs on
  a heap. A heap is the list of its cells, an address an index, and allocation appends.
\<close>

subsection \<open>Objects in memory\<close>

type_synonym addr = nat

text \<open>A slice is a window of an array; \<open>nil\<close> is \<open>None\<close>, as for maps and pointers.\<close>

record slice =
  sl_arr :: addr
  sl_off :: nat
  sl_len :: nat

text \<open>
  Structs of the Kubernetes libraries (quantities, tolerations, containers, metadata and the
  like) are of a type \<open>'l\<close> the model does not look into.
\<close>

record 'l mem_volume =
  mv_ClaimName :: string
  mv_Phase :: string
  mv_Capacity :: 'l

record 'l mem_spec =
  ms_Ignore :: bool
  ms_Version :: int
  ms_Nodes :: "slice option"
  ms_VolumeSize :: 'l
  ms_ServiceType :: string
  ms_Annotations :: "addr option"
  ms_PodAntiAffinityTopologyKey :: string
  ms_ImagePullSecrets :: "slice option"
  ms_NodeSelector :: "addr option"
  ms_Affinity :: "addr option"
  ms_Tolerations :: "slice option"
  ms_Resources :: 'l
  ms_ExtraContainers :: "slice option"
  ms_AccessControl :: "slice option"
  ms_AdditionalNetworkPolicyIngress :: "slice option"

record mem_status =
  mt_VolumeStatuses :: "slice option"
  mt_Ready :: int32
  mt_Version :: int
  mt_State :: pg_state
  mt_UpgradeVersion :: int
  mt_UpgradeVersions :: "slice option"

record 'l mem_patroni =
  mp_TypeMeta :: "string \<times> string"
  mp_ObjectMeta :: 'l
  mp_Spec :: "'l mem_spec"
  mp_Status :: mem_status

record 'l mem_list =
  ml_TypeMeta :: "string \<times> string"
  ml_ListMeta :: 'l
  ml_Items :: "slice option"

text \<open>Cells: arrays by the type of their elements, maps, and structs a pointer refers to.\<close>

datatype 'l cell =
    Nodes "node list"
  | Volumes "'l mem_volume list"
  | Ints "int list"
  | References "string list"
  | Structs "'l list"
  | Items "'l mem_patroni list"
  | StringMap string_map
  | Struct 'l
  | Foreign string "addr list"

type_synonym 'l heap = "'l cell list"

record ('a, 'l) array =
  ar_mk :: "'a list \<Rightarrow> 'l cell"
  ar_un :: "'l cell \<Rightarrow> 'a list option"
  ar_zero :: 'a

definition array_ok :: "('a, 'l) array \<Rightarrow> bool" where
  "array_ok T \<longleftrightarrow> (\<forall>xs. ar_un T (ar_mk T xs) = Some xs)"

definition elems :: "('a, 'l) array \<Rightarrow> 'l heap \<Rightarrow> slice \<Rightarrow> 'a list" where
  "elems T h s = (case ar_un T (h ! sl_arr s) of
       None \<Rightarrow> [] | Some xs \<Rightarrow> take (sl_len s) (drop (sl_off s) xs))"

subsection \<open>What Go's statements do\<close>

text \<open>\<open>make\<close> of a slice, and a write to one element of it.\<close>

definition make_slice :: "('a, 'l) array \<Rightarrow> nat \<Rightarrow> 'l heap \<Rightarrow> slice \<times> 'l heap" where
  "make_slice T n h = (\<lparr>sl_arr = length h, sl_off = 0, sl_len = n\<rparr>, h @ [ar_mk T (replicate n (ar_zero T))])"

definition write_elem :: "('a, 'l) array \<Rightarrow> slice \<Rightarrow> nat \<Rightarrow> 'a \<Rightarrow> 'l heap \<Rightarrow> 'l heap" where
  "write_elem T s i y h = (case ar_un T (h ! sl_arr s) of
       None \<Rightarrow> h | Some xs \<Rightarrow> h[sl_arr s := ar_mk T (xs[sl_off s + i := y])])"

text \<open>The built-in \<open>copy\<close>, and the loop that copies element by element.\<close>

definition go_copy :: "('a, 'l) array \<Rightarrow> slice \<Rightarrow> slice \<Rightarrow> 'l heap \<Rightarrow> 'l heap" where
  "go_copy T out s h = foldl (\<lambda>h (i, x). write_elem T out i x h) h
     (enumerate 0 (take (sl_len out) (elems T h s)))"

fun copy_loop ::
  "('a, 'l) array \<Rightarrow> ('a \<Rightarrow> 'l heap \<Rightarrow> 'a \<times> 'l heap) \<Rightarrow> slice \<Rightarrow> slice \<Rightarrow> nat list \<Rightarrow> 'l heap \<Rightarrow> 'l heap"
where
  "copy_loop T cp out s [] h = h"
| "copy_loop T cp out s (i # is) h =
     (let (y, h') = cp (elems T h s ! i) h in copy_loop T cp out s is (write_elem T out i y h'))"

definition copy_flat_slice :: "('a, 'l) array \<Rightarrow> slice option \<Rightarrow> 'l heap \<Rightarrow> slice option \<times> 'l heap" where
  "copy_flat_slice T x h = (case x of
       None \<Rightarrow> (None, h)
     | Some s \<Rightarrow> (let (out, h) = make_slice T (sl_len s) h in (Some out, go_copy T out s h)))"

definition copy_slice ::
  "('a, 'l) array \<Rightarrow> ('a \<Rightarrow> 'l heap \<Rightarrow> 'a \<times> 'l heap) \<Rightarrow> slice option \<Rightarrow> 'l heap \<Rightarrow> slice option \<times> 'l heap"
where
  "copy_slice T cp x h = (case x of
       None \<Rightarrow> (None, h)
     | Some s \<Rightarrow> (let (out, h) = make_slice T (sl_len s) h in
         (Some out, copy_loop T cp out s [0..<sl_len s] h)))"

fun the_map :: "'l cell \<Rightarrow> string_map" where
  "the_map (StringMap m) = m"
| "the_map _ = []"

text \<open>A map is visited in an order the language does not fix; \<open>ord\<close> chooses it.\<close>

definition copy_map :: "(string_map \<Rightarrow> string_map) \<Rightarrow> addr option \<Rightarrow> 'l heap \<Rightarrow> addr option \<times> 'l heap" where
  "copy_map ord x h = (case x of
       None \<Rightarrow> (None, h)
     | Some a \<Rightarrow> (let out = length h; h = h @ [StringMap []] in
         (Some out, foldl (\<lambda>h (k, v). h[out := StringMap (map_set k v (the_map (h ! out)))]) h
            (ord (the_map (h ! a))))))"

text \<open>A pointer to a library struct: \<open>new\<close>, and the library's \<open>DeepCopyInto\<close> into it.\<close>

definition copy_pointer ::
  "'l \<Rightarrow> ('l \<Rightarrow> 'l heap \<Rightarrow> 'l \<times> 'l heap) \<Rightarrow> addr option \<Rightarrow> 'l heap \<Rightarrow> addr option \<times> 'l heap"
where
  "copy_pointer zero cp x h = (case x of
       None \<Rightarrow> (None, h)
     | Some a \<Rightarrow> (let out = length h; (y, h) = cp (case h ! a of Struct v \<Rightarrow> v | _ \<Rightarrow> zero) (h @ [Struct zero])
         in (Some out, h[out := Struct y])))"

subsection \<open>The generated functions\<close>

text \<open>What the libraries supply, for all their types: the zero struct, \<open>DeepCopyInto\<close>, map order.\<close>

record 'l klib =
  kl_zero :: 'l
  kl_copy :: "'l \<Rightarrow> 'l heap \<Rightarrow> 'l \<times> 'l heap"
  kl_order :: "string_map \<Rightarrow> string_map"

definition nodes_array :: "(node, 'l) array" where
  "nodes_array = \<lparr>ar_mk = Nodes, ar_un = (\<lambda>c. case c of Nodes xs \<Rightarrow> Some xs | _ \<Rightarrow> None),
     ar_zero = \<lparr>nd_storage_class = [], nd_access_mode = [], nd_tags = \<lparr>nt_nosync = False, nt_nofailover = False\<rparr>\<rparr>\<rparr>"

definition volumes_array :: "'l klib \<Rightarrow> ('l mem_volume, 'l) array" where
  "volumes_array L = \<lparr>ar_mk = Volumes, ar_un = (\<lambda>c. case c of Volumes xs \<Rightarrow> Some xs | _ \<Rightarrow> None),
     ar_zero = \<lparr>mv_ClaimName = [], mv_Phase = [], mv_Capacity = kl_zero L\<rparr>\<rparr>"

definition ints_array :: "(int, 'l) array" where
  "ints_array = \<lparr>ar_mk = Ints, ar_un = (\<lambda>c. case c of Ints xs \<Rightarrow> Some xs | _ \<Rightarrow> None), ar_zero = 0\<rparr>"

definition references_array :: "(string, 'l) array" where
  "references_array = \<lparr>ar_mk = References, ar_un = (\<lambda>c. case c of References xs \<Rightarrow> Some xs | _ \<Rightarrow> None), ar_zero = []\<rparr>"

definition structs_array :: "'l klib \<Rightarrow> ('l, 'l) array" where
  "structs_array L = \<lparr>ar_mk = Structs, ar_un = (\<lambda>c. case c of Structs xs \<Rightarrow> Some xs | _ \<Rightarrow> None), ar_zero = kl_zero L\<rparr>"

definition NodeTags_DeepCopyInto :: "node_tags \<Rightarrow> 'l heap \<Rightarrow> node_tags \<times> 'l heap" where
  "NodeTags_DeepCopyInto x h = (x, h)"

definition Node_DeepCopyInto :: "node \<Rightarrow> 'l heap \<Rightarrow> node \<times> 'l heap" where
  "Node_DeepCopyInto x h = (let out = x in (out\<lparr>nd_tags := nd_tags x\<rparr>, h))"

definition VolumeStatus_DeepCopyInto :: "'l klib \<Rightarrow> 'l mem_volume \<Rightarrow> 'l heap \<Rightarrow> 'l mem_volume \<times> 'l heap" where
  "VolumeStatus_DeepCopyInto L x h =
     (let out = x; (q, h) = kl_copy L (mv_Capacity x) h in (out\<lparr>mv_Capacity := q\<rparr>, h))"

definition PatroniPostgresStatus_DeepCopyInto :: "'l klib \<Rightarrow> mem_status \<Rightarrow> 'l heap \<Rightarrow> mem_status \<times> 'l heap" where
  "PatroniPostgresStatus_DeepCopyInto L x h =
     (let out = x;
          (v, h) = copy_slice (volumes_array L) (VolumeStatus_DeepCopyInto L) (mt_VolumeStatuses x) h;
          out = out\<lparr>mt_VolumeStatuses := v\<rparr>;
          (u, h) = copy_flat_slice ints_array (mt_UpgradeVersions x) h
      in (out\<lparr>mt_UpgradeVersions := u\<rparr>, h))"

definition PatroniPostgresSpec_DeepCopyInto :: "'l klib \<Rightarrow> 'l mem_spec \<Rightarrow> 'l heap \<Rightarrow> 'l mem_spec \<times> 'l heap" where
  "PatroniPostgresSpec_DeepCopyInto L x h =
     (let out = x;
          (v, h) = copy_flat_slice nodes_array (ms_Nodes x) h; out = out\<lparr>ms_Nodes := v\<rparr>;
          (v, h) = kl_copy L (ms_VolumeSize x) h; out = out\<lparr>ms_VolumeSize := v\<rparr>;
          (v, h) = copy_map (kl_order L) (ms_Annotations x) h; out = out\<lparr>ms_Annotations := v\<rparr>;
          (v, h) = copy_flat_slice references_array (ms_ImagePullSecrets x) h; out = out\<lparr>ms_ImagePullSecrets := v\<rparr>;
          (v, h) = copy_map (kl_order L) (ms_NodeSelector x) h; out = out\<lparr>ms_NodeSelector := v\<rparr>;
          (v, h) = copy_pointer (kl_zero L) (kl_copy L) (ms_Affinity x) h; out = out\<lparr>ms_Affinity := v\<rparr>;
          (v, h) = copy_slice (structs_array L) (kl_copy L) (ms_Tolerations x) h; out = out\<lparr>ms_Tolerations := v\<rparr>;
          (v, h) = kl_copy L (ms_Resources x) h; out = out\<lparr>ms_Resources := v\<rparr>;
          (v, h) = copy_slice (structs_array L) (kl_copy L) (ms_ExtraContainers x) h; out = out\<lparr>ms_ExtraContainers := v\<rparr>;
          (v, h) = copy_slice (structs_array L) (kl_copy L) (ms_AccessControl x) h; out = out\<lparr>ms_AccessControl := v\<rparr>;
          (v, h) = copy_slice (structs_array L) (kl_copy L) (ms_AdditionalNetworkPolicyIngress x) h;
          out = out\<lparr>ms_AdditionalNetworkPolicyIngress := v\<rparr>
      in (out, h))"

definition PatroniPostgres_DeepCopyInto :: "'l klib \<Rightarrow> 'l mem_patroni \<Rightarrow> 'l heap \<Rightarrow> 'l mem_patroni \<times> 'l heap" where
  "PatroniPostgres_DeepCopyInto L x h =
     (let out = x; out = out\<lparr>mp_TypeMeta := mp_TypeMeta x\<rparr>;
          (v, h) = kl_copy L (mp_ObjectMeta x) h; out = out\<lparr>mp_ObjectMeta := v\<rparr>;
          (v, h) = PatroniPostgresSpec_DeepCopyInto L (mp_Spec x) h; out = out\<lparr>mp_Spec := v\<rparr>;
          (v, h) = PatroniPostgresStatus_DeepCopyInto L (mp_Status x) h; out = out\<lparr>mp_Status := v\<rparr>
      in (out, h))"

definition items_array :: "'l klib \<Rightarrow> ('l mem_patroni, 'l) array" where
  "items_array L = \<lparr>ar_mk = Items, ar_un = (\<lambda>c. case c of Items xs \<Rightarrow> Some xs | _ \<Rightarrow> None),
     ar_zero = \<lparr>mp_TypeMeta = ([], []), mp_ObjectMeta = kl_zero L,
       mp_Spec = \<lparr>ms_Ignore = False, ms_Version = 0, ms_Nodes = None, ms_VolumeSize = kl_zero L,
         ms_ServiceType = [], ms_Annotations = None, ms_PodAntiAffinityTopologyKey = [],
         ms_ImagePullSecrets = None, ms_NodeSelector = None, ms_Affinity = None, ms_Tolerations = None,
         ms_Resources = kl_zero L, ms_ExtraContainers = None, ms_AccessControl = None,
         ms_AdditionalNetworkPolicyIngress = None\<rparr>,
       mp_Status = \<lparr>mt_VolumeStatuses = None, mt_Ready = 0, mt_Version = 0, mt_State = StateUnset,
         mt_UpgradeVersion = 0, mt_UpgradeVersions = None\<rparr>\<rparr>\<rparr>"

definition PatroniPostgresList_DeepCopyInto :: "'l klib \<Rightarrow> 'l mem_list \<Rightarrow> 'l heap \<Rightarrow> 'l mem_list \<times> 'l heap" where
  "PatroniPostgresList_DeepCopyInto L x h =
     (let out = x; out = out\<lparr>ml_TypeMeta := ml_TypeMeta x\<rparr>;
          (v, h) = kl_copy L (ml_ListMeta x) h; out = out\<lparr>ml_ListMeta := v\<rparr>;
          (v, h) = copy_slice (items_array L) (PatroniPostgres_DeepCopyInto L) (ml_Items x) h;
          out = out\<lparr>ml_Items := v\<rparr>
      in (out, h))"

text \<open>\<open>DeepCopy\<close> of each type: nothing for \<open>nil\<close>, otherwise a copy into a new struct.\<close>

definition DeepCopy :: "('a \<Rightarrow> 'l heap \<Rightarrow> 'a \<times> 'l heap) \<Rightarrow> 'a option \<Rightarrow> 'l heap \<Rightarrow> 'a option \<times> 'l heap" where
  "DeepCopy into x h = (case x of None \<Rightarrow> (None, h) | Some v \<Rightarrow> (let (out, h) = into v h in (Some out, h)))"

definition NodeTags_DeepCopy :: "node_tags option \<Rightarrow> 'l heap \<Rightarrow> node_tags option \<times> 'l heap" where
  "NodeTags_DeepCopy = DeepCopy NodeTags_DeepCopyInto"

definition Node_DeepCopy :: "node option \<Rightarrow> 'l heap \<Rightarrow> node option \<times> 'l heap" where
  "Node_DeepCopy = DeepCopy Node_DeepCopyInto"

definition VolumeStatus_DeepCopy ::
  "'l klib \<Rightarrow> 'l mem_volume option \<Rightarrow> 'l heap \<Rightarrow> 'l mem_volume option \<times> 'l heap" where
  "VolumeStatus_DeepCopy L = DeepCopy (VolumeStatus_DeepCopyInto L)"

definition PatroniPostgresStatus_DeepCopy ::
  "'l klib \<Rightarrow> mem_status option \<Rightarrow> 'l heap \<Rightarrow> mem_status option \<times> 'l heap" where
  "PatroniPostgresStatus_DeepCopy L = DeepCopy (PatroniPostgresStatus_DeepCopyInto L)"

definition PatroniPostgresSpec_DeepCopy ::
  "'l klib \<Rightarrow> 'l mem_spec option \<Rightarrow> 'l heap \<Rightarrow> 'l mem_spec option \<times> 'l heap" where
  "PatroniPostgresSpec_DeepCopy L = DeepCopy (PatroniPostgresSpec_DeepCopyInto L)"

definition PatroniPostgres_DeepCopy ::
  "'l klib \<Rightarrow> 'l mem_patroni option \<Rightarrow> 'l heap \<Rightarrow> 'l mem_patroni option \<times> 'l heap" where
  "PatroniPostgres_DeepCopy L = DeepCopy (PatroniPostgres_DeepCopyInto L)"

definition PatroniPostgresList_DeepCopy ::
  "'l klib \<Rightarrow> 'l mem_list option \<Rightarrow> 'l heap \<Rightarrow> 'l mem_list option \<times> 'l heap" where
  "PatroniPostgresList_DeepCopy L = DeepCopy (PatroniPostgresList_DeepCopyInto L)"

text \<open>
  \<open>DeepCopyObject\<close> returns an interface: \<open>nil\<close>, and not an interface that holds a \<open>nil\<close> pointer,
  if there is nothing to copy.
\<close>

definition PatroniPostgres_DeepCopyObject ::
  "'l klib \<Rightarrow> 'l mem_patroni option \<Rightarrow> 'l heap \<Rightarrow> 'l mem_patroni option \<times> 'l heap" where
  "PatroniPostgres_DeepCopyObject L x h = (case PatroniPostgres_DeepCopy L x h of
       (Some c, h) \<Rightarrow> (Some c, h) | (None, h) \<Rightarrow> (None, h))"

definition PatroniPostgresList_DeepCopyObject ::
  "'l klib \<Rightarrow> 'l mem_list option \<Rightarrow> 'l heap \<Rightarrow> 'l mem_list option \<times> 'l heap" where
  "PatroniPostgresList_DeepCopyObject L x h = (case PatroniPostgresList_DeepCopy L x h of
       (Some c, h) \<Rightarrow> (Some c, h) | (None, h) \<Rightarrow> (None, h))"

subsection \<open>The contract of a deep copy\<close>

text \<open>
  For the values of a type: which of them make sense on a heap, the cells they reach, and what
  they read as. Reading depends on the cells reached only. A copy allocates, changes no cell
  that was there, reaches only cells it has allocated, and reads as the original does.
\<close>

locale deep_copy =
  fixes cp :: "'a \<Rightarrow> 'l heap \<Rightarrow> 'a \<times> 'l heap"
    and valid :: "'l heap \<Rightarrow> 'a \<Rightarrow> bool"
    and reach :: "'l heap \<Rightarrow> 'a \<Rightarrow> addr set"
    and view :: "'l heap \<Rightarrow> 'a \<Rightarrow> 'v"
  assumes reach_bound: "valid h x \<Longrightarrow> reach h x \<subseteq> {..<length h}"
    and reach_frame: "valid h x \<Longrightarrow> length h \<le> length h' \<Longrightarrow> (\<And>a. a \<in> reach h x \<Longrightarrow> h' ! a = h ! a) \<Longrightarrow>
      valid h' x \<and> reach h' x = reach h x \<and> view h' x = view h x"
    and copied: "valid h x \<Longrightarrow> cp x h = (y, h') \<Longrightarrow>
      \<exists>e. h' = h @ e \<and> valid h' y \<and> reach h' y \<subseteq> {length h..<length h'} \<and> view h' y = view h x"
begin

lemma grown:
  assumes "valid h x"
  shows "valid (h @ e) x" "reach (h @ e) x = reach h x" "view (h @ e) x = view h x"
proof -
  have "(h @ e) ! a = h ! a" if "a \<in> reach h x" for a
    using that reach_bound [OF assms] by (auto simp: nth_append)
  with reach_frame [OF assms, of "h @ e"] show "valid (h @ e) x" "reach (h @ e) x = reach h x" "view (h @ e) x = view h x"
    by simp_all
qed

lemma copied_grown:
  assumes "valid h x" and "cp x h = (y, h')"
  shows "valid (h' @ e) y" "reach (h' @ e) y \<subseteq> {length h..<length h'}" "view (h' @ e) y = view h x"
  using copied [OF assms] grown [of h' y e] by auto

end


subsection \<open>Composition\<close>

text \<open>Two parts copied one after the other.\<close>

definition copy_both where
  "copy_both cp1 cp2 = (\<lambda>(x, y) h. let (x', h) = cp1 x h; (y', h) = cp2 y h in ((x', y'), h))"

definition valid_both where
  "valid_both V1 V2 = (\<lambda>h (x, y). V1 h x \<and> V2 h y)"

definition reach_both where
  "reach_both R1 R2 = (\<lambda>h (x, y). R1 h x \<union> R2 h y)"

definition view_both where
  "view_both W1 W2 = (\<lambda>h (x, y). (W1 h x, W2 h y))"

lemma deep_copy_both:
  assumes "deep_copy cp1 V1 R1 W1" and "deep_copy cp2 V2 R2 W2"
  shows "deep_copy (copy_both cp1 cp2) (valid_both V1 V2) (reach_both R1 R2) (view_both W1 W2)"
proof
  fix h x assume "valid_both V1 V2 h x"
  then show "reach_both R1 R2 h x \<subseteq> {..<length h}"
    using deep_copy.reach_bound [OF assms(1)] deep_copy.reach_bound [OF assms(2)]
    by (auto simp: valid_both_def reach_both_def split: prod.splits)
next
  fix h x h' assume x: "valid_both V1 V2 h x" "length h \<le> length h'"
    and same: "\<And>a. a \<in> reach_both R1 R2 h x \<Longrightarrow> h' ! a = h ! a"
  obtain x1 x2 where [simp]: "x = (x1, x2)" by (cases x)
  have "V1 h' x1 \<and> R1 h' x1 = R1 h x1 \<and> W1 h' x1 = W1 h x1"
    by (rule deep_copy.reach_frame [OF assms(1) _ x(2)]) (use x same in \<open>auto simp: valid_both_def reach_both_def\<close>)
  moreover have "V2 h' x2 \<and> R2 h' x2 = R2 h x2 \<and> W2 h' x2 = W2 h x2"
    by (rule deep_copy.reach_frame [OF assms(2) _ x(2)]) (use x same in \<open>auto simp: valid_both_def reach_both_def\<close>)
  ultimately show "valid_both V1 V2 h' x \<and> reach_both R1 R2 h' x = reach_both R1 R2 h x \<and>
      view_both W1 W2 h' x = view_both W1 W2 h x"
    by (simp add: valid_both_def reach_both_def view_both_def)
next
  fix h x y h' assume x: "valid_both V1 V2 h x" and run: "copy_both cp1 cp2 x h = (y, h')"
  obtain x1 x2 where [simp]: "x = (x1, x2)" by (cases x)
  from run obtain y1 y2 h1 where [simp]: "y = (y1, y2)" and r: "cp1 x1 h = (y1, h1)" "cp2 x2 h1 = (y2, h')"
    by (auto simp: copy_both_def split: prod.splits)
  from x have v: "V1 h x1" "V2 h x2" by (simp_all add: valid_both_def)
  from deep_copy.copied [OF assms(1) v(1) r(1)] obtain e1 where h1: "h1 = h @ e1" by blast
  note v2 = deep_copy.grown [OF assms(2) v(2), of e1, folded h1]
  from deep_copy.copied [OF assms(2) v2(1) r(2)] v2(3) obtain e2 where h2: "h' = h1 @ e2" "V2 h' y2"
    "R2 h' y2 \<subseteq> {length h1..<length h'}" "W2 h' y2 = W2 h x2" by auto
  from deep_copy.copied_grown [OF assms(1) v(1) r(1), of e2] h1 h2
  show "\<exists>e. h' = h @ e \<and> valid_both V1 V2 h' y \<and> reach_both R1 R2 h' y \<subseteq> {length h..<length h'} \<and>
      view_both W1 W2 h' y = view_both W1 W2 h x"
    by (fastforce simp: valid_both_def reach_both_def view_both_def)
qed

text \<open>
  A struct whose other fields are copied by the assignment \<open>*out = *in\<close>: \<open>parts\<close> are the fields
  that have to be copied deeply, \<open>put\<close> writes them, \<open>rest\<close> are the others.
\<close>

lemma deep_copy_struct:
  assumes "deep_copy cp V R W"
    and "\<And>x y. parts (put x y) = y" and "\<And>x y. rest (put x y) = rest x"
    and "\<And>x h. into x h = (let (y, h') = cp (parts x) h in (put x y, h'))"
  shows "deep_copy into (\<lambda>h x. V h (parts x)) (\<lambda>h x. R h (parts x)) (\<lambda>h x. (rest x, W h (parts x)))"
proof
  fix h x assume "V h (parts x)"
  then show "R h (parts x) \<subseteq> {..<length h}" by (rule deep_copy.reach_bound [OF assms(1)])
next
  fix h x h' assume "V h (parts x)" "length h \<le> length h'" "\<And>a. a \<in> R h (parts x) \<Longrightarrow> h' ! a = h ! a"
  from deep_copy.reach_frame [OF assms(1) this] show "V h' (parts x) \<and> R h' (parts x) = R h (parts x) \<and>
      (rest x, W h' (parts x)) = (rest x, W h (parts x))" by simp
next
  fix h x y h' assume x: "V h (parts x)" and run: "into x h = (y, h')"
  then obtain z where "cp (parts x) h = (z, h')" and [simp]: "y = put x z"
    by (auto simp: assms(4) split: prod.splits)
  from deep_copy.copied [OF assms(1) x this(1)] show "\<exists>e. h' = h @ e \<and> V h' (parts y) \<and>
      R h' (parts y) \<subseteq> {length h..<length h'} \<and> (rest y, W h' (parts y)) = (rest x, W h (parts x))"
    by (simp add: assms(2,3))
qed

text \<open>A type without pointers.\<close>

lemma deep_copy_flat:
  assumes "\<And>x h. into x h = (x, h)"
  shows "deep_copy into (\<lambda>h x. True) (\<lambda>h x. {}) (\<lambda>h x. x)"
  by unfold_locales (auto simp: assms)

subsection \<open>Slices\<close>

definition valid_slice where
  "valid_slice T V h x = (case x of None \<Rightarrow> True | Some s \<Rightarrow> sl_arr s < length h \<and>
     (\<exists>xs. ar_un T (h ! sl_arr s) = Some xs \<and> sl_off s + sl_len s \<le> length xs) \<and>
     (\<forall>x \<in> set (elems T h s). V h x))"

definition reach_slice where
  "reach_slice T R h x = (case x of None \<Rightarrow> {} | Some s \<Rightarrow> insert (sl_arr s) (\<Union>x \<in> set (elems T h s). R h x))"

definition view_slice where
  "view_slice T W h x = map_option (\<lambda>s. map (W h) (elems T h s)) x"

lemma elems_grown: "sl_arr s < length h \<Longrightarrow> elems T (h @ e) s = elems T h s"
  by (simp add: elems_def nth_append)

lemma elems_length: "valid_slice T V h (Some s) \<Longrightarrow> length (elems T h s) = sl_len s"
  by (auto simp: valid_slice_def elems_def)

lemma elems_new:
  "array_ok T \<Longrightarrow> elems T (h @ ar_mk T ys # e) \<lparr>sl_arr = length h, sl_off = 0, sl_len = length ys\<rparr> = ys"
  by (simp add: elems_def array_ok_def)

lemma write_new:
  "array_ok T \<Longrightarrow> write_elem T \<lparr>sl_arr = length h, sl_off = 0, sl_len = n\<rparr> i y (h @ ar_mk T ys # e) =
     h @ ar_mk T (ys[i := y]) # e"
  by (simp add: write_elem_def array_ok_def)

text \<open>Copied elements: each reads as its original and lies behind the array it has been put into.\<close>

definition copies_of where
  "copies_of V R W h0 h ys xs \<longleftrightarrow> list_all2 (\<lambda>y x. V h y \<and> R h y \<subseteq> {Suc (length h0)..<length h} \<and> W h y = W h0 x) ys xs"

context deep_copy
begin

lemma copies_of_frame:
  assumes "copies_of valid reach view h0 h ys xs" and "length h \<le> length h'"
    and "\<And>a. Suc (length h0) \<le> a \<Longrightarrow> a < length h \<Longrightarrow> h' ! a = h ! a"
  shows "copies_of valid reach view h0 h' ys xs"
  using assms(1) unfolding copies_of_def
proof (rule list_all2_mono)
  fix y x assume y: "valid h y \<and> reach h y \<subseteq> {Suc (length h0)..<length h} \<and> view h y = view h0 x"
  then have "valid h' y \<and> reach h' y = reach h y \<and> view h' y = view h y"
    using assms(2,3) by (intro reach_frame) auto
  with y assms(2) show "valid h' y \<and> reach h' y \<subseteq> {Suc (length h0)..<length h'} \<and> view h' y = view h0 x"
    by auto
qed

lemma copy_loop_copies:
  assumes T: "array_ok T" and src: "sl_arr s < length h0" "elems T h0 s = xs1 @ xs2"
    and xs: "\<And>x. x \<in> set xs2 \<Longrightarrow> valid h0 x"
    and "copies_of valid reach view h0 (h0 @ ar_mk T (ys @ zs) # e) ys xs1" and "length zs = length xs2"
  shows "\<exists>ys' e'. copy_loop T cp \<lparr>sl_arr = length h0, sl_off = 0, sl_len = length (xs1 @ xs2)\<rparr> s
       [length xs1..<length (xs1 @ xs2)] (h0 @ ar_mk T (ys @ zs) # e) = h0 @ ar_mk T ys' # e' \<and>
     copies_of valid reach view h0 (h0 @ ar_mk T ys' # e') ys' (xs1 @ xs2)"
  using assms(2-)
proof (induction xs2 arbitrary: xs1 ys zs e)
  case Nil
  then show ?case by auto
next
  case (Cons x xs2)
  let ?h = "h0 @ ar_mk T (ys @ zs) # e"
  from Cons.prems(5) obtain z zs' where zs: "zs = z # zs'" "length zs' = length xs2" by (cases zs) auto
  have n: "length ys = length xs1" using Cons.prems(4) by (simp add: copies_of_def list_all2_lengthD)
  have x: "elems T ?h s ! length xs1 = x" using Cons.prems(1,2) by (simp add: elems_grown nth_append)
  obtain y h1 where y: "cp x ?h = (y, h1)" by fastforce
  have v: "valid ?h x" "view ?h x = view h0 x" using grown [of h0 x] Cons.prems(3) by auto
  from copied [OF v(1) y] v(2) obtain e1 where h1: "h1 = ?h @ e1" and
    cy: "valid h1 y" "reach h1 y \<subseteq> {length ?h..<length h1}" "view h1 y = view h0 x" by auto
  let ?h2 = "h0 @ ar_mk T ((ys @ [y]) @ zs') # e @ e1"
  have w: "write_elem T \<lparr>sl_arr = length h0, sl_off = 0, sl_len = length (xs1 @ x # xs2)\<rparr> (length xs1) y h1 = ?h2"
    using write_new [OF T, of h0 "length (xs1 @ x # xs2)" "length xs1" y "ys @ zs" "e @ e1"] n zs(1)
    by (simp add: h1 list_update_append)
  have old: "copies_of valid reach view h0 ?h2 ys xs1"
    by (rule copies_of_frame [OF Cons.prems(4)]) (auto simp: nth_append nth_Cons')
  have "valid ?h2 y \<and> reach ?h2 y = reach h1 y \<and> view ?h2 y = view h1 y"
    using cy(2) by (intro reach_frame cy(1)) (auto simp: h1 nth_append nth_Cons' zs(1))
  with cy have "copies_of valid reach view h0 ?h2 [y] [x]"
    by (auto simp: copies_of_def h1 zs(1))
  with old have "copies_of valid reach view h0 ?h2 (ys @ [y]) (xs1 @ [x])"
    unfolding copies_of_def by (rule list_all2_appendI)
  from Cons.IH [OF Cons.prems(1) _ _ this zs(2)] Cons.prems(2,3)
  have IH: "\<exists>ys' e'. copy_loop T cp \<lparr>sl_arr = length h0, sl_off = 0, sl_len = length (xs1 @ x # xs2)\<rparr> s
       [Suc (length xs1)..<length (xs1 @ x # xs2)] ?h2 = h0 @ ar_mk T ys' # e' \<and>
     copies_of valid reach view h0 (h0 @ ar_mk T ys' # e') ys' (xs1 @ x # xs2)"
    by simp
  have "[length xs1..<length (xs1 @ x # xs2)] = length xs1 # [Suc (length xs1)..<length (xs1 @ x # xs2)]"
    by (rule upt_conv_Cons) simp
  with IH y x w show ?case by (simp add: Let_def)
qed

lemma slice_copied:
  assumes T: "array_ok T" and v: "valid_slice T valid h0 (Some s)"
  shows "\<exists>ys e. copy_slice T cp (Some s) h0 =
       (Some \<lparr>sl_arr = length h0, sl_off = 0, sl_len = length ys\<rparr>, h0 @ ar_mk T ys # e) \<and>
     copies_of valid reach view h0 (h0 @ ar_mk T ys # e) ys (elems T h0 s)"
proof -
  let ?xs = "elems T h0 s" and ?zs = "replicate (sl_len s) (ar_zero T)"
  note n = elems_length [OF v]
  have "copies_of valid reach view h0 (h0 @ ar_mk T ([] @ ?zs) # []) [] []"
    by (simp add: copies_of_def)
  from copy_loop_copies [OF T _ _ _ this, of s ?xs] v n
  obtain ys e where loop: "copy_loop T cp \<lparr>sl_arr = length h0, sl_off = 0, sl_len = sl_len s\<rparr> s [0..<sl_len s]
      (h0 @ [ar_mk T ?zs]) = h0 @ ar_mk T ys # e"
    "copies_of valid reach view h0 (h0 @ ar_mk T ys # e) ys ?xs"
    by (auto simp: valid_slice_def)
  have "length ys = sl_len s" using loop(2) n by (simp add: copies_of_def list_all2_lengthD)
  with loop show ?thesis by (intro exI [of _ ys] exI [of _ e]) (simp add: copy_slice_def make_slice_def)
qed

lemma deep_copy_slice:
  assumes T: "array_ok T"
  shows "deep_copy (copy_slice T cp) (valid_slice T valid) (reach_slice T reach) (view_slice T view)"
proof
  fix h x assume "valid_slice T valid h x"
  then show "reach_slice T reach h x \<subseteq> {..<length h}"
    using reach_bound by (fastforce simp: valid_slice_def reach_slice_def split: option.splits)
next
  fix h x h'
  assume x: "valid_slice T valid h x" "length h \<le> length h'"
    and same: "\<And>a. a \<in> reach_slice T reach h x \<Longrightarrow> h' ! a = h ! a"
  show "valid_slice T valid h' x \<and> reach_slice T reach h' x = reach_slice T reach h x \<and>
      view_slice T view h' x = view_slice T view h x"
  proof (cases x)
    case (Some s)
    with same have arr: "h' ! sl_arr s = h ! sl_arr s" by (simp add: reach_slice_def)
    then have el: "elems T h' s = elems T h s" by (simp add: elems_def)
    have "valid h' y \<and> reach h' y = reach h y \<and> view h' y = view h y" if "y \<in> set (elems T h s)" for y
      using x same that Some by (intro reach_frame) (auto simp: valid_slice_def reach_slice_def)
    with arr el Some x show ?thesis by (auto simp: valid_slice_def reach_slice_def view_slice_def)
  qed (simp_all add: valid_slice_def reach_slice_def view_slice_def)
next
  fix h x y h' assume x: "valid_slice T valid h x" and run: "copy_slice T cp x h = (y, h')"
  show "\<exists>e. h' = h @ e \<and> valid_slice T valid h' y \<and> reach_slice T reach h' y \<subseteq> {length h..<length h'} \<and>
      view_slice T view h' y = view_slice T view h x"
  proof (cases x)
    case None
    with run show ?thesis by (auto simp: copy_slice_def valid_slice_def reach_slice_def view_slice_def)
  next
    case (Some s)
    from slice_copied [OF T x [unfolded Some]] run Some obtain ys e where
      y: "y = Some \<lparr>sl_arr = length h, sl_off = 0, sl_len = length ys\<rparr>" and h': "h' = h @ ar_mk T ys # e"
      and c: "copies_of valid reach view h h' ys (elems T h s)" by auto
    have el: "elems T h' \<lparr>sl_arr = length h, sl_off = 0, sl_len = length ys\<rparr> = ys"
      unfolding h' by (rule elems_new [OF T])
    have len: "length h < length h'" and arr: "ar_un T (h' ! length h) = Some ys"
      using T by (simp_all add: h' array_ok_def)
    from c have "\<forall>v \<in> set ys. valid h' v \<and> reach h' v \<subseteq> {length h..<length h'}"
      and "map (view h') ys = map (view h) (elems T h s)"
      by (fastforce simp: copies_of_def list_all2_conv_all_nth in_set_conv_nth intro: nth_equalityI)+
    then show ?thesis
      using len arr by (auto simp: valid_slice_def reach_slice_def view_slice_def y el Some intro: exI [of _ "ar_mk T ys # e"] h')
  qed
qed

end

subsection \<open>Flat slices, maps, pointers\<close>

lemma go_copy_new:
  "array_ok T \<Longrightarrow> length zs = length xs \<Longrightarrow>
   foldl (\<lambda>h (i, x). write_elem T \<lparr>sl_arr = length h0, sl_off = 0, sl_len = n\<rparr> i x h) (h0 @ [ar_mk T (ys @ zs)])
     (enumerate (length ys) xs) = h0 @ [ar_mk T (ys @ xs)]"
proof (induction xs arbitrary: ys zs)
  case (Cons x xs)
  then obtain z zs' where zs: "zs = z # zs'" "length zs' = length xs" by (cases zs) auto
  from Cons.IH [OF Cons.prems(1) zs(2), of "ys @ [x]"] write_new [OF Cons.prems(1), of h0 n "length ys" x "ys @ zs" "[]"]
  show ?case by (simp add: zs(1) list_update_append)
qed simp

lemma flat_slice_copied:
  assumes "array_ok T" and "valid_slice T V h (Some s)"
  shows "copy_flat_slice T (Some s) h =
    (Some \<lparr>sl_arr = length h, sl_off = 0, sl_len = sl_len s\<rparr>, h @ [ar_mk T (elems T h s)])"
proof -
  have "elems T (h @ [ar_mk T zs]) s = elems T h s" for zs
    using assms(2) by (simp add: elems_grown valid_slice_def)
  with go_copy_new [OF assms(1), of "replicate (sl_len s) (ar_zero T)" "elems T h s" h "sl_len s" "[]"] elems_length [OF assms(2)]
  show ?thesis by (simp add: copy_flat_slice_def make_slice_def go_copy_def)
qed

abbreviation valid_flat where "valid_flat T \<equiv> valid_slice T (\<lambda>_ _. True)"
abbreviation reach_flat where "reach_flat T \<equiv> reach_slice T (\<lambda>_ _. {})"
abbreviation view_flat where "view_flat T \<equiv> view_slice T (\<lambda>_ x. x)"

lemma deep_copy_flat_slice:
  assumes T: "array_ok T"
  shows "deep_copy (copy_flat_slice T) (valid_flat T) (reach_flat T) (view_flat T)"
proof
  have slice: "deep_copy (copy_slice T (\<lambda>x h. (x, h))) (valid_flat T) (reach_flat T) (view_flat T)"
    by (rule deep_copy.deep_copy_slice [OF deep_copy_flat T]) simp
  show "reach_flat T h x \<subseteq> {..<length h}" if "valid_flat T h x" for h x
    using that by (rule deep_copy.reach_bound [OF slice])
  show "valid_flat T h' x \<and> reach_flat T h' x = reach_flat T h x \<and> view_flat T h' x = view_flat T h x"
    if "valid_flat T h x" "length h \<le> length h'" "\<And>a. a \<in> reach_flat T h x \<Longrightarrow> h' ! a = h ! a" for h x h'
    using that by (rule deep_copy.reach_frame [OF slice])
next
  fix h x y h' assume x: "valid_flat T h x" and run: "copy_flat_slice T x h = (y, h')"
  show "\<exists>e. h' = h @ e \<and> valid_flat T h' y \<and> reach_flat T h' y \<subseteq> {length h..<length h'} \<and>
      view_flat T h' y = view_flat T h x"
  proof (cases x)
    case (Some s)
    with flat_slice_copied [OF T x [unfolded Some]] run have
      "y = Some \<lparr>sl_arr = length h, sl_off = 0, sl_len = sl_len s\<rparr>" "h' = h @ [ar_mk T (elems T h s)]" by auto
    moreover from elems_new [OF T, of h "elems T h s" "[]"] elems_length [OF x [unfolded Some]]
    have "elems T (h @ [ar_mk T (elems T h s)]) \<lparr>sl_arr = length h, sl_off = 0, sl_len = sl_len s\<rparr> = elems T h s"
      by simp
    ultimately show ?thesis
      using T elems_length [OF x [unfolded Some]]
      by (auto simp: valid_slice_def reach_slice_def view_slice_def Some array_ok_def)
  qed (use run in \<open>auto simp: copy_flat_slice_def valid_slice_def reach_slice_def view_slice_def\<close>)
qed

text \<open>A map reads as a function from keys to values.\<close>

definition valid_map :: "'l heap \<Rightarrow> addr option \<Rightarrow> bool" where
  "valid_map h x = (case x of None \<Rightarrow> True | Some a \<Rightarrow> a < length h \<and>
     (\<exists>m. h ! a = StringMap m \<and> distinct (map fst m)))"

definition reach_cell :: "'l heap \<Rightarrow> addr option \<Rightarrow> addr set" where
  "reach_cell h x = set_option x"

definition view_map :: "'l heap \<Rightarrow> addr option \<Rightarrow> (string \<rightharpoonup> string) option" where
  "view_map h x = map_option (\<lambda>a. map_of (the_map (h ! a))) x"

lemma map_loop:
  "foldl (\<lambda>h (k, v). h[length h0 := StringMap (map_set k v (the_map (h ! length h0)))]) (h0 @ [StringMap m]) xs =
   h0 @ [StringMap (foldl (\<lambda>m (k, v). map_set k v m) m xs)]"
  by (induction xs arbitrary: m) auto

lemma map_of_loop:
  "map_of (foldl (\<lambda>m (k, v). map_set k v m) m xs) = map_of m ++ map_of (rev xs)"
  by (induction xs arbitrary: m) (auto simp: map_add_def fun_eq_iff split: option.splits)

lemma distinct_loop:
  "distinct (map fst m) \<Longrightarrow> distinct (map fst (foldl (\<lambda>m (k, v). map_set k v m) m xs))"
  by (induction xs arbitrary: m) (auto intro: distinct_update)

lemma copied_map_same:
  assumes "mset (ord m) = mset m" and "distinct (map fst m)"
  shows "map_of (foldl (\<lambda>m (k, v). map_set k v m) [] (ord m)) = map_of m"
proof -
  have "mset (map fst (rev (ord m))) = mset (map fst m)" using assms(1) by simp
  then have "distinct (map fst (rev (ord m)))" using assms(2) mset_eq_imp_distinct_iff by blast
  moreover have "set (rev (ord m)) = set m" using assms(1) by (metis set_rev mset_eq_setD)
  ultimately have "map_of (rev (ord m)) = map_of m" using assms(2) by (metis map_of_inject_set)
  then show ?thesis by (simp add: map_of_loop)
qed

lemma deep_copy_map:
  assumes "\<And>m. mset (ord m) = mset m"
  shows "deep_copy (copy_map ord) valid_map reach_cell view_map"
proof
  show "reach_cell h x \<subseteq> {..<length h}" if "valid_map h x" for h :: "'l heap" and x
    using that by (cases x) (auto simp: valid_map_def reach_cell_def)
  show "valid_map h' x \<and> reach_cell h' x = reach_cell h x \<and> view_map h' x = view_map h x"
    if "valid_map h x" "length h \<le> length h'" "\<And>a. a \<in> reach_cell h x \<Longrightarrow> h' ! a = h ! a" for h h' :: "'l heap" and x
    using that by (cases x) (auto simp: valid_map_def reach_cell_def view_map_def)
next
  fix h h' :: "'l heap" and x y assume x: "valid_map h x" and run: "copy_map ord x h = (y, h')"
  show "\<exists>e. h' = h @ e \<and> valid_map h' y \<and> reach_cell h' y \<subseteq> {length h..<length h'} \<and> view_map h' y = view_map h x"
  proof (cases x)
    case (Some a)
    with x obtain m where m: "a < length h" "h ! a = StringMap m" "distinct (map fst m)" by (auto simp: valid_map_def)
    let ?m = "foldl (\<lambda>m (k, v). map_set k v m) [] (ord m)"
    from run m Some have "y = Some (length h)" "h' = h @ [StringMap ?m]"
      by (auto simp: copy_map_def Let_def map_loop nth_append)
    with m Some copied_map_same [where ord = ord, OF assms m(3)] distinct_loop [of "[]" "ord m"] show ?thesis
      by (simp add: valid_map_def reach_cell_def view_map_def)
  qed (use run in \<open>auto simp: copy_map_def valid_map_def reach_cell_def view_map_def\<close>)
qed

text \<open>A pointer to a struct.\<close>

definition valid_pointer where
  "valid_pointer V h x = (case x of None \<Rightarrow> True | Some a \<Rightarrow> a < length h \<and> (\<exists>v. h ! a = Struct v \<and> V h v))"

definition reach_pointer where
  "reach_pointer R h x = (case x of None \<Rightarrow> {} | Some a \<Rightarrow> insert a (case h ! a of Struct v \<Rightarrow> R h v | _ \<Rightarrow> {}))"

definition view_pointer where
  "view_pointer W h x = (case x of None \<Rightarrow> None | Some a \<Rightarrow> (case h ! a of Struct v \<Rightarrow> Some (W h v) | _ \<Rightarrow> None))"

lemma deep_copy_pointer:
  assumes "deep_copy cp V R W"
  shows "deep_copy (copy_pointer zero cp) (valid_pointer V) (reach_pointer R) (view_pointer W)"
proof
  show "reach_pointer R h x \<subseteq> {..<length h}" if "valid_pointer V h x" for h x
    using that deep_copy.reach_bound [OF assms]
    by (auto simp: valid_pointer_def reach_pointer_def split: option.splits) blast
next
  fix h x h'
  assume x: "valid_pointer V h x" "length h \<le> length h'"
    and same: "\<And>a. a \<in> reach_pointer R h x \<Longrightarrow> h' ! a = h ! a"
  show "valid_pointer V h' x \<and> reach_pointer R h' x = reach_pointer R h x \<and> view_pointer W h' x = view_pointer W h x"
  proof (cases x)
    case (Some a)
    with x obtain v where v: "a < length h" "h ! a = Struct v" "V h v" by (auto simp: valid_pointer_def)
    with same Some have "h' ! a = Struct v" "\<And>b. b \<in> R h v \<Longrightarrow> h' ! b = h ! b"
      by (auto simp: reach_pointer_def)
    with deep_copy.reach_frame [OF assms v(3) x(2)] v x(2) Some show ?thesis
      by (simp add: valid_pointer_def reach_pointer_def view_pointer_def)
  qed (simp_all add: valid_pointer_def reach_pointer_def view_pointer_def)
next
  fix h x y h' assume x: "valid_pointer V h x" and run: "copy_pointer zero cp x h = (y, h')"
  show "\<exists>e. h' = h @ e \<and> valid_pointer V h' y \<and> reach_pointer R h' y \<subseteq> {length h..<length h'} \<and>
      view_pointer W h' y = view_pointer W h x"
  proof (cases x)
    case None
    with run show ?thesis by (auto simp: copy_pointer_def valid_pointer_def reach_pointer_def view_pointer_def)
  next
    case (Some a)
    with x obtain v where v: "a < length h" "h ! a = Struct v" "V h v" by (auto simp: valid_pointer_def)
    obtain z h1 where z: "cp v (h @ [Struct zero]) = (z, h1)" by fastforce
    note g = deep_copy.grown [OF assms v(3), of "[Struct zero]"]
    from deep_copy.copied [OF assms g(1) z] g(3) obtain e where
      e: "h1 = h @ Struct zero # e" "V h1 z" "R h1 z \<subseteq> {Suc (length h)..<length h1}" "W h1 z = W h v" by auto
    from run z v Some have y: "y = Some (length h)" "h' = h @ Struct z # e"
      by (auto simp: copy_pointer_def Let_def nth_append e(1))
    have "V h' z \<and> R h' z = R h1 z \<and> W h' z = W h1 z"
      by (rule deep_copy.reach_frame [OF assms e(2)]) (use e(1,3) y(2) in \<open>auto simp: nth_append nth_Cons'\<close>)
    with e y v Some show ?thesis
      by (auto simp: valid_pointer_def reach_pointer_def view_pointer_def)
  qed
qed

subsection \<open>Every type is copied deeply\<close>

lemma arrays_ok: "array_ok nodes_array" "array_ok ints_array" "array_ok references_array"
  "array_ok (structs_array L)" "array_ok (volumes_array L)" "array_ok (items_array L)"
  by (simp_all add: array_ok_def nodes_array_def ints_array_def references_array_def structs_array_def
      volumes_array_def items_array_def)

text \<open>What is assumed of the libraries: their types keep the contract, and a map is visited in some order.\<close>

definition library_ok where
  "library_ok L V R W \<longleftrightarrow> deep_copy (kl_copy L) V R W \<and> (\<forall>m. mset (kl_order L m) = mset m)"

lemma library_okD: "library_ok L V R W \<Longrightarrow> deep_copy (kl_copy L) V R W"
  by (simp add: library_ok_def)

definition valid_volume where "valid_volume V = (\<lambda>h x. V h (mv_Capacity x))"
definition reach_volume where "reach_volume R = (\<lambda>h x. R h (mv_Capacity x))"
definition view_volume where "view_volume W = (\<lambda>h x. ((mv_ClaimName x, mv_Phase x), W h (mv_Capacity x)))"

lemma deep_copy_volume:
  assumes "library_ok L V R W"
  shows "deep_copy (VolumeStatus_DeepCopyInto L) (valid_volume V) (reach_volume R) (view_volume W)"
  unfolding valid_volume_def reach_volume_def view_volume_def
  by (rule deep_copy_struct [where put = "\<lambda>x y. x\<lparr>mv_Capacity := y\<rparr>" and cp = "kl_copy L"])
    (use assms in \<open>simp_all add: library_ok_def VolumeStatus_DeepCopyInto_def split: prod.splits\<close>)

definition status_parts where "status_parts x = (mt_VolumeStatuses x, mt_UpgradeVersions x)"
definition status_rest where "status_rest x = (mt_Ready x, mt_Version x, mt_State x, mt_UpgradeVersion x)"

definition valid_status where "valid_status L V =
  (\<lambda>h x. valid_both (valid_slice (volumes_array L) (valid_volume V)) (valid_flat ints_array) h (status_parts x))"
definition reach_status where "reach_status L R =
  (\<lambda>h x. reach_both (reach_slice (volumes_array L) (reach_volume R)) (reach_flat ints_array) h (status_parts x))"
definition view_status where "view_status L W = (\<lambda>h x. (status_rest x,
  view_both (view_slice (volumes_array L) (view_volume W)) (view_flat ints_array) h (status_parts x)))"

lemma deep_copy_status:
  assumes "library_ok L V R W"
  shows "deep_copy (PatroniPostgresStatus_DeepCopyInto L) (valid_status L V) (reach_status L R) (view_status L W)"
  unfolding valid_status_def reach_status_def view_status_def
  by (rule deep_copy_struct [OF deep_copy_both [OF deep_copy.deep_copy_slice [OF deep_copy_volume [OF assms] arrays_ok(5)]
      deep_copy_flat_slice [OF arrays_ok(2)]],
      where put = "\<lambda>x (v, u). x\<lparr>mt_VolumeStatuses := v, mt_UpgradeVersions := u\<rparr>"])
    (auto simp: status_parts_def status_rest_def PatroniPostgresStatus_DeepCopyInto_def copy_both_def Let_def split: prod.splits)

definition spec_parts where
  "spec_parts x = (ms_Nodes x, ms_VolumeSize x, ms_Annotations x, ms_ImagePullSecrets x, ms_NodeSelector x,
     ms_Affinity x, ms_Tolerations x, ms_Resources x, ms_ExtraContainers x, ms_AccessControl x,
     ms_AdditionalNetworkPolicyIngress x)"

definition spec_rest where
  "spec_rest x = (ms_Ignore x, ms_Version x, ms_ServiceType x, ms_PodAntiAffinityTopologyKey x)"

definition spec_put where
  "spec_put x = (\<lambda>(nodes, size, ann, secrets, sel, aff, tol, res, extra, acc, ing).
     x\<lparr>ms_Nodes := nodes, ms_VolumeSize := size, ms_Annotations := ann, ms_ImagePullSecrets := secrets,
       ms_NodeSelector := sel, ms_Affinity := aff, ms_Tolerations := tol, ms_Resources := res,
       ms_ExtraContainers := extra, ms_AccessControl := acc, ms_AdditionalNetworkPolicyIngress := ing\<rparr>)"

definition valid_spec where
  "valid_spec L V = (\<lambda>h x. (valid_both (valid_flat nodes_array) (valid_both V (valid_both valid_map
     (valid_both (valid_flat references_array) (valid_both valid_map (valid_both (valid_pointer V)
     (valid_both (valid_slice (structs_array L) V) (valid_both V (valid_both (valid_slice (structs_array L) V)
     (valid_both (valid_slice (structs_array L) V) (valid_slice (structs_array L) V))))))))))) h (spec_parts x))"

definition reach_spec where
  "reach_spec L R = (\<lambda>h x. (reach_both (reach_flat nodes_array) (reach_both R (reach_both reach_cell
     (reach_both (reach_flat references_array) (reach_both reach_cell (reach_both (reach_pointer R)
     (reach_both (reach_slice (structs_array L) R) (reach_both R (reach_both (reach_slice (structs_array L) R)
     (reach_both (reach_slice (structs_array L) R) (reach_slice (structs_array L) R))))))))))) h (spec_parts x))"

definition view_spec where
  "view_spec L W = (\<lambda>h x. (spec_rest x, (view_both (view_flat nodes_array) (view_both W (view_both view_map
     (view_both (view_flat references_array) (view_both view_map (view_both (view_pointer W)
     (view_both (view_slice (structs_array L) W) (view_both W (view_both (view_slice (structs_array L) W)
     (view_both (view_slice (structs_array L) W) (view_slice (structs_array L) W))))))))))) h (spec_parts x)))"

lemma deep_copy_spec:
  assumes L: "library_ok L V R W"
  shows "deep_copy (PatroniPostgresSpec_DeepCopyInto L) (valid_spec L V) (reach_spec L R) (view_spec L W)"
proof -
  have lib: "deep_copy (kl_copy L) V R W" and ord: "\<And>m. mset (kl_order L m) = mset m"
    using L by (simp_all add: library_ok_def)
  note m = deep_copy_map [where ord = "kl_order L", OF ord]
  note s = deep_copy.deep_copy_slice [OF lib arrays_ok(4) [of L]]
  show ?thesis
    unfolding valid_spec_def reach_spec_def view_spec_def
    by (rule deep_copy_struct [OF deep_copy_both [OF deep_copy_flat_slice [OF arrays_ok(1)]
          deep_copy_both [OF lib deep_copy_both [OF m deep_copy_both [OF deep_copy_flat_slice [OF arrays_ok(3)]
          deep_copy_both [OF m deep_copy_both [OF deep_copy_pointer [OF lib, where zero = "kl_zero L"]
          deep_copy_both [OF s deep_copy_both [OF lib deep_copy_both [OF s deep_copy_both [OF s s]]]]]]]]]], where put = spec_put])
      (auto simp: spec_parts_def spec_rest_def spec_put_def PatroniPostgresSpec_DeepCopyInto_def copy_both_def Let_def
        split: prod.splits)
qed

definition patroni_parts where "patroni_parts x = (mp_ObjectMeta x, mp_Spec x, mp_Status x)"

definition valid_patroni where
  "valid_patroni L V = (\<lambda>h x. valid_both V (valid_both (valid_spec L V) (valid_status L V)) h (patroni_parts x))"
definition reach_patroni where
  "reach_patroni L R = (\<lambda>h x. reach_both R (reach_both (reach_spec L R) (reach_status L R)) h (patroni_parts x))"
definition view_patroni where
  "view_patroni L W = (\<lambda>h x. (mp_TypeMeta x, view_both W (view_both (view_spec L W) (view_status L W)) h (patroni_parts x)))"

lemma deep_copy_patroni:
  assumes "library_ok L V R W"
  shows "deep_copy (PatroniPostgres_DeepCopyInto L) (valid_patroni L V) (reach_patroni L R) (view_patroni L W)"
  unfolding valid_patroni_def reach_patroni_def view_patroni_def
  by (rule deep_copy_struct [OF deep_copy_both [OF library_okD [OF assms] deep_copy_both [OF deep_copy_spec [OF assms] deep_copy_status [OF assms]]],
      where put = "\<lambda>x (m, s, t). x\<lparr>mp_ObjectMeta := m, mp_Spec := s, mp_Status := t\<rparr>"])
    (auto simp: patroni_parts_def PatroniPostgres_DeepCopyInto_def copy_both_def Let_def split: prod.splits)

definition list_parts where "list_parts x = (ml_ListMeta x, ml_Items x)"

definition valid_list where
  "valid_list L V = (\<lambda>h x. valid_both V (valid_slice (items_array L) (valid_patroni L V)) h (list_parts x))"
definition reach_list where
  "reach_list L R = (\<lambda>h x. reach_both R (reach_slice (items_array L) (reach_patroni L R)) h (list_parts x))"
definition view_list where
  "view_list L W = (\<lambda>h x. (ml_TypeMeta x, view_both W (view_slice (items_array L) (view_patroni L W)) h (list_parts x)))"

lemma deep_copy_list:
  assumes "library_ok L V R W"
  shows "deep_copy (PatroniPostgresList_DeepCopyInto L) (valid_list L V) (reach_list L R) (view_list L W)"
  unfolding valid_list_def reach_list_def view_list_def
  by (rule deep_copy_struct [OF deep_copy_both [OF library_okD [OF assms] deep_copy.deep_copy_slice [OF deep_copy_patroni [OF assms] arrays_ok(6)]],
      where put = "\<lambda>x (m, i). x\<lparr>ml_ListMeta := m, ml_Items := i\<rparr>"])
    (auto simp: list_parts_def PatroniPostgresList_DeepCopyInto_def copy_both_def Let_def split: prod.splits)

interpretation node: deep_copy Node_DeepCopyInto "\<lambda>h x. True" "\<lambda>h x. {}" "\<lambda>h x. x"
  by (rule deep_copy_flat) (simp add: Node_DeepCopyInto_def)

interpretation node_tags: deep_copy NodeTags_DeepCopyInto "\<lambda>h x. True" "\<lambda>h x. {}" "\<lambda>h x. x"
  by (rule deep_copy_flat) (simp add: NodeTags_DeepCopyInto_def)

subsection \<open>Independence\<close>

text \<open>
  C25. A deep copy is equal to the original and independent of it. For every list of instances,
  with any sharing among them, the copy changes no memory that was in use; it reads the same in
  every field, \<open>nil\<close> and empty told apart; whatever is later done to the memory that was there
  before, the copy still reads the same, and whatever is done to the memory of the copy, so does
  the original. The libraries' own types are assumed to keep the same contract.
\<close>

theorem deep_copy_independent:
  assumes "library_ok L V R W" and "valid_list L V h x"
    and "PatroniPostgresList_DeepCopyObject L (Some x) h = (y, h')"
  shows "\<exists>c e. y = Some c \<and> h' = h @ e \<and> view_list L W h' c = view_list L W h x \<and>
    (\<forall>h2. length h2 = length h' \<and> drop (length h) h2 = e \<longrightarrow> view_list L W h2 c = view_list L W h x) \<and>
    (\<forall>h2. length h2 = length h' \<and> take (length h) h2 = h \<longrightarrow> view_list L W h2 x = view_list L W h x)"
proof -
  note dc = deep_copy_list [OF assms(1)]
  from assms(3) obtain c where c: "PatroniPostgresList_DeepCopyInto L x h = (c, h')" and [simp]: "y = Some c"
    by (auto simp: PatroniPostgresList_DeepCopyObject_def PatroniPostgresList_DeepCopy_def DeepCopy_def
      split: prod.splits option.splits)
  from deep_copy.copied [OF dc assms(2) c] obtain e where e: "h' = h @ e" "valid_list L V h' c"
    "reach_list L R h' c \<subseteq> {length h..<length h'}" "view_list L W h' c = view_list L W h x" by blast
  have "view_list L W h2 c = view_list L W h x" if "length h2 = length h'" "drop (length h) h2 = e" for h2
  proof -
    have same: "h2 ! a = h' ! a" if "length h \<le> a" "a < length h'" for a
    proof -
      have "h2 ! a = drop (length h) h2 ! (a - length h)"
        using that \<open>length h2 = length h'\<close> by simp
      then show ?thesis using that by (simp add: \<open>drop _ h2 = e\<close> e(1) nth_append)
    qed
    have "view_list L W h2 c = view_list L W h' c"
      using deep_copy.reach_frame [OF dc e(2), of h2] e(3) same that(1) by force
    with e(4) show ?thesis by simp
  qed
  moreover have "view_list L W h2 x = view_list L W h x" if "length h2 = length h'" "take (length h) h2 = h" for h2
  proof -
    have "h2 ! a = h ! a" if "a < length h" for a
      using that by (metis \<open>take (length h) h2 = h\<close> nth_take)
    then show ?thesis
      using deep_copy.reach_frame [OF dc assms(2), of h2] deep_copy.reach_bound [OF dc assms(2)] that(1) e(1)
      by force
  qed
  ultimately show ?thesis using e(1,4) by auto
qed

text \<open>Library structs that are texts; a list of two instances that share an array and a map.\<close>

definition text_lib :: "string klib" where
  "text_lib = \<lparr>kl_zero = [], kl_copy = (\<lambda>x h. (x, h)), kl_order = (\<lambda>m. m)\<rparr>"

definition shared_instance :: "string mem_patroni" where
  "shared_instance = (ar_zero (items_array text_lib))\<lparr>mp_ObjectMeta := ''db'',
     mp_Spec := (mp_Spec (ar_zero (items_array text_lib)))
       \<lparr>ms_Nodes := Some \<lparr>sl_arr = 0, sl_off = 1, sl_len = 1\<rparr>, ms_Annotations := Some 1\<rparr>\<rparr>"

definition shared_heap :: "string heap" where
  "shared_heap = [Nodes [ar_zero (nodes_array :: (node, string) array), ar_zero (nodes_array :: (node, string) array)],
     StringMap [(''a'', ''b'')], Items [shared_instance, shared_instance]]"

definition shared_list :: "string mem_list" where
  "shared_list = \<lparr>ml_TypeMeta = ([], []), ml_ListMeta = [], ml_Items = Some \<lparr>sl_arr = 2, sl_off = 0, sl_len = 2\<rparr>\<rparr>"

lemma text_lib_ok: "library_ok text_lib (\<lambda>h x. True) (\<lambda>h x. {}) (\<lambda>h x. x)"
  by (simp add: library_ok_def text_lib_def deep_copy_flat)

lemma shared_list_valid: "valid_list text_lib (\<lambda>h x. True) shared_heap shared_list"
  by (simp add: valid_list_def valid_both_def list_parts_def shared_list_def shared_heap_def valid_slice_def
      elems_def items_array_def valid_patroni_def patroni_parts_def shared_instance_def valid_spec_def
      spec_parts_def valid_map_def valid_pointer_def valid_status_def status_parts_def nodes_array_def)

lemma deep_copy_independent_witness:
  "case PatroniPostgresList_DeepCopyObject text_lib (Some shared_list) shared_heap of (y, h') \<Rightarrow>
    \<exists>c e. y = Some c \<and> h' = shared_heap @ e \<and>
      view_list text_lib (\<lambda>h x. x) h' c = view_list text_lib (\<lambda>h x. x) shared_heap shared_list \<and>
    (\<forall>h2. length h2 = length h' \<and> drop (length shared_heap) h2 = e \<longrightarrow>
       view_list text_lib (\<lambda>h x. x) h2 c = view_list text_lib (\<lambda>h x. x) shared_heap shared_list) \<and>
    (\<forall>h2. length h2 = length h' \<and> take (length shared_heap) h2 = shared_heap \<longrightarrow>
       view_list text_lib (\<lambda>h x. x) h2 shared_list = view_list text_lib (\<lambda>h x. x) shared_heap shared_list)"
  using deep_copy_independent [OF text_lib_ok shared_list_valid surjective_pairing] by (simp add: case_prod_beta)

end
