(* ===== verification/Helper.thy ===== *)
theory Helper
  imports Upgrade_Jobs
begin

section \<open>The upgrade helper: \<open>cmd/upgrade\<close>\<close>

text \<open>
  The program the operator's jobs run inside the cluster, against the databases. As for the
  operator, everything outside is one oracle over the history of calls: the database driver,
  the HTTP client, the timers and standard output. A loop of the source that may run for ever
  takes fuel; \<open>OutOfFuel\<close> is no error of the program but says that it was still running.

  Goroutines that are started for a list of items share nothing but a counter or a channel of
  errors. Each is run to its end before the next, in the order of the parameter \<open>he_order\<close>: the
  oracle may answer each of them anything, so every outcome of an interleaving is covered.
\<close>

subsection \<open>Outside\<close>

datatype herror =
    OutOfFuel
  | DbError string
  | ScanFailed
  | Lagging int
  | DeadlineExceeded
  | UnexpectedStatus int
  | ErrShortWrite
  | InvalidMode

text \<open>The flags of the program, which \<open>namsral/flag\<close> also takes from the environment.\<close>

record helper_flags =
  fl_dbhost :: string
  fl_dbport :: int
  fl_dbuser :: string
  fl_dbpassword :: string
  fl_dbname :: string
  fl_mode :: string
  fl_clustername :: string
  fl_clustersize :: int
  fl_pause :: bool

text \<open>A connection configuration of \<open>pgx\<close>: what the source sets, and the rest.\<close>

record pgconfig =
  pg_Host :: string
  pg_Database :: string
  pg_ConnectTimeout :: int
  pg_rest :: opaque

type_synonym conn = nat

datatype cell = CText string | CInt int | CBool bool

datatype hrequest =
    HConnect pgconfig
  | HClose conn
  | HExec conn string
  | HQueryRow conn string "cell list"
  | HQuery conn string "cell list" "string list"
  | HSleep
  | HSelect
  | HNewRequest string string
  | HDo string string
  | HDrain
  | HWrite string

text \<open>
  \<open>HRow\<close> is the row \<open>QueryRow\<close> found, \<open>HRows\<close> the rows of \<open>Query\<close> and what \<open>rows.Err\<close> says at
  their end; \<open>HSelected True\<close> says that the context is done, before the ticker fired.
\<close>

datatype hanswer =
    HConn conn
  | HRow "cell list"
  | HRows "cell list list" "herror option"
  | HSelected bool
  | HStatus int
  | HWritten int
  | HDone

type_synonym hevent = "hrequest \<times> (herror + hanswer)"
type_synonym 'a hop = "(hevent list, herror, 'a) op"

record henv =
  he_ask :: "hevent list \<Rightarrow> hrequest \<Rightarrow> herror + hanswer"
  he_parse :: "string \<Rightarrow> herror + pgconfig"
  he_order :: "hevent list \<Rightarrow> string list \<Rightarrow> string list"
  he_flags :: helper_flags

definition hcall :: "henv \<Rightarrow> hrequest \<Rightarrow> hanswer hop" where
  "hcall E q = (\<lambda>h. let r = he_ask E h q in
     (case r of Inl e \<Rightarrow> Err e | Inr x \<Rightarrow> Ok x, h @ [(q, r)]))"

definition hdecode :: "(hanswer \<Rightarrow> 'a option) \<Rightarrow> hanswer \<Rightarrow> 'a hop" where
  "hdecode f x = (case f x of None \<Rightarrow> fail ScanFailed | Some y \<Rightarrow> ret y)"

definition hclose :: "henv \<Rightarrow> conn \<Rightarrow> unit hop" where
  \<comment> \<open>the error of \<open>Close\<close> is ignored\<close>
  "hclose E c = bnd (attempt (hcall E (HClose c))) (\<lambda>_. ret ())"

definition hexec :: "henv \<Rightarrow> conn \<Rightarrow> string \<Rightarrow> unit hop" where
  "hexec E c sql = bnd (hcall E (HExec c sql)) (\<lambda>_. ret ())"

definition hquery_row :: "henv \<Rightarrow> conn \<Rightarrow> string \<Rightarrow> cell list \<Rightarrow> (cell list \<Rightarrow> 'a option) \<Rightarrow> 'a hop" where
  \<comment> \<open>\<open>QueryRow(...).Scan(...)\<close>\<close>
  "hquery_row E c sql args scan = bnd (hcall E (HQueryRow c sql args))
     (hdecode (\<lambda>x. case x of HRow cs \<Rightarrow> scan cs | _ \<Rightarrow> None))"

fun scan_rows :: "(cell list \<Rightarrow> 'a option) \<Rightarrow> cell list list \<Rightarrow> 'a list option" where
  "scan_rows scan [] = Some []"
| "scan_rows scan (r # rs) = (case scan r of
       None \<Rightarrow> None
     | Some x \<Rightarrow> map_option (\<lambda>xs. x # xs) (scan_rows scan rs))"

text \<open>The loop over \<open>rows.Next\<close>, in which a row that does not scan ends it, then \<open>rows.Err\<close>.\<close>

definition hquery ::
  "henv \<Rightarrow> conn \<Rightarrow> string \<Rightarrow> cell list \<Rightarrow> string list \<Rightarrow> (cell list \<Rightarrow> 'a option) \<Rightarrow> 'a list hop" where
  "hquery E c sql args names scan = bnd (hcall E (HQuery c sql args names)) (\<lambda>x. case x of
     HRows rs err \<Rightarrow> (case scan_rows scan rs of
         None \<Rightarrow> fail ScanFailed
       | Some xs \<Rightarrow> (case err of Some e \<Rightarrow> fail e | None \<Rightarrow> ret xs))
   | _ \<Rightarrow> fail ScanFailed)"

definition hselect :: "henv \<Rightarrow> bool hop" where
  \<comment> \<open>\<open>select\<close> between \<open>ctx.Done\<close> and the ticker: whether the context is done\<close>
  "hselect E = bnd (attempt (hcall E HSelect)) (\<lambda>r. ret (r = Inr (HSelected True)))"

fun scan_text :: "cell list \<Rightarrow> string option" where
  "scan_text [CText s] = Some s"
| "scan_text _ = None"

fun scan_int :: "cell list \<Rightarrow> int option" where
  "scan_int [CInt n] = Some n"
| "scan_int _ = None"

fun scan_bool :: "cell list \<Rightarrow> bool option" where
  "scan_bool [CBool b] = Some b"
| "scan_bool _ = None"

text \<open>\<open>defer conn.Close(ctx)\<close>: the connection is closed however the function returns.\<close>

definition defer_close :: "henv \<Rightarrow> conn \<Rightarrow> 'a hop \<Rightarrow> 'a hop" where
  "defer_close E c m = (\<lambda>h. case m h of (r, h') \<Rightarrow> (r, snd (hclose E c h')))"

subsection \<open>\<open>connectdb.go\<close>\<close>

text \<open>In milliseconds.\<close>

definition connectTimeout :: int where "connectTimeout = 100"

datatype connectoption = connectwithhostname string | connectwithdbname string

fun apply_option :: "connectoption \<Rightarrow> pgconfig \<Rightarrow> pgconfig" where
  "apply_option (connectwithhostname h) c = c\<lparr>pg_Host := h\<rparr>"
| "apply_option (connectwithdbname d) c = c\<lparr>pg_Database := d\<rparr>"

definition conn_string :: "helper_flags \<Rightarrow> string" where
  "conn_string f = ''host='' @ fl_dbhost f @ '' port='' @ show_int (fl_dbport f) @ '' user='' @ fl_dbuser f
     @ '' password='' @ fl_dbpassword f @ '' database='' @ fl_dbname f @ '' sslmode=disable''"

fun connect_retry :: "henv \<Rightarrow> pgconfig \<Rightarrow> nat \<Rightarrow> conn hop" where
  "connect_retry E cfg retries =
     bnd (attempt (bnd (hcall E (HConnect cfg)) (hdecode (\<lambda>x. case x of HConn c \<Rightarrow> Some c | _ \<Rightarrow> None)))) (\<lambda>r.
     case r of
       Inr c \<Rightarrow> ret c
     | Inl e \<Rightarrow> (case retries of
           0 \<Rightarrow> fail e
         | Suc n \<Rightarrow> bnd (attempt (hcall E HSleep)) (\<lambda>_. connect_retry E cfg n)))"

declare connect_retry.simps [simp del]

definition connectdb :: "henv \<Rightarrow> connectoption list \<Rightarrow> conn hop" where
  "connectdb E options = bnd (of_sum (he_parse E (conn_string (he_flags E)))) (\<lambda>cfg.
     connect_retry E (foldl (\<lambda>c opt. apply_option opt c) (cfg\<lparr>pg_ConnectTimeout := connectTimeout\<rparr>) options) 10)"

text \<open>
  On a done context the source returns its named results as they are: after a failure the
  error, but after a server in recovery the connection it has just closed, and no error.
\<close>

fun connectprimarydb :: "henv \<Rightarrow> nat \<Rightarrow> conn hop" where
  "connectprimarydb E 0 = fail OutOfFuel"
| "connectprimarydb E (Suc fuel) = bnd (attempt (connectdb E [])) (\<lambda>r. case r of
     Inl e \<Rightarrow> bnd (hselect E) (\<lambda>done. if done then fail e else connectprimarydb E fuel)
   | Inr c \<Rightarrow> bnd (attempt (hquery_row E c ''SELECT pg_is_in_recovery()'' [] scan_bool)) (\<lambda>q.
       if q = Inr False then ret c
       else bnd (hclose E c) (\<lambda>_. bnd (hselect E) (\<lambda>done.
         if done then (case q of Inl e \<Rightarrow> fail e | Inr _ \<Rightarrow> ret c)
         else connectprimarydb E fuel))))"

subsection \<open>\<open>preupgrade-sync.go\<close>\<close>

definition readPrimaryWalLsn :: "henv \<Rightarrow> conn \<Rightarrow> string hop" where
  "readPrimaryWalLsn E c = hquery_row E c ''SELECT pg_current_wal_lsn()'' [] scan_text"

definition replicas_query :: string where
  "replicas_query = ''SELECT client_addr FROM pg_catalog.pg_stat_replication WHERE application_name = ANY ($1) AND replay_lsn >= $2''"

text \<open>Asks again, without a pause, until there are as many replicas as members but one.\<close>

fun readReplicas :: "henv \<Rightarrow> string list \<Rightarrow> conn \<Rightarrow> string \<Rightarrow> nat \<Rightarrow> string list hop" where
  "readReplicas E members c lsn 0 = fail OutOfFuel"
| "readReplicas E members c lsn (Suc fuel) =
     bnd (hquery E c replicas_query [CText lsn] members scan_text) (\<lambda>ips.
     if int (length ips) = int (length members) - 1 then ret ips
     else readReplicas E members c lsn fuel)"

definition waitReplica :: "henv \<Rightarrow> string \<Rightarrow> string \<Rightarrow> unit hop" where
  "waitReplica E ip lsn = bnd (connectdb E [connectwithhostname ip]) (\<lambda>c. defer_close E c (
     bnd (hquery_row E c ''SELECT pg_wal_lsn_diff($1, pg_last_wal_replay_lsn())'' [CText lsn] scan_int) (\<lambda>diff.
     if diff > 0 then fail (Lagging diff)
     else hexec E c ''CHECKPOINT'')))"

text \<open>The counter is an \<open>atomic.Int32\<close>; an error is logged and not counted.\<close>

definition waitReplicas :: "henv \<Rightarrow> string list \<Rightarrow> string list \<Rightarrow> string \<Rightarrow> bool hop" where
  "waitReplicas E members ips lsn = bnd (gets (\<lambda>h. he_order E h ips)) (\<lambda>order.
     bnd (for_acc order (0 :: int32) (\<lambda>ip synced.
       bnd (attempt (waitReplica E ip lsn)) (\<lambda>r. ret (case r of Inl _ \<Rightarrow> synced | Inr _ \<Rightarrow> synced + 1)))) (\<lambda>synced.
     ret (sint synced = int (length members) - 1)))"

fun waitReplicasReplayLSN :: "henv \<Rightarrow> string list \<Rightarrow> conn \<Rightarrow> string \<Rightarrow> nat \<Rightarrow> unit hop" where
  "waitReplicasReplayLSN E members c lsn 0 = fail OutOfFuel"
| "waitReplicasReplayLSN E members c lsn (Suc fuel) =
     bnd (readReplicas E members c lsn fuel) (\<lambda>ips.
     bnd (waitReplicas E members ips lsn) (\<lambda>synced.
     if synced then ret ()
     else bnd (hselect E) (\<lambda>done.
       if done then fail DeadlineExceeded else waitReplicasReplayLSN E members c lsn fuel)))"

text \<open>One round: checkpoint, position, replicas, and by how much the position has moved since.\<close>

fun syncLoop :: "henv \<Rightarrow> string list \<Rightarrow> conn \<Rightarrow> nat \<Rightarrow> unit hop" where
  "syncLoop E members c 0 = fail OutOfFuel"
| "syncLoop E members c (Suc fuel) =
     bnd (hexec E c ''CHECKPOINT'') (\<lambda>_.
     bnd (readPrimaryWalLsn E c) (\<lambda>wal_lsn.
     bnd (waitReplicasReplayLSN E members c wal_lsn fuel) (\<lambda>_.
     bnd (hquery_row E c ''SELECT pg_wal_lsn_diff(pg_current_wal_lsn(), $1)'' [CText wal_lsn] scan_int) (\<lambda>increase.
     if increase = 0 then ret () else syncLoop E members c fuel))))"

definition syncRestorePoints :: "henv \<Rightarrow> string list \<Rightarrow> nat \<Rightarrow> unit hop" where
  "syncRestorePoints E members fuel = bnd (connectprimarydb E fuel) (\<lambda>c.
     defer_close E c (syncLoop E members c fuel))"

text \<open>Within two seconds, which the HTTP client sees to.\<close>

definition pauseCluster :: "henv \<Rightarrow> unit hop" where
  "pauseCluster E =
     (let url = ''http://'' @ fl_dbhost (he_flags E) @ '':8008/config'';
          body = ''{'' @ [CHR 0x22] @ ''pause'' @ [CHR 0x22] @ '':true}'' in
      bnd (hcall E (HNewRequest ''PATCH'' url)) (\<lambda>_.
      bnd (bnd (hcall E (HDo url body)) (hdecode (\<lambda>x. case x of HStatus n \<Rightarrow> Some n | _ \<Rightarrow> None))) (\<lambda>status.
      bnd (hcall E HDrain) (\<lambda>_.
      if status \<ge> 200 \<and> status < 300 then ret () else fail (UnexpectedStatus status)))))"

definition memberNames :: "helper_flags \<Rightarrow> string list" where
  "memberNames f = map (\<lambda>i. indexed (fl_clustername f) i) [0 ..< nat (fl_clustersize f)]"

definition preupgradesyncfn :: "henv \<Rightarrow> nat \<Rightarrow> unit hop" where
  "preupgradesyncfn E fuel =
     bnd (syncRestorePoints E (memberNames (he_flags E)) fuel) (\<lambda>_.
     when_op (fl_pause (he_flags E)) (pauseCluster E))"

subsection \<open>\<open>preupgrade.go\<close>\<close>

fun scan_bool_int :: "cell list \<Rightarrow> (bool \<times> int) option" where
  "scan_bool_int [CBool b, CInt n] = Some (b, n)"
| "scan_bool_int _ = None"

definition settings_query :: string where
  "settings_query = ''SELECT'' @ [CHR 0x0A, CHR 0x09, CHR 0x09] @
     ''pg_catalog.current_setting('' @ [CHR 0x27] @ ''data_checksums'' @ [CHR 0x27] @ '')::bool,'' @
     [CHR 0x0A, CHR 0x09, CHR 0x09] @
     ''pg_catalog.current_setting('' @ [CHR 0x27] @ ''max_prepared_transactions'' @ [CHR 0x27] @ '')::int''"

definition marshal_config :: "config \<Rightarrow> string" where
  "marshal_config c = marshal (JObj [(''Locale'', JStr (cfg_Locale c)), (''Encoding'', JStr (cfg_Encoding c)),
     (''DataChecksums'', JBool (cfg_DataChecksums c)),
     (''MaxPreparedTransactions'', JNum (show_int (cfg_MaxPreparedTransactions c)))])"

definition preupgradefn :: "henv \<Rightarrow> unit hop" where
  "preupgradefn E = bnd (connectdb E []) (\<lambda>c. defer_close E c (
     bnd (hquery_row E c ''SHOW lc_collate'' [] scan_text) (\<lambda>locale.
     bnd (hquery_row E c ''SHOW server_encoding'' [] scan_text) (\<lambda>encoding.
     bnd (hquery_row E c settings_query [] scan_bool_int) (\<lambda>(checksums, max_prepared).
     let out = marshal_config \<lparr>cfg_Locale = locale, cfg_Encoding = encoding,
       cfg_DataChecksums = checksums, cfg_MaxPreparedTransactions = max_prepared\<rparr> in
     bnd (bnd (hcall E (HWrite out)) (hdecode (\<lambda>x. case x of HWritten n \<Rightarrow> Some n | _ \<Rightarrow> None))) (\<lambda>n.
     if n < int (length out) then fail ErrShortWrite else ret ()))))))"

subsection \<open>\<open>postupgrade.go\<close>\<close>

definition readdatabases :: "henv \<Rightarrow> string list hop" where
  "readdatabases E = bnd (connectdb E []) (\<lambda>c. defer_close E c
     (hquery E c ''SELECT datname FROM pg_database WHERE datallowconn'' [] [] scan_text))"

definition analyzedatabase :: "henv \<Rightarrow> string \<Rightarrow> unit hop" where
  "analyzedatabase E database = bnd (connectdb E [connectwithdbname database]) (\<lambda>c.
     defer_close E c (hexec E c ''ANALYZE''))"

definition updateextensionsindb :: "henv \<Rightarrow> string \<Rightarrow> unit hop" where
  "updateextensionsindb E database = bnd (connectdb E [connectwithdbname database]) (\<lambda>c. defer_close E c (
     bnd (hquery E c ''SELECT quote_ident(extname) FROM pg_catalog.pg_extension'' [] [] scan_text) (\<lambda>qexts.
     for_each qexts (\<lambda>qext. hexec E c (''ALTER EXTENSION '' @ qext @ '' UPDATE'')))))"

text \<open>The first error sent to the channel is the one that is returned.\<close>

definition updateextensions :: "henv \<Rightarrow> string list \<Rightarrow> unit hop" where
  "updateextensions E databases = bnd (gets (\<lambda>h. he_order E h databases)) (\<lambda>order.
     bnd (for_acc order [] (\<lambda>database errs.
       bnd (attempt (updateextensionsindb E database)) (\<lambda>r.
       ret (case r of Inl e \<Rightarrow> errs @ [e] | Inr _ \<Rightarrow> errs)))) (\<lambda>errs.
     case errs of e # _ \<Rightarrow> fail e | [] \<Rightarrow> ret ()))"

definition postupgradefn :: "henv \<Rightarrow> unit hop" where
  "postupgradefn E =
     bnd (readdatabases E) (\<lambda>databases.
     bnd (updateextensions E databases) (\<lambda>_.
     for_each databases (analyzedatabase E)))"

subsection \<open>\<open>main.go\<close>\<close>

definition modes :: "(string \<times> (henv \<Rightarrow> nat \<Rightarrow> unit hop)) list" where
  "modes = [(UpgradeMODEPre, \<lambda>E fuel. preupgradefn E),
     (UpgradeMODEPreSync, preupgradesyncfn),
     (UpgradeMODEPost, \<lambda>E fuel. postupgradefn E)]"

text \<open>
  \<open>namsral/flag\<close> computes the value of a flag from the environment, the name of the flag and its
  default; it ends the program if a variable's value is not of the flag's type.
\<close>

type_synonym environ = "string \<Rightarrow> string option"

record flag_lib =
  flag_String :: "environ \<Rightarrow> string \<Rightarrow> string \<Rightarrow> string option"
  flag_Int :: "environ \<Rightarrow> string \<Rightarrow> int \<Rightarrow> int option"
  flag_Bool :: "environ \<Rightarrow> string \<Rightarrow> bool \<Rightarrow> bool option"

definition parse_flags :: "flag_lib \<Rightarrow> environ \<Rightarrow> helper_flags option" where
  "parse_flags L env =
     Option.bind (flag_String L env ''dbhost'' []) (\<lambda>dbhost.
     Option.bind (flag_Int L env ''dbport'' 5432) (\<lambda>dbport.
     Option.bind (flag_String L env ''dbuser'' ''postgres'') (\<lambda>dbuser.
     Option.bind (flag_String L env ''dbpassword'' []) (\<lambda>dbpassword.
     Option.bind (flag_String L env ''dbname'' ''postgres'') (\<lambda>dbname.
     Option.bind (flag_String L env ''mode'' []) (\<lambda>mode.
     Option.bind (flag_String L env ''cluster-name'' []) (\<lambda>clustername.
     Option.bind (flag_Int L env ''cluster-size'' 0) (\<lambda>clustersize.
     Option.bind (flag_Bool L env UpgradeMODEPauseFlag False) (\<lambda>pause.
     Some \<lparr>fl_dbhost = dbhost, fl_dbport = dbport, fl_dbuser = dbuser, fl_dbpassword = dbpassword,
       fl_dbname = dbname, fl_mode = mode, fl_clustername = clustername, fl_clustersize = clustersize,
       fl_pause = pause\<rparr>)))))))))"

text \<open>An error is what \<open>log.Fatal\<close> ends the program with.\<close>

definition helper_main :: "henv \<Rightarrow> nat \<Rightarrow> unit hop" where
  "helper_main E fuel = (case map_of modes (fl_mode (he_flags E)) of
       None \<Rightarrow> fail InvalidMode
     | Some opfunc \<Rightarrow> opfunc E fuel)"

end
