(* ===== verification/Helper_Props.thy ===== *)
theory Helper_Props
  imports Helper
begin

section \<open>Properties of the upgrade helper\<close>

text \<open>
  What a run of the helper may send, by rule collection as in \<open>Effects\<close>, how it connects, and what
  it takes for a connection to the primary. At the end the samples its witnesses are evaluated at.
\<close>

subsection \<open>What a run may send\<close>

text \<open>\<open>sends P h t\<close>: the history only grew, by calls that satisfy \<open>P\<close>.\<close>

definition sends :: "(hrequest \<Rightarrow> bool) \<Rightarrow> hevent list \<Rightarrow> hevent list \<Rightarrow> bool" where
  "sends P h t \<longleftrightarrow> (\<exists>es. t = h @ es \<and> list_all (\<lambda>ev. P (fst ev)) es)"

interpretation hcalls: effect "sends P" for P
proof
  show "sends P s s" for s
    by (simp add: sends_def)
  show "sends P s t \<Longrightarrow> sends P t u \<Longrightarrow> sends P s u" for s t u
    by (auto simp: sends_def)
qed

lemma hcall_sends [eff_intro]: "P q \<Longrightarrow> keeps (sends P) (hcall E q)"
  by (auto simp: keeps_def sends_def hcall_def Let_def)

lemma hdecode_sends [eff_intro]: "keeps (sends P) (hdecode f x)"
  unfolding hdecode_def by (intro eff_intro)

lemma db_sends [eff_intro]:
  "P (HClose c) \<Longrightarrow> keeps (sends P) (hclose E c)"
  "P (HExec c sql) \<Longrightarrow> keeps (sends P) (hexec E c sql)"
  "P (HQueryRow c sql args) \<Longrightarrow> keeps (sends P) (hquery_row E c sql args f)"
  "P HSelect \<Longrightarrow> keeps (sends P) (hselect E)"
  unfolding hclose_def hexec_def hquery_row_def hselect_def by (intro eff_intro; simp)+

lemma hquery_sends [eff_intro]:
  "P (HQuery c sql args names) \<Longrightarrow> keeps (sends P) (hquery E c sql args names f)"
  unfolding hquery_def
  by (intro eff_intro) (simp_all split: hanswer.split add: hcalls.eff_fail hcalls.eff_case_option hcalls.eff_ret)

lemma defer_close_sends [eff_intro]:
  assumes "P (HClose c)" and "keeps (sends P) m"
  shows "keeps (sends P) (defer_close E c m)"
proof (rule keepsI)
  fix h r t
  assume run: "defer_close E c m h = (r, t)"
  obtain r' u where m: "m h = (r', u)" by fastforce
  obtain x v where v: "hclose E c u = (x, v)" by fastforce
  from run m v have "t = v" by (simp add: defer_close_def)
  with keepsD [OF assms(2) m] keepsD [OF db_sends(1) [where P = P, OF assms(1)] v] show "sends P h t"
    by (auto intro: hcalls.effect_trans)
qed

lemma connect_sends [eff_intro]:
  assumes "\<And>cfg. P (HConnect cfg)" and "P HSleep"
  shows "keeps (sends P) (connectdb E opts)"
proof -
  have "keeps (sends P) (connect_retry E cfg n)" for cfg n
  proof (induction n)
    case 0
    show ?case by (subst connect_retry.simps) (intro eff_intro; simp add: assms eff_intro)
  next
    case (Suc n)
    then show ?case by (subst connect_retry.simps) (intro eff_intro; simp add: assms eff_intro)
  qed
  then show ?thesis unfolding connectdb_def by (intro eff_intro)
qed

text \<open>The calls of each mode. None changes more of a database than its mode is for.\<close>

fun connecting :: "hrequest \<Rightarrow> bool" where
  "connecting (HConnect _) = True"
| "connecting (HClose _) = True"
| "connecting HSleep = True"
| "connecting HSelect = True"
| "connecting (HQueryRow _ _ _) = True"
| "connecting (HQuery _ _ _ _) = True"
| "connecting _ = False"

fun preupgrade_call :: "hrequest \<Rightarrow> bool" where
  "preupgrade_call (HWrite _) = True"
| "preupgrade_call q = connecting q"

fun sync_call :: "hrequest \<Rightarrow> bool" where
  "sync_call (HExec _ sql) \<longleftrightarrow> sql = ''CHECKPOINT''"
| "sync_call q = connecting q"

fun pause_call :: "hrequest \<Rightarrow> bool" where
  "pause_call (HNewRequest m _) \<longleftrightarrow> m = ''PATCH''"
| "pause_call (HDo _ _) = True"
| "pause_call HDrain = True"
| "pause_call _ = False"

fun postupgrade_call :: "hrequest \<Rightarrow> bool" where
  "postupgrade_call (HExec _ sql) \<longleftrightarrow> sql = ''ANALYZE'' \<or> (\<exists>ext. sql = ''ALTER EXTENSION '' @ ext @ '' UPDATE'')"
| "postupgrade_call q = connecting q"

lemma connectprimarydb_sends [eff_intro]: "keeps (sends sync_call) (connectprimarydb E fuel)"
  by (induction fuel; simp only: connectprimarydb.simps; intro eff_intro; simp)

lemma readReplicas_sends [eff_intro]: "keeps (sends sync_call) (readReplicas E members c lsn fuel)"
  by (induction fuel; simp only: readReplicas.simps; intro eff_intro; simp)

lemma waitReplica_sends [eff_intro]: "keeps (sends sync_call) (waitReplica E ip lsn)"
  unfolding waitReplica_def by (intro eff_intro; simp)

lemma waitReplicas_sends [eff_intro]: "keeps (sends sync_call) (waitReplicas E members ips lsn)"
  unfolding waitReplicas_def by (intro eff_intro)

lemma waitReplicasReplayLSN_sends [eff_intro]:
  "keeps (sends sync_call) (waitReplicasReplayLSN E members c lsn fuel)"
  by (induction fuel; simp only: waitReplicasReplayLSN.simps; intro eff_intro; simp)

lemma syncLoop_sends [eff_intro]: "keeps (sends sync_call) (syncLoop E members c fuel)"
  by (induction fuel; simp only: syncLoop.simps readPrimaryWalLsn_def; intro eff_intro; simp)

lemma syncRestorePoints_sends [eff_intro]: "keeps (sends sync_call) (syncRestorePoints E members fuel)"
  unfolding syncRestorePoints_def by (intro eff_intro) simp

lemma pauseCluster_sends [eff_intro]: "keeps (sends pause_call) (pauseCluster E)"
  unfolding pauseCluster_def Let_def by (intro eff_intro; simp)

lemma preupgradefn_sends: "keeps (sends preupgrade_call) (preupgradefn E)"
  unfolding preupgradefn_def Let_def by (intro eff_intro; simp)

lemma postupgradefn_sends: "keeps (sends postupgrade_call) (postupgradefn E)"
  unfolding postupgradefn_def readdatabases_def updateextensions_def updateextensionsindb_def analyzedatabase_def
  by (intro eff_intro; simp)

lemma sends_mono: "keeps (sends P) m \<Longrightarrow> (\<And>q. P q \<Longrightarrow> Q q) \<Longrightarrow> keeps (sends Q) m"
  by (fastforce simp: keeps_def sends_def list_all_iff)

lemma preupgradesyncfn_sends:
  "keeps (sends (\<lambda>q. sync_call q \<or> pause_call q)) (preupgradesyncfn E fuel)"
  unfolding preupgradesyncfn_def
  by (intro eff_intro sends_mono [OF syncRestorePoints_sends] sends_mono [OF pauseCluster_sends]) simp_all

text \<open>The pause is not requested unless the synchronisation has succeeded and it was asked for.\<close>

lemma pause_when_synced:
  assumes run: "preupgradesyncfn E fuel h = (r, t)"
  shows "sends (\<lambda>q. sync_call q \<or> pause_call q \<and> fl_pause (he_flags E) \<and>
    fst (syncRestorePoints E (memberNames (he_flags E)) fuel h) = Ok ()) h t" (is "sends ?may h t")
proof -
  obtain a u where a: "syncRestorePoints E (memberNames (he_flags E)) fuel h = (a, u)" by fastforce
  have hu: "sends ?may h u"
    using keepsD [OF sends_mono [OF syncRestorePoints_sends, of ?may] a] by simp
  show ?thesis
  proof (cases "a = Ok () \<and> fl_pause (he_flags E)")
    case True
    with run a have "pauseCluster E u = (r, t)"
      by (simp add: preupgradesyncfn_def bnd_run case_unit_Unity)
    from keepsD [OF sends_mono [OF pauseCluster_sends, of ?may] this] True a have "sends ?may u t" by simp
    with hu show ?thesis by (rule hcalls.effect_trans)
  next
    case False
    with run a have "t = u"
      by (cases a) (auto simp: preupgradesyncfn_def bnd_run ret_run case_unit_Unity)
    with hu show ?thesis by simp
  qed
qed

text \<open>
  C24. What each mode of the helper may do. Before the upgrade it only reads, and prints; while it
  synchronises the replicas the one command it runs is \<open>CHECKPOINT\<close>, and the only other effect is
  the request that pauses Patroni, which is not sent unless the synchronisation has succeeded and
  the operator asked for it; after the upgrade it runs \<open>ANALYZE\<close> and \<open>ALTER EXTENSION ... UPDATE\<close>.
  An unknown mode does nothing.
\<close>

theorem helper_calls:
  "case helper_main E fuel h of (r, t) \<Rightarrow>
    (\<exists>es. t = h @ es \<and> list_all (\<lambda>ev.
       if fl_mode (he_flags E) = ''preupgrade'' then preupgrade_call (fst ev)
       else if fl_mode (he_flags E) = ''preupgrade-sync'' then
         sync_call (fst ev) \<or> pause_call (fst ev) \<and> fl_pause (he_flags E) \<and>
           fst (syncRestorePoints E (memberNames (he_flags E)) fuel h) = Ok ()
       else fl_mode (he_flags E) = ''postuprgrade'' \<and> postupgrade_call (fst ev)) es)"
proof -
  obtain r t where run: "helper_main E fuel h = (r, t)" by fastforce
  let ?f = "he_flags E"
  let ?may = "\<lambda>q. if fl_mode ?f = ''preupgrade'' then preupgrade_call q
     else if fl_mode ?f = ''preupgrade-sync'' then sync_call q \<or> pause_call q \<and> fl_pause ?f \<and>
       fst (syncRestorePoints E (memberNames ?f) fuel h) = Ok ()
     else fl_mode ?f = ''postuprgrade'' \<and> postupgrade_call q"
  have "sends ?may h t"
  proof -
    consider "fl_mode ?f = ''preupgrade''" | "fl_mode ?f = ''preupgrade-sync''" | "fl_mode ?f = ''postuprgrade''"
      | "fl_mode ?f \<notin> {''preupgrade'', ''preupgrade-sync'', ''postuprgrade''}" by blast
    then show ?thesis
    proof cases
      case 1
      with run have "preupgradefn E h = (r, t)" by (simp add: helper_main_def modes_def upgrade_modes)
      from keepsD [OF sends_mono [OF preupgradefn_sends, of ?may] this] 1 show ?thesis by simp
    next
      case 2
      with run have "preupgradesyncfn E fuel h = (r, t)" by (simp add: helper_main_def modes_def upgrade_modes)
      then have "sends (\<lambda>q. sync_call q \<or> pause_call q \<and> fl_pause ?f \<and>
          fst (syncRestorePoints E (memberNames ?f) fuel h) = Ok ()) h t" by (rule pause_when_synced)
      with 2 show ?thesis by simp
    next
      case 3
      with run have "postupgradefn E h = (r, t)" by (simp add: helper_main_def modes_def upgrade_modes)
      from keepsD [OF sends_mono [OF postupgradefn_sends, of ?may] this] 3 show ?thesis by simp
    next
      case 4
      with run have "t = h" by (auto simp: helper_main_def modes_def upgrade_modes fail_run)
      then show ?thesis by (simp add: hcalls.effect_refl)
    qed
  qed
  then show ?thesis using run by (simp add: sends_def)
qed

subsection \<open>Connecting\<close>

definition conn_of :: "(herror + hanswer) \<Rightarrow> conn option" where
  "conn_of x = (case x of Inr (HConn c) \<Rightarrow> Some c | _ \<Rightarrow> None)"

lemma attempt_hcall:
  "bnd (attempt (hcall E q)) f h = f (he_ask E h q) (h @ [(q, he_ask E h q)])"
  by (simp add: bnd_run attempt_run hcall_def Let_def split: sum.splits)

lemma connect_once:
  "attempt (bnd (hcall E (HConnect cfg)) (hdecode (\<lambda>x. case x of HConn c \<Rightarrow> Some c | _ \<Rightarrow> None))) h =
     (let x = he_ask E h (HConnect cfg) in
      (Ok (case conn_of x of Some c \<Rightarrow> Inr c | None \<Rightarrow> Inl (case x of Inl e \<Rightarrow> e | Inr _ \<Rightarrow> ScanFailed)),
       h @ [(HConnect cfg, x)]))"
  by (simp add: attempt_run bnd_run hcall_def hdecode_def conn_of_def ret_run fail_run Let_def
      split: sum.splits hanswer.splits)

lemma connect_retry_trace:
  "case connect_retry E cfg n h of (r, t) \<Rightarrow> \<exists>fails x.
     t = h @ concat (map (\<lambda>(e, z). [(HConnect cfg, e), (HSleep, z)]) fails) @ [(HConnect cfg, x)] \<and>
     list_all (\<lambda>(e, z). conn_of e = None) fails \<and> length fails \<le> n \<and>
     (case conn_of x of
        Some c \<Rightarrow> r = Ok c
      | None \<Rightarrow> length fails = n \<and> r = Err (case x of Inl e \<Rightarrow> e | Inr _ \<Rightarrow> ScanFailed))"
proof (induction n arbitrary: h)
  case 0
  let ?x = "he_ask E h (HConnect cfg)"
  have run: "connect_retry E cfg 0 h = (case conn_of ?x of Some c \<Rightarrow> Ok c
      | None \<Rightarrow> Err (case ?x of Inl e \<Rightarrow> e | Inr _ \<Rightarrow> ScanFailed), h @ [(HConnect cfg, ?x)])"
    by (simp add: connect_retry.simps [of E cfg 0] bnd_run connect_once Let_def ret_run fail_run
        split: option.split)
  show ?case unfolding run prod.case
    by (intro exI [of _ "[]"] exI [of _ ?x]) (simp split: option.split)
next
  case (Suc n)
  let ?x = "he_ask E h (HConnect cfg)"
  let ?h = "h @ [(HConnect cfg, ?x)]"
  show ?case
  proof (cases "conn_of ?x")
    case (Some c)
    then show ?thesis
      by (simp add: connect_retry.simps [of E cfg "Suc n"] bnd_run connect_once Let_def ret_run)
        (intro exI [of _ "[]"] exI [of _ ?x]; simp)
  next
    case None
    let ?z = "he_ask E ?h HSleep"
    have step: "connect_retry E cfg (Suc n) h = connect_retry E cfg n (?h @ [(HSleep, ?z)])"
      by (subst connect_retry.simps)
        (simp add: bnd_run [of "attempt (bnd _ _)"] connect_once Let_def None attempt_hcall)
    obtain r t where run: "connect_retry E cfg n (?h @ [(HSleep, ?z)]) = (r, t)" by fastforce
    from Suc.IH [of "?h @ [(HSleep, ?z)]"] obtain fails x where
      "t = (?h @ [(HSleep, ?z)]) @ concat (map (\<lambda>(e, z). [(HConnect cfg, e), (HSleep, z)]) fails) @ [(HConnect cfg, x)]"
      "list_all (\<lambda>(e, z). conn_of e = None) fails" "length fails \<le> n"
      "case conn_of x of Some c \<Rightarrow> r = Ok c
        | None \<Rightarrow> length fails = n \<and> r = Err (case x of Inl e \<Rightarrow> e | Inr _ \<Rightarrow> ScanFailed)"
      unfolding run prod.case by blast
    with None show ?thesis unfolding step run prod.case
      by (intro exI [of _ "(?x, ?z) # fails"] exI [of _ x]) (auto split: option.splits)
  qed
qed

text \<open>
  C27. Connecting ends after at most eleven attempts. It asks for the same configuration each
  time, the flags' with the options applied, sleeps exactly once between two attempts, stops at
  the first success and returns its connection, and otherwise, after ten failures and one more,
  the error of the last. A configuration that does not parse costs no attempt.
\<close>

theorem connectdb_attempts:
  "case connectdb E opts h of (r, t) \<Rightarrow>
    (case he_parse E (conn_string (he_flags E)) of
       Inl e \<Rightarrow> r = Err e \<and> t = h
     | Inr cfg0 \<Rightarrow> (\<exists>fails x.
         let cfg = foldl (\<lambda>c opt. apply_option opt c) (cfg0\<lparr>pg_ConnectTimeout := 100\<rparr>) opts in
         t = h @ concat (map (\<lambda>(e, z). [(HConnect cfg, e), (HSleep, z)]) fails) @ [(HConnect cfg, x)] \<and>
         list_all (\<lambda>(e, z). conn_of e = None) fails \<and> length fails \<le> 10 \<and>
         (case conn_of x of
            Some c \<Rightarrow> r = Ok c
          | None \<Rightarrow> length fails = 10 \<and> r = Err (case x of Inl e \<Rightarrow> e | Inr _ \<Rightarrow> ScanFailed))))"
  using connect_retry_trace
  by (auto simp: connectdb_def connectTimeout_def of_sum_def Let_def ret_run fail_run bnd_run split: sum.splits)

lemma connectdb_Ok:
  assumes "connectdb E opts h = (Ok c, t)"
  obtains es cfg0 where "he_parse E (conn_string (he_flags E)) = Inr cfg0"
    "t = h @ es @ [(HConnect (foldl (\<lambda>c opt. apply_option opt c) (cfg0\<lparr>pg_ConnectTimeout := 100\<rparr>) opts), Inr (HConn c))]"
proof (cases "he_parse E (conn_string (he_flags E))")
  case (Inl e)
  with assms show ?thesis by (simp add: connectdb_def bnd_run fail_run)
next
  case (Inr cfg0)
  let ?cfg = "foldl (\<lambda>c opt. apply_option opt c) (cfg0\<lparr>pg_ConnectTimeout := 100\<rparr>) opts"
  from assms Inr have "connect_retry E ?cfg 10 h = (Ok c, t)"
    by (simp add: connectdb_def connectTimeout_def)
  with connect_retry_trace [where E = E and cfg = ?cfg and n = 10 and h = h] obtain es x where "t = h @ es @ [(HConnect ?cfg, x)]" "conn_of x = Some c"
    by (auto split: option.splits)
  with Inr that show ?thesis by (auto simp: conn_of_def split: sum.splits hanswer.splits)
qed

abbreviation in_recovery :: "conn \<Rightarrow> hrequest" where
  "in_recovery c \<equiv> HQueryRow c ''SELECT pg_is_in_recovery()'' []"

lemma hquery_row_Ok:
  "hquery_row E c sql args scan h = (Ok v, t) \<longleftrightarrow> (\<exists>cs. he_ask E h (HQueryRow c sql args) = Inr (HRow cs) \<and>
     scan cs = Some v \<and> t = h @ [(HQueryRow c sql args, Inr (HRow cs))])"
  by (auto simp: hquery_row_def bnd_Ok_inv hcall_def hdecode_def Let_def fail_inv ret_inv case_option_inv
      split: sum.splits hanswer.splits option.splits)

lemma scan_one [simp]:
  "scan_bool cs = Some b \<longleftrightarrow> cs = [CBool b]" "scan_int cs = Some n \<longleftrightarrow> cs = [CInt n]"
  "scan_text cs = Some s \<longleftrightarrow> cs = [CText s]" "scan_bool_int cs = Some (b, n) \<longleftrightarrow> cs = [CBool b, CInt n]"
  by (auto elim: scan_bool.elims scan_int.elims scan_text.elims scan_bool_int.elims)

lemma hselect_run: "hselect E h = (Ok (he_ask E h HSelect = Inr (HSelected True)), h @ [(HSelect, he_ask E h HSelect)])"
  by (simp add: hselect_def attempt_hcall ret_run)

lemma hclose_run: "hclose E c h = (Ok (), h @ [(HClose c, he_ask E h (HClose c))])"
  by (simp add: hclose_def attempt_hcall ret_run)

abbreviation longer :: "hevent list \<Rightarrow> hevent list \<Rightarrow> bool" where
  "longer \<equiv> sends (\<lambda>_. True)"

lemma longer_iff: "longer h t \<longleftrightarrow> (\<exists>es. t = h @ es)"
  by (auto simp: sends_def list_all_iff)

lemma connectdb_longer: "connectdb E opts h = (r, t) \<Longrightarrow> longer h t"
  by (rule keepsD [where m = "connectdb E opts"], intro eff_intro) simp_all

lemma primary_connection_cases:
  "connectprimarydb E fuel h = (Ok c, t) \<Longrightarrow>
     (\<exists>es. t = h @ es @ [(in_recovery c, Inr (HRow [CBool False]))]) \<or>
     (\<exists>es x. t = h @ es @ [(in_recovery c, Inr (HRow [CBool True])), (HClose c, x), (HSelect, Inr (HSelected True))])"
proof (induction fuel arbitrary: h)
  case 0
  then show ?case by (simp add: fail_run)
next
  case (Suc fuel)
  from Suc.prems obtain a u where a: "attempt (connectdb E []) h = (Ok a, u)"
    and rest: "(case a of Inl e \<Rightarrow> bnd (hselect E) (\<lambda>done. if done then fail e else connectprimarydb E fuel)
      | Inr c' \<Rightarrow> bnd (attempt (hquery_row E c' ''SELECT pg_is_in_recovery()'' [] scan_bool)) (\<lambda>q.
          if q = Inr False then ret c'
          else bnd (hclose E c') (\<lambda>_. bnd (hselect E) (\<lambda>done.
            if done then (case q of Inl e \<Rightarrow> fail e | Inr _ \<Rightarrow> ret c') else connectprimarydb E fuel)))) u = (Ok c, t)"
    unfolding connectprimarydb.simps bnd_Ok_inv by blast
  from a have hu: "longer h u" by (auto simp: attempt_Ok_inv intro: connectdb_longer)
  have later: ?case if "connectprimarydb E fuel v = (Ok c, t)" "longer u v" for v
    using Suc.IH [OF that(1)] hcalls.effect_trans [OF hu that(2)] by (auto simp: longer_iff)
  show ?case
  proof (cases a)
    case (Inl e)
    with rest have "connectprimarydb E fuel (u @ [(HSelect, he_ask E u HSelect)]) = (Ok c, t)"
      by (simp add: bnd_run hselect_run fail_run split: if_splits)
    then show ?thesis by (rule later) (simp add: longer_iff)
  next
    case (Inr c')
    with rest obtain q v where q: "attempt (hquery_row E c' ''SELECT pg_is_in_recovery()'' [] scan_bool) u = (Ok q, v)"
      and rest': "(if q = Inr False then ret c' else bnd (hclose E c') (\<lambda>_. bnd (hselect E) (\<lambda>done.
            if done then (case q of Inl e \<Rightarrow> fail e | Inr _ \<Rightarrow> ret c') else connectprimarydb E fuel))) v = (Ok c, t)"
      by (auto simp: bnd_Ok_inv)
    have "keeps longer (attempt (hquery_row E c' ''SELECT pg_is_in_recovery()'' [] scan_bool))" by (intro eff_intro) simp
    from keepsD [OF this q] have uv: "longer u v" .
    show ?thesis
    proof (cases "q = Inr False")
      case True
      with q rest' hu show ?thesis
        by (auto simp: attempt_Ok_inv hquery_row_Ok ret_run longer_iff)
    next
      case False
      let ?v = "v @ [(HClose c', he_ask E v (HClose c'))]"
      let ?w = "?v @ [(HSelect, he_ask E ?v HSelect)]"
      show ?thesis
      proof (cases "he_ask E ?v HSelect = Inr (HSelected True)")
        case True
        with False rest' obtain b where "q = Inr b" "c = c'" "t = ?w"
          by (auto simp: bnd_run hclose_run hselect_run fail_run ret_run split: sum.splits)
        with False q hu True show ?thesis
          by (auto simp: attempt_Ok_inv hquery_row_Ok longer_iff)
      next
        case wait: False
        with False rest' have "connectprimarydb E fuel ?w = (Ok c, t)"
          by (simp add: bnd_run hclose_run hselect_run)
        then show ?thesis
          by (rule later) (rule hcalls.effect_trans [OF uv], simp add: longer_iff)
      qed
    qed
  qed
qed

text \<open>
  C28. What the program takes for a connection to the primary. It is one whose server has just
  said that it is not in recovery; or, if the context is done at the very moment after a standby
  was asked, the connection to that standby, already closed, and yet without an error.
\<close>

theorem primary_connection:
  "case connectprimarydb E fuel h of
     (Ok c, t) \<Rightarrow>
       (\<exists>es. t = h @ es @ [(in_recovery c, Inr (HRow [CBool False]))]) \<or>
       (\<exists>es x. t = h @ es @ [(in_recovery c, Inr (HRow [CBool True])), (HClose c, x), (HSelect, Inr (HSelected True))])
   | _ \<Rightarrow> True"
  by (cases "connectprimarydb E fuel h"; cases "fst (connectprimarydb E fuel h)")
    (simp_all add: primary_connection_cases)

subsection \<open>Samples\<close>

definition sample_flags :: "string \<Rightarrow> helper_flags" where
  "sample_flags m = \<lparr>fl_dbhost = ''db'', fl_dbport = 55432, fl_dbuser = ''postgres'', fl_dbpassword = ''pw'',
     fl_dbname = ''postgres'', fl_mode = m, fl_clustername = ''db'', fl_clustersize = 2, fl_pause = True\<rparr>"

definition sample_henv :: "(hevent list \<Rightarrow> hrequest \<Rightarrow> herror + hanswer) \<Rightarrow> string \<Rightarrow> henv" where
  "sample_henv answers m = \<lparr>he_ask = answers, he_parse = (\<lambda>_. Inr \<lparr>pg_Host = ''db'', pg_Database = ''postgres'',
     pg_ConnectTimeout = 0, pg_rest = []\<rparr>), he_order = (\<lambda>_ xs. xs), he_flags = sample_flags m\<rparr>"

end
