(* ===== verification/Helper_Ends.thy ===== *)
theory Helper_Ends
  imports Helper_Props
begin

section \<open>The upgrade helper ends\<close>

text \<open>
  The loops of the helper have no bound of their own; the model gives them fuel. Here it is shown
  that fuel only ever cuts a run short, and that once the context is cancelled the run ends.
\<close>

subsection \<open>Fuel\<close>

text \<open>Two runs agree unless the first ran out of fuel. This composes.\<close>

definition agree :: "'a hop \<Rightarrow> 'a hop \<Rightarrow> hevent list \<Rightarrow> bool" where
  "agree m m' h \<longleftrightarrow> fst (m h) = Err OutOfFuel \<or> m' h = m h"

lemma agree_refl [intro]: "agree m m h"
  by (simp add: agree_def)

lemma agree_bnd:
  assumes "agree m m' h" and "\<And>x t. m h = (Ok x, t) \<Longrightarrow> agree (f x) (f' x) t"
  shows "agree (bnd m f) (bnd m' f') h"
  using assms by (cases "m h"; cases "fst (m h)") (auto simp: agree_def bnd_run)

lemma agree_tail: "(\<And>x t. agree (f x) (f' x) t) \<Longrightarrow> agree (bnd m f) (bnd m f') h"
  by (auto intro: agree_bnd)

lemma agree_if: "(b \<Longrightarrow> agree m m' h) \<Longrightarrow> (\<not> b \<Longrightarrow> agree n n' h) \<Longrightarrow>
    agree (if b then m else n) (if b then m' else n') h"
  by simp

lemma agree_sum:
  "(\<And>e. agree (f e) (f' e) h) \<Longrightarrow> (\<And>y. agree (g y) (g' y) h) \<Longrightarrow>
   agree (case x of Inl e \<Rightarrow> f e | Inr y \<Rightarrow> g y) (case x of Inl e \<Rightarrow> f' e | Inr y \<Rightarrow> g' y) h"
  by (cases x) simp_all

lemma agree_defer_close: "agree m m' h \<Longrightarrow> agree (defer_close E c m) (defer_close E c m') h"
  by (auto simp: agree_def defer_close_def split: prod.splits)

lemma connectprimarydb_agree: "n \<le> m \<Longrightarrow> agree (connectprimarydb E n) (connectprimarydb E m) h"
proof (induction n arbitrary: m h)
  case 0
  show ?case by (simp add: agree_def fail_run)
next
  case (Suc n)
  then obtain m' where m: "m = Suc m'" "n \<le> m'" by (cases m) auto
  note IH = Suc.IH [OF m(2)]
  show ?case unfolding m(1) connectprimarydb.simps
    by (intro agree_tail agree_sum agree_if agree_refl IH)
qed

lemma readReplicas_agree: "n \<le> m \<Longrightarrow> agree (readReplicas E ms c lsn n) (readReplicas E ms c lsn m) h"
proof (induction n arbitrary: m h)
  case 0
  show ?case by (simp add: agree_def fail_run)
next
  case (Suc n)
  then obtain m' where m: "m = Suc m'" "n \<le> m'" by (cases m) auto
  show ?case unfolding m(1) readReplicas.simps
    by (intro agree_tail agree_if agree_refl Suc.IH [OF m(2)])
qed

lemma waitReplicasReplayLSN_agree:
  "n \<le> m \<Longrightarrow> agree (waitReplicasReplayLSN E ms c lsn n) (waitReplicasReplayLSN E ms c lsn m) h"
proof (induction n arbitrary: m h)
  case 0
  show ?case by (simp add: agree_def fail_run)
next
  case (Suc n)
  then obtain m' where m: "m = Suc m'" "n \<le> m'" by (cases m) auto
  show ?case unfolding m(1) waitReplicasReplayLSN.simps
    by (intro agree_bnd [OF readReplicas_agree [OF m(2)]] agree_tail agree_if agree_refl Suc.IH [OF m(2)])
qed

lemma syncLoop_agree: "n \<le> m \<Longrightarrow> agree (syncLoop E ms c n) (syncLoop E ms c m) h"
proof (induction n arbitrary: m h)
  case 0
  show ?case by (simp add: agree_def fail_run)
next
  case (Suc n)
  then obtain m' where m: "m = Suc m'" "n \<le> m'" by (cases m) auto
  show ?case unfolding m(1) syncLoop.simps
    by (rule agree_tail, rule agree_tail, rule agree_bnd [OF waitReplicasReplayLSN_agree [OF m(2)]],
        intro agree_tail agree_if agree_refl Suc.IH [OF m(2)])
qed

lemma helper_main_agree: "n \<le> m \<Longrightarrow> agree (helper_main E n) (helper_main E m) h"
proof -
  assume nm: "n \<le> m"
  have "agree (preupgradesyncfn E n) (preupgradesyncfn E m) h"
    unfolding preupgradesyncfn_def syncRestorePoints_def
    by (rule agree_bnd [OF agree_bnd [OF connectprimarydb_agree [OF nm] agree_defer_close [OF syncLoop_agree [OF nm]]]])
      (rule agree_refl)
  then show ?thesis by (auto simp: helper_main_def modes_def upgrade_modes agree_def)
qed

subsection \<open>The helper ends\<close>

text \<open>
  The deadline of its job sends the helper a signal, which cancels the context. From then on the
  driver answers every query and command with an error. A select need not notice at once: where
  the ticker is ready too, which it is after ten seconds of attempts to connect, Go picks one of
  the two at random. So how often the ticker is picked although the context is done is a bound
  \<open>m\<close> of its own, on the answers to the selects alone. The outside never answers with the model's
  own \<open>OutOfFuel\<close>.
\<close>

definition cancelled :: "henv \<Rightarrow> nat \<Rightarrow> bool" where
  "cancelled E k \<longleftrightarrow> (\<forall>h. k \<le> length h \<longrightarrow>
     (\<forall>c sql args. \<exists>e. he_ask E h (HQueryRow c sql args) = Inl e) \<and>
     (\<forall>c sql args names. \<exists>e. he_ask E h (HQuery c sql args names) = Inl e) \<and>
     (\<forall>c sql. \<exists>e. he_ask E h (HExec c sql) = Inl e))"

definition ticker_picked :: "hevent \<Rightarrow> bool" where
  "ticker_picked ev \<longleftrightarrow> fst ev = HSelect \<and> snd ev \<noteq> Inr (HSelected True)"

definition picked :: "nat \<Rightarrow> hevent list \<Rightarrow> nat" where
  "picked k h = length (filter ticker_picked (drop k h))"

definition noticed :: "henv \<Rightarrow> nat \<Rightarrow> nat \<Rightarrow> bool" where
  "noticed E k m \<longleftrightarrow> (\<forall>h. k \<le> length h \<longrightarrow> m \<le> picked k h \<longrightarrow> he_ask E h HSelect = Inr (HSelected True))"

lemma picked_append: "picked k (h @ es) \<ge> picked k h"
  by (simp add: picked_def)

lemma picked_select:
  "k \<le> length h \<Longrightarrow> picked k (h @ [(HSelect, a)]) = picked k h + (if a = Inr (HSelected True) then 0 else 1)"
  by (simp add: picked_def ticker_picked_def)

text \<open>What is left until every select returns.\<close>

definition left :: "nat \<Rightarrow> nat \<Rightarrow> hevent list \<Rightarrow> nat" where
  "left k m h = (k - length h) + (m - picked k h)"

lemma left_longer: "longer h t \<Longrightarrow> left k m t \<le> left k m h"
  using picked_append [of k h] by (auto simp: longer_iff left_def intro!: add_mono diff_le_mono2)

lemma left_select:
  assumes "noticed E k m" and "hselect E h = (Ok False, t)"
  shows "left k m t < left k m h"
proof -
  from assms(2) have a: "he_ask E h HSelect \<noteq> Inr (HSelected True)" and t: "t = h @ [(HSelect, he_ask E h HSelect)]"
    by (auto simp: hselect_run)
  show ?thesis
  proof (cases "k \<le> length h")
    case True
    with a assms(1) have "picked k h < m" by (metis noticed_def not_less)
    with True a show ?thesis by (simp add: t left_def picked_select)
  next
    case False
    with picked_append [of k h "[(HSelect, he_ask E h HSelect)]"] show ?thesis by (simp add: t left_def)
  qed
qed

definition real_errors :: "henv \<Rightarrow> bool" where
  "real_errors E \<longleftrightarrow> (\<forall>h q. he_ask E h q \<noteq> Inl OutOfFuel \<and>
       (\<forall>rs. he_ask E h q \<noteq> Inr (HRows rs (Some OutOfFuel)))) \<and> (\<forall>s. he_parse E s \<noteq> Inl OutOfFuel)"

definition ends :: "'a hop \<Rightarrow> hevent list \<Rightarrow> bool" where
  "ends m h \<longleftrightarrow> fst (m h) \<noteq> Err OutOfFuel"

lemma ends_simps [simp]:
  "ends (ret x) h" "ends (fail e) h \<longleftrightarrow> e \<noteq> OutOfFuel" "ends (attempt m) h"
  "ends (hselect E) h" "ends (hclose E c) h" "ends (gets f) h"
  by (auto simp: ends_def ret_run fail_run attempt_run hselect_run hclose_run gets_run split: prod.splits res.splits)

lemma ends_bnd: "ends m h \<Longrightarrow> (\<And>x t. m h = (Ok x, t) \<Longrightarrow> ends (f x) t) \<Longrightarrow> ends (bnd m f) h"
  by (cases "m h"; cases "fst (m h)") (auto simp: ends_def bnd_run)

lemma ends_defer_close: "ends m h \<Longrightarrow> ends (defer_close E c m) h"
  by (auto simp: ends_def defer_close_def split: prod.splits)

lemma ends_calls:
  assumes "real_errors E"
  shows "ends (hcall E q) h" "ends (hexec E c sql) h" "ends (hquery_row E c sql args scan) h"
    "ends (hquery E c sql args names scan) h"
  using assms
  by (auto simp: real_errors_def ends_def hcall_def hexec_def hquery_row_def hquery_def hdecode_def bnd_run
      Let_def ret_run fail_run split: sum.splits hanswer.splits option.splits)

lemma call_times:
  assumes "cancelled E k"
  shows "hexec E c sql h = (Ok u, t) \<Longrightarrow> length h < k \<and> length t = Suc (length h)"
    and "hquery_row E c sql args scan h = (Ok v, t) \<Longrightarrow> length h < k \<and> length t = Suc (length h)"
    and "hquery E c sql args names scan h = (Ok w, t) \<Longrightarrow> length h < k \<and> length t = Suc (length h)"
proof -
  have no: "k \<le> length h \<Longrightarrow> he_ask E h (HQueryRow c sql args) \<noteq> Inr x"
    "k \<le> length h \<Longrightarrow> he_ask E h (HQuery c sql args names) \<noteq> Inr x"
    "k \<le> length h \<Longrightarrow> he_ask E h (HExec c sql) \<noteq> Inr x" for x
    using assms unfolding cancelled_def by (metis sum.distinct(1))+
  show "hexec E c sql h = (Ok u, t) \<Longrightarrow> length h < k \<and> length t = Suc (length h)"
    using no(3) by (cases "k \<le> length h")
      (auto simp: hexec_def bnd_Ok_inv hcall_def Let_def ret_inv split: sum.splits)
  show "hquery_row E c sql args scan h = (Ok v, t) \<Longrightarrow> length h < k \<and> length t = Suc (length h)"
    using no(1) by (cases "k \<le> length h") (auto simp: hquery_row_Ok)
  show "hquery E c sql args names scan h = (Ok w, t) \<Longrightarrow> length h < k \<and> length t = Suc (length h)"
    using no(2) by (cases "k \<le> length h")
      (auto simp: hquery_def bnd_Ok_inv hcall_def Let_def ret_inv fail_inv split: sum.splits hanswer.splits option.splits)
qed

lemma longer_length: "longer h t \<Longrightarrow> length h \<le> length t"
  by (auto simp: longer_iff)

lemma hselect_length: "hselect E h = (Ok b, t) \<Longrightarrow> length t = Suc (length h)"
  by (auto simp: hselect_run)

lemma sync_longer:
  "readReplicas E ms c lsn n h = (r1, t) \<Longrightarrow> length h \<le> length t"
  "waitReplicas E ms ips lsn h = (r2, t) \<Longrightarrow> length h \<le> length t"
  "waitReplicasReplayLSN E ms c lsn n h = (r3, t) \<Longrightarrow> length h \<le> length t"
  "connectprimarydb E n h = (r4, t) \<Longrightarrow> length h \<le> length t"
  by (blast intro: longer_length keepsD [OF sends_mono [OF readReplicas_sends, of "\<lambda>_. True"]]
      keepsD [OF sends_mono [OF waitReplicas_sends, of "\<lambda>_. True"]]
      keepsD [OF sends_mono [OF waitReplicasReplayLSN_sends, of "\<lambda>_. True"]]
      keepsD [OF sends_mono [OF connectprimarydb_sends, of "\<lambda>_. True"]])+

lemma readReplicas_ends:
  assumes "cancelled E k" "real_errors E"
  shows "0 < n \<Longrightarrow> k < n + length h \<Longrightarrow> ends (readReplicas E ms c lsn n) h"
proof (induction n arbitrary: h)
  case (Suc n)
  show ?case unfolding readReplicas.simps
  proof (rule ends_bnd [OF ends_calls(4) [OF assms(2)]])
    fix ips t
    assume "hquery E c replicas_query [CText lsn] ms scan_text h = (Ok ips, t)"
    from call_times(3) [OF assms(1) this] Suc
    show "ends (if int (length ips) = int (length ms) - 1 then ret ips else readReplicas E ms c lsn n) t" by simp
  qed
qed simp

lemma readReplicas_early:
  assumes "cancelled E k"
  shows "readReplicas E ms c lsn n h = (Ok ips, t) \<Longrightarrow> length h < k"
proof (induction n arbitrary: h)
  case (Suc n)
  then obtain ips' u where "hquery E c replicas_query [CText lsn] ms scan_text h = (Ok ips', u)"
    by (auto simp: bnd_Ok_inv)
  from call_times(3) [OF assms this] show ?case by blast
qed (simp add: fail_inv)

lemma waitReplicas_ends: "ends (waitReplicas E ms ips lsn) h"
proof -
  have "ends (for_acc xs a (\<lambda>ip synced. bnd (attempt (waitReplica E ip lsn))
      (\<lambda>r. ret (case r of Inl _ \<Rightarrow> synced | Inr _ \<Rightarrow> synced + 1)))) h" for xs and a :: int32 and h
    by (induction xs arbitrary: a h) (auto intro!: ends_bnd)
  then show ?thesis unfolding waitReplicas_def by (intro ends_bnd) simp_all
qed

lemma waitReplicasReplayLSN_ends:
  assumes "cancelled E k" "real_errors E"
  shows "2 \<le> n \<Longrightarrow> k + 1 < n + length h \<Longrightarrow> ends (waitReplicasReplayLSN E ms c lsn n) h"
proof (induction n arbitrary: h)
  case (Suc n)
  show ?case unfolding waitReplicasReplayLSN.simps
  proof (intro ends_bnd waitReplicas_ends)
    show "ends (readReplicas E ms c lsn n) h"
      using Suc.prems by (intro readReplicas_ends [OF assms]) simp_all
  next
    fix ips t synced u
    assume "readReplicas E ms c lsn n h = (Ok ips, t)" "waitReplicas E ms ips lsn t = (Ok synced, u)"
    then have "length h \<le> length u" "length h < k"
      using sync_longer(1,2) readReplicas_early [OF assms(1)] by (meson le_trans)+
    then show "ends (if synced then ret () else bnd (hselect E) (\<lambda>done.
        if done then fail DeadlineExceeded else waitReplicasReplayLSN E ms c lsn n)) u"
      using Suc by (auto intro!: ends_bnd dest: hselect_length)
  qed
qed simp

lemma syncLoop_ends:
  assumes "cancelled E k" "real_errors E"
  shows "3 \<le> n \<Longrightarrow> k + 2 < n + length h \<Longrightarrow> ends (syncLoop E ms c n) h"
proof (induction n arbitrary: h)
  case (Suc n)
  show ?case unfolding syncLoop.simps readPrimaryWalLsn_def
  proof (intro ends_bnd ends_calls [OF assms(2)])
    fix x t wal_lsn u
    assume t: "hexec E c ''CHECKPOINT'' h = (Ok x, t)"
      and u: "hquery_row E c ''SELECT pg_current_wal_lsn()'' [] scan_text t = (Ok wal_lsn, u)"
    note tu = call_times(1) [OF assms(1) t] call_times(2) [OF assms(1) u]
    then show "ends (waitReplicasReplayLSN E ms c wal_lsn n) u"
      using Suc.prems by (intro waitReplicasReplayLSN_ends [OF assms]) auto
    fix y v increase w
    assume v: "waitReplicasReplayLSN E ms c wal_lsn n u = (Ok y, v)"
      and w: "hquery_row E c ''SELECT pg_wal_lsn_diff(pg_current_wal_lsn(), $1)'' [CText wal_lsn] scan_int v = (Ok increase, w)"
    from tu sync_longer(3) [OF v] call_times(2) [OF assms(1) w] Suc
    show "ends (if increase = 0 then ret () else syncLoop E ms c n) w" by auto
  qed
qed simp

lemma ends_more:
  "ends (hdecode f x) h"
  "(b \<Longrightarrow> ends m h) \<Longrightarrow> (\<not> b \<Longrightarrow> ends m' h) \<Longrightarrow> ends (if b then m else m') h"
  "(b \<Longrightarrow> ends n h) \<Longrightarrow> ends (when_op b n) h"
  "(\<And>x y. z = (x, y) \<Longrightarrow> ends (g x y) h) \<Longrightarrow> ends (case z of (x, y) \<Rightarrow> g x y) h"
  by (auto simp: hdecode_def when_op_def split: option.splits prod.splits)

lemma ends_for_each: "(\<And>x h. ends (f x) h) \<Longrightarrow> ends (for_each xs f) h"
  by (induction xs arbitrary: h) (auto intro!: ends_bnd)

lemma connectdb_real:
  assumes "real_errors E"
  shows "ends (connectdb E opts) h"
proof -
  have "ends (connect_retry E cfg n) h" for cfg n h
  proof (induction n arbitrary: h)
    case 0
    show ?case using assms
      by (auto simp: connect_retry.simps [of E cfg 0] ends_def bnd_run connect_once Let_def ret_run fail_run
          real_errors_def split: option.split sum.split)
  next
    case (Suc n)
    then show ?case
      by (simp add: connect_retry.simps [of E cfg "Suc n"] ends_def bnd_run [of "attempt (bnd _ _)"] connect_once
          attempt_hcall Let_def ret_run split: option.split)
  qed
  with assms show ?thesis
    unfolding connectdb_def by (intro ends_bnd) (auto simp: of_sum_def real_errors_def split: sum.splits)
qed

lemma updateextensions_ends:
  assumes "real_errors E"
  shows "ends (updateextensions E dbs) h"
proof -
  have indb: "ends (updateextensionsindb E db) h" for db h
    unfolding updateextensionsindb_def
    by (intro ends_bnd ends_defer_close ends_for_each ends_calls [OF assms] connectdb_real [OF assms])
  let ?body = "\<lambda>database errs. bnd (attempt (updateextensionsindb E database))
    (\<lambda>r. ret (case r of Inl e \<Rightarrow> errs @ [e] | Inr _ \<Rightarrow> errs))"
  have loop: "ends (for_acc xs acc ?body) h \<and> (\<forall>errs t. for_acc xs acc ?body h = (Ok errs, t) \<longrightarrow>
      OutOfFuel \<notin> set acc \<longrightarrow> OutOfFuel \<notin> set errs)" for xs acc h
  proof (induction xs arbitrary: acc h)
    case (Cons x xs)
    have "OutOfFuel \<notin> set (case r of Inl e \<Rightarrow> acc @ [e] | Inr _ \<Rightarrow> acc)"
      if "attempt (updateextensionsindb E x) h = (Ok r, t)" "OutOfFuel \<notin> set acc" for r t
      using that indb [of x h] by (auto simp: attempt_Ok_inv ends_def)
    note acc = this
    show ?case
    proof (intro conjI allI impI)
      show "ends (for_acc (x # xs) acc ?body) h"
        unfolding for_acc.simps by (rule ends_bnd) (use Cons in \<open>auto intro!: ends_bnd\<close>)
    next
      fix errs t
      assume "for_acc (x # xs) acc ?body h = (Ok errs, t)" and "OutOfFuel \<notin> set acc"
      moreover from this(1) obtain r u where "attempt (updateextensionsindb E x) h = (Ok r, u)"
        "for_acc xs (case r of Inl e \<Rightarrow> acc @ [e] | Inr _ \<Rightarrow> acc) ?body u = (Ok errs, t)"
        unfolding for_acc.simps bnd_Ok_inv ret_inv by blast
      ultimately show "OutOfFuel \<notin> set errs" using acc Cons by blast
    qed
  qed (simp add: ret_inv)
  show ?thesis unfolding updateextensions_def
  proof (intro ends_bnd)
    show "ends (gets (\<lambda>h. he_order E h dbs)) h" by simp
  next
    fix order t errs u
    show "ends (for_acc order [] ?body) t" using loop by blast
    assume "for_acc order [] ?body t = (Ok errs, u)"
    with loop [of order "[]" t] have "OutOfFuel \<notin> set errs" by simp
    then show "ends (case errs of [] \<Rightarrow> ret () | e # _ \<Rightarrow> fail e) u" by (cases errs) auto
  qed
qed

lemma connectprimarydb_ends:
  assumes "noticed E k m" "real_errors E"
  shows "left k m h < n \<Longrightarrow> ends (connectprimarydb E n) h"
proof (induction n arbitrary: h)
  case (Suc n)
  have again: "ends (bnd (hselect E) (\<lambda>done. if done then w else connectprimarydb E n)) u"
    if "longer h u" "ends w (u @ [(HSelect, he_ask E u HSelect)])" for u w
  proof (rule ends_bnd)
    fix d t
    assume t: "hselect E u = (Ok d, t)"
    have "ends (connectprimarydb E n) t" if "\<not> d"
    proof (rule Suc.IH)
      from t that have "left k m t < left k m u" using left_select [OF assms(1), of u t] by simp
      with left_longer [OF \<open>longer h u\<close>, of k m] Suc.prems show "left k m t < n" by simp
    qed
    with that(2) t show "ends (if d then w else connectprimarydb E n) t" by (auto simp: hselect_run)
  qed simp
  show ?case unfolding connectprimarydb.simps
  proof (intro ends_bnd ends_simps(3))
    fix a u
    assume a: "attempt (connectdb E []) h = (Ok a, u)"
    then have hu: "longer h u" by (auto simp: attempt_Ok_inv intro: connectdb_longer)
    have err: "a \<noteq> Inl OutOfFuel"
      using a connectdb_real [OF assms(2), of "[]" h] by (auto simp: attempt_Ok_inv ends_def)
    show "ends (case a of Inl e \<Rightarrow> bnd (hselect E) (\<lambda>done. if done then fail e else connectprimarydb E n)
      | Inr c \<Rightarrow> bnd (attempt (hquery_row E c ''SELECT pg_is_in_recovery()'' [] scan_bool)) (\<lambda>q.
          if q = Inr False then ret c
          else bnd (hclose E c) (\<lambda>_. bnd (hselect E) (\<lambda>done.
            if done then (case q of Inl e \<Rightarrow> fail e | Inr _ \<Rightarrow> ret c) else connectprimarydb E n)))) u"
    proof (cases a)
      case (Inl e)
      with err again [OF hu] show ?thesis by simp
    next
      case (Inr c)
      have "ends (if q = Inr False then ret c
          else bnd (hclose E c) (\<lambda>_. bnd (hselect E) (\<lambda>done.
            if done then (case q of Inl e \<Rightarrow> fail e | Inr _ \<Rightarrow> ret c) else connectprimarydb E n))) v"
        if q: "attempt (hquery_row E c ''SELECT pg_is_in_recovery()'' [] scan_bool) u = (Ok q, v)" for q v
      proof -
        have "keeps longer (attempt (hquery_row E c ''SELECT pg_is_in_recovery()'' [] scan_bool))" by (intro eff_intro) simp
        from hcalls.effect_trans [OF hu keepsD [OF this q]] have hv: "longer h v" .
        have hw: "longer h (v @ es)" for es using hv by (auto simp: longer_iff)
        moreover have "q \<noteq> Inl OutOfFuel"
          using q ends_calls(3) [OF assms(2), of c "''SELECT pg_is_in_recovery()''" "[]" scan_bool u]
          by (auto simp: attempt_Ok_inv ends_def)
        ultimately show ?thesis by (auto intro!: ends_bnd again simp: hclose_run split: sum.splits)
      qed
      with Inr show ?thesis by (simp add: ends_bnd)
    qed
  qed
qed simp

text \<open>
  C20. The helper ends, and the fuel of the model decides nothing. If after \<open>k\<close> calls the
  context is cancelled, as the deadline of its job sees to, and from then on a select picks the
  ticker at most \<open>m\<close> times, the program returns, in every mode, from every history: with
  \<open>k + m + 4\<close> units of fuel it does not run out, and with any larger amount it does exactly the
  same.
\<close>

theorem helper_terminates:
  assumes "cancelled E k" and "noticed E k m" and "real_errors E"
  shows "fst (helper_main E (k + m + 4) h) \<noteq> Err OutOfFuel \<and>
    helper_main E (k + m + 4 + n) h = helper_main E (k + m + 4) h"
proof -
  let ?n = "k + m + 4"
  have sync: "ends (preupgradesyncfn E ?n) h"
    unfolding preupgradesyncfn_def syncRestorePoints_def
  proof (intro ends_bnd ends_defer_close)
    show "ends (connectprimarydb E ?n) h" by (rule connectprimarydb_ends [OF assms(2,3)]) (simp add: left_def)
    show "ends (syncLoop E (memberNames (he_flags E)) c ?n) t" for c t
      by (rule syncLoop_ends [OF assms(1,3)]) simp_all
    show "ends (when_op (fl_pause (he_flags E)) (pauseCluster E)) t" for t
      unfolding pauseCluster_def Let_def
      by (intro ends_more ends_bnd ends_calls [OF assms(3)]; simp)
  qed
  have pre: "ends (preupgradefn E) h"
    unfolding preupgradefn_def Let_def
    by (intro ends_more ends_bnd ends_defer_close ends_calls [OF assms(3)] connectdb_real [OF assms(3)]; simp)
  have post: "ends (postupgradefn E) h"
    unfolding postupgradefn_def readdatabases_def analyzedatabase_def
    by (intro ends_more ends_bnd ends_defer_close ends_for_each ends_calls [OF assms(3)] connectdb_real [OF assms(3)]
        updateextensions_ends [OF assms(3)])
  have "ends (helper_main E ?n) h"
    using sync pre post by (auto simp: helper_main_def modes_def upgrade_modes)
  then have "fst (helper_main E ?n h) \<noteq> Err OutOfFuel" by (simp add: ends_def)
  with helper_main_agree [of ?n "?n + n" E h] show ?thesis by (simp add: agree_def)
qed

text \<open>
  A standby that answers four calls; then the context is cancelled, and of the selects that
  follow the first two pick the ticker all the same.
\<close>

definition four_calls :: "hevent list \<Rightarrow> hrequest \<Rightarrow> herror + hanswer" where
  "four_calls h q = (case q of
     HSelect \<Rightarrow> Inr (HSelected (2 \<le> picked 4 h))
   | _ \<Rightarrow> if length h \<ge> 4 then Inl (DbError ''canceled'') else (case q of
       HConnect _ \<Rightarrow> Inr (HConn 0)
     | HQueryRow _ sql _ \<Rightarrow> Inr (HRow [if sql = ''SELECT pg_is_in_recovery()'' then CBool True else CText ''0/1''])
     | HQuery _ _ _ _ \<Rightarrow> Inr (HRows [] None)
     | _ \<Rightarrow> Inr HDone))"

lemma helper_terminates_witness:
  "fst (helper_main (sample_henv four_calls ''preupgrade-sync'') 10 []) \<noteq> Err OutOfFuel \<and>
   helper_main (sample_henv four_calls ''preupgrade-sync'') 20 [] =
     helper_main (sample_henv four_calls ''preupgrade-sync'') 10 []"
proof -
  have "cancelled (sample_henv four_calls ''preupgrade-sync'') 4"
    by (simp add: cancelled_def sample_henv_def four_calls_def)
  moreover have "noticed (sample_henv four_calls ''preupgrade-sync'') 4 2"
    by (simp add: noticed_def sample_henv_def four_calls_def)
  moreover have "real_errors (sample_henv four_calls ''preupgrade-sync'')"
    by (auto simp: real_errors_def sample_henv_def four_calls_def split: hrequest.split)
  ultimately show ?thesis
    using helper_terminates [of "sample_henv four_calls ''preupgrade-sync''" 4 2 "[]" 10] by simp
qed

end
