(* ===== verification/Helper_Sync.thy ===== *)
theory Helper_Sync
  imports Helper_Props "HOL-Library.Multiset"
begin

section \<open>What the upgrade helper has done when it succeeds\<close>

text \<open>
  The synchronisation of the replicas: from one replica that has caught up to the last round of
  the loop. Each lemma reads off a successful call what it has sent and been told.
\<close>

subsection \<open>The replicas have caught up\<close>

text \<open>Go runs a goroutine for each item of a list, once.\<close>

definition each_once :: "henv \<Rightarrow> bool" where
  "each_once E \<longleftrightarrow> (\<forall>h xs. mset (he_order E h xs) = mset xs)"

text \<open>
  Within the events \<open>es\<close> the replica at \<open>ip\<close> was found to have replayed the log up to \<open>lsn\<close>, and
  made a checkpoint, over a connection to that address.
\<close>

definition caught_up :: "string \<Rightarrow> hevent list \<Rightarrow> string \<Rightarrow> bool" where
  "caught_up lsn es ip \<longleftrightarrow> (\<exists>c cfg d x. (HConnect cfg, Inr (HConn c)) \<in> set es \<and> pg_Host cfg = ip \<and>
     (HQueryRow c ''SELECT pg_wal_lsn_diff($1, pg_last_wal_replay_lsn())'' [CText lsn], Inr (HRow [CInt d])) \<in> set es \<and>
     d \<le> 0 \<and> (HExec c ''CHECKPOINT'', Inr x) \<in> set es)"

lemma caught_up_mono: "caught_up lsn es ip \<Longrightarrow> set es \<subseteq> set es' \<Longrightarrow> caught_up lsn es' ip"
  unfolding caught_up_def by blast

lemma hexec_Ok: "hexec E c sql h = (Ok u, t) \<longleftrightarrow>
    (\<exists>x. he_ask E h (HExec c sql) = Inr x \<and> t = h @ [(HExec c sql, Inr x)])"
  by (auto simp: hexec_def bnd_Ok_inv hcall_def Let_def ret_inv split: sum.splits)

lemma defer_close_Ok:
  "defer_close E c m h = (Ok x, t) \<longleftrightarrow> (\<exists>u. m h = (Ok x, u) \<and> t = u @ [(HClose c, he_ask E u (HClose c))])"
  by (auto simp: defer_close_def hclose_run split: prod.splits)

lemma waitReplica_Ok:
  assumes "waitReplica E ip lsn h = (Ok (), t)"
  shows "\<exists>es. t = h @ es \<and> caught_up lsn es ip"
proof -
  from assms obtain c u where c: "connectdb E [connectwithhostname ip] h = (Ok c, u)"
    and rest: "defer_close E c (bnd (hquery_row E c ''SELECT pg_wal_lsn_diff($1, pg_last_wal_replay_lsn())'' [CText lsn] scan_int)
      (\<lambda>diff. if diff > 0 then fail (Lagging diff) else hexec E c ''CHECKPOINT'')) u = (Ok (), t)"
    by (auto simp: waitReplica_def bnd_Ok_inv)
  obtain es cfg0 where "u = h @ es @ [(HConnect (foldl (\<lambda>c opt. apply_option opt c)
      (cfg0\<lparr>pg_ConnectTimeout := 100\<rparr>) [connectwithhostname ip]), Inr (HConn c))]"
    by (rule connectdb_Ok [OF c])
  then obtain cfg where es: "u = h @ es @ [(HConnect cfg, Inr (HConn c))]" "pg_Host cfg = ip"
    by simp
  from rest obtain d x y where "d \<le> 0" and "t = u @ [(HQueryRow c ''SELECT pg_wal_lsn_diff($1, pg_last_wal_replay_lsn())'' [CText lsn], Inr (HRow [CInt d])),
      (HExec c ''CHECKPOINT'', Inr x), (HClose c, y)]"
    by (auto simp: defer_close_Ok bnd_Ok_inv hquery_row_Ok hexec_Ok fail_inv if_op_inv)
  with es show ?thesis unfolding caught_up_def by fastforce
qed

lemma waitReplica_longer: "waitReplica E ip lsn h = (r, t) \<Longrightarrow> longer h t"
  using keepsD [OF sends_mono [OF waitReplica_sends, of "\<lambda>_. True"]] by blast

lemma waitReplicas_loop:
  "for_acc xs (a :: int32) (\<lambda>ip synced. bnd (attempt (waitReplica E ip lsn))
     (\<lambda>r. ret (case r of Inl _ \<Rightarrow> synced | Inr _ \<Rightarrow> synced + 1))) h = (Ok n, t) \<Longrightarrow>
   \<exists>es cnt. t = h @ es \<and> n = a + of_nat cnt \<and> cnt \<le> length xs \<and>
     (cnt = length xs \<longrightarrow> list_all (caught_up lsn es) xs)"
proof (induction xs arbitrary: a h)
  case Nil
  then show ?case by (auto simp: ret_inv intro: exI [of _ 0])
next
  case (Cons ip xs)
  let ?body = "\<lambda>ip synced. bnd (attempt (waitReplica E ip lsn))
     (\<lambda>r. ret (case r of Inl _ \<Rightarrow> synced | Inr _ \<Rightarrow> synced + (1 :: int32)))"
  from Cons.prems obtain r u where r: "attempt (waitReplica E ip lsn) h = (Ok r, u)"
    and rest: "for_acc xs (case r of Inl _ \<Rightarrow> a | Inr _ \<Rightarrow> a + 1) ?body u = (Ok n, t)"
    unfolding for_acc.simps bnd_Ok_inv ret_inv by blast
  from Cons.IH [OF rest] obtain es cnt where IH: "t = u @ es" "n = (case r of Inl _ \<Rightarrow> a | Inr _ \<Rightarrow> a + 1) + of_nat cnt"
    "cnt \<le> length xs" "cnt = length xs \<longrightarrow> list_all (caught_up lsn es) xs" by blast
  show ?case
  proof (cases r)
    case (Inl e)
    with r have "longer h u" by (auto simp: attempt_Ok_inv intro: waitReplica_longer)
    then obtain es0 where "u = h @ es0" by (auto simp: longer_iff)
    with IH Inl show ?thesis by (intro exI [of _ "es0 @ es"] exI [of _ cnt]) auto
  next
    case (Inr v)
    with r have "waitReplica E ip lsn h = (Ok (), u)" by (auto simp: attempt_Ok_inv)
    from waitReplica_Ok [OF this] obtain es0 where es0: "u = h @ es0" "caught_up lsn es0 ip" by blast
    have "list_all (caught_up lsn (es0 @ es)) (ip # xs)" if "cnt = length xs"
      using IH(4) that es0(2) by (auto simp: list_all_iff intro: caught_up_mono)
    with IH es0(1) Inr show ?thesis
      by (intro exI [of _ "es0 @ es"] exI [of _ "Suc cnt"]) auto
  qed
qed

lemma sint_counter:
  assumes "sint (of_nat n :: int32) = int m" and "n \<le> m"
  shows "n = m"
proof -
  have "int m < 2 ^ 31"
    using sint_lt [of "of_nat n :: int32"] assms(1) by simp
  with assms(2) have "int n < 2 ^ 31" by linarith
  then have "sint (of_nat n :: int32) = int n"
    by (simp add: signed_of_nat signed_take_bit_int_eq_self)
  with assms(1) show ?thesis by simp
qed

lemma waitReplicas_Ok:
  assumes "waitReplicas E members ips lsn h = (Ok True, t)" and "each_once E"
    and "int (length ips) = int (length members) - 1"
  shows "\<exists>es. t = h @ es \<and> list_all (caught_up lsn es) ips"
proof -
  let ?order = "he_order E h ips"
  from assms(2) have same: "mset ?order = mset ips" by (simp add: each_once_def)
  from assms(1) obtain n where loop: "for_acc ?order (0 :: int32) (\<lambda>ip synced. bnd (attempt (waitReplica E ip lsn))
      (\<lambda>r. ret (case r of Inl _ \<Rightarrow> synced | Inr _ \<Rightarrow> synced + 1))) h = (Ok n, t)"
    and n: "sint n = int (length members) - 1"
    by (auto simp: waitReplicas_def bnd_Ok_inv gets_run ret_inv)
  from waitReplicas_loop [OF loop] obtain es cnt where es: "t = h @ es" "n = of_nat cnt" "cnt \<le> length ?order"
    "cnt = length ?order \<longrightarrow> list_all (caught_up lsn es) ?order" by auto
  from same have len: "length ?order = length ips" by (rule mset_eq_length)
  from n es(2,3) assms(3) have "cnt = length ?order"
    by (intro sint_counter) (simp_all add: len)
  with es(4) have "list_all (caught_up lsn es) ips"
    using mset_eq_setD [OF same] by (simp add: list_all_iff)
  with es(1) show ?thesis by blast
qed

lemma hquery_Ok:
  "hquery E c sql args names scan h = (Ok xs, t) \<longleftrightarrow> (\<exists>rs. he_ask E h (HQuery c sql args names) = Inr (HRows rs None) \<and>
     scan_rows scan rs = Some xs \<and> t = h @ [(HQuery c sql args names, Inr (HRows rs None))])"
  by (auto simp: hquery_def bnd_Ok_inv hcall_def Let_def fail_inv ret_inv
      split: sum.splits hanswer.splits option.splits)

text \<open>What was seen of the replicas between a position and its second reading.\<close>

definition replicas_seen :: "string list \<Rightarrow> conn \<Rightarrow> string \<Rightarrow> hevent list \<Rightarrow> bool" where
  "replicas_seen members c lsn es \<longleftrightarrow> (\<exists>rs ips.
     (HQuery c replicas_query [CText lsn] members, Inr (HRows rs None)) \<in> set es \<and>
     scan_rows scan_text rs = Some ips \<and> int (length ips) = int (length members) - 1 \<and>
     list_all (caught_up lsn es) ips)"

lemma replicas_seen_mono: "replicas_seen ms c lsn es \<Longrightarrow> replicas_seen ms c lsn (es0 @ es)"
  unfolding replicas_seen_def list_all_iff
  by (fastforce intro: caught_up_mono [where es' = "es0 @ es"])

lemma readReplicas_Ok:
  "readReplicas E ms c lsn n h = (Ok ips, t) \<Longrightarrow> \<exists>es rs. t = h @ es \<and> scan_rows scan_text rs = Some ips \<and>
     int (length ips) = int (length ms) - 1 \<and>
     (HQuery c replicas_query [CText lsn] ms, Inr (HRows rs None)) \<in> set es"
proof (induction n arbitrary: h)
  case (Suc n)
  from Suc.prems obtain ips0 u where u: "hquery E c replicas_query [CText lsn] ms scan_text h = (Ok ips0, u)"
    and rest: "(if int (length ips0) = int (length ms) - 1 then ret ips0 else readReplicas E ms c lsn n) u = (Ok ips, t)"
    unfolding readReplicas.simps bnd_Ok_inv by blast
  from u obtain rs where rs: "scan_rows scan_text rs = Some ips0"
    "u = h @ [(HQuery c replicas_query [CText lsn] ms, Inr (HRows rs None))]"
    by (auto simp: hquery_Ok)
  show ?case
  proof (cases "int (length ips0) = int (length ms) - 1")
    case True
    with rest rs show ?thesis by (auto simp: ret_inv)
  next
    case False
    with rest have "readReplicas E ms c lsn n u = (Ok ips, t)" by simp
    from Suc.IH [OF this] rs(2) show ?thesis by auto
  qed
qed (simp add: fail_inv)

lemma waitReplicasReplayLSN_Ok:
  assumes "each_once E"
  shows "waitReplicasReplayLSN E ms c lsn n h = (Ok (), t) \<Longrightarrow> \<exists>es. t = h @ es \<and> replicas_seen ms c lsn es"
proof (induction n arbitrary: h)
  case (Suc n)
  from Suc.prems obtain ips u synced v where u: "readReplicas E ms c lsn n h = (Ok ips, u)"
    and v: "waitReplicas E ms ips lsn u = (Ok synced, v)"
    and rest: "(if synced then ret () else bnd (hselect E) (\<lambda>done.
       if done then fail DeadlineExceeded else waitReplicasReplayLSN E ms c lsn n)) v = (Ok (), t)"
    unfolding waitReplicasReplayLSN.simps bnd_Ok_inv by blast
  from readReplicas_Ok [OF u] obtain es rs where es: "u = h @ es" "scan_rows scan_text rs = Some ips"
    "int (length ips) = int (length ms) - 1"
    "(HQuery c replicas_query [CText lsn] ms, Inr (HRows rs None)) \<in> set es" by blast
  show ?case
  proof (cases synced)
    case True
    with v have "waitReplicas E ms ips lsn u = (Ok True, v)" by simp
    from waitReplicas_Ok [OF this assms es(3)] obtain es' where es': "v = u @ es'" "list_all (caught_up lsn es') ips"
      by blast
    from es'(2) have "list_all (caught_up lsn (es @ es')) ips"
      by (auto simp: list_all_iff intro: caught_up_mono)
    with es es'(1) rest True show ?thesis
      unfolding replicas_seen_def by (intro exI [of _ "es @ es'"] conjI exI [of _ rs] exI [of _ ips]) (auto simp: ret_inv)
  next
    case False
    with rest obtain w where w: "hselect E v = (Ok False, w)" and next_round: "waitReplicasReplayLSN E ms c lsn n w = (Ok (), t)"
      by (auto simp: bnd_Ok_inv fail_inv split: if_splits)
    from Suc.IH [OF next_round] obtain es' where "t = w @ es'" "replicas_seen ms c lsn es'" by blast
    moreover have "longer h w"
      using keepsD [OF sends_mono [OF waitReplicas_sends, of "\<lambda>_. True"] v] w es(1)
      by (auto simp: longer_iff hselect_run)
    ultimately show ?thesis by (auto simp: longer_iff intro: replicas_seen_mono)
  qed
qed (simp add: fail_inv)

abbreviation moved_since :: "conn \<Rightarrow> string \<Rightarrow> hrequest" where
  "moved_since c lsn \<equiv> HQueryRow c ''SELECT pg_wal_lsn_diff(pg_current_wal_lsn(), $1)'' [CText lsn]"

text \<open>The last round of the loop: checkpoint, position, replicas, and no movement since.\<close>

definition last_round :: "string list \<Rightarrow> conn \<Rightarrow> hevent list \<Rightarrow> bool" where
  "last_round members c es \<longleftrightarrow> (\<exists>x lsn w. replicas_seen members c lsn w \<and>
     es = [(HExec c ''CHECKPOINT'', Inr x), (HQueryRow c ''SELECT pg_current_wal_lsn()'' [], Inr (HRow [CText lsn]))] @
       w @ [(moved_since c lsn, Inr (HRow [CInt 0]))])"

lemma syncLoop_Ok:
  assumes "each_once E"
  shows "syncLoop E ms c n h = (Ok (), t) \<Longrightarrow> \<exists>es0 es. t = h @ es0 @ es \<and> last_round ms c es"
proof (induction n arbitrary: h)
  case (Suc n)
  from Suc.prems obtain x u lsn v w where
    u: "he_ask E h (HExec c ''CHECKPOINT'') = Inr x" "u = h @ [(HExec c ''CHECKPOINT'', Inr x)]"
    and v: "v = u @ [(HQueryRow c ''SELECT pg_current_wal_lsn()'' [], Inr (HRow [CText lsn]))]"
    and w: "waitReplicasReplayLSN E ms c lsn n v = (Ok (), w)"
    and rest: "bnd (hquery_row E c ''SELECT pg_wal_lsn_diff(pg_current_wal_lsn(), $1)'' [CText lsn] scan_int)
      (\<lambda>increase. if increase = 0 then ret () else syncLoop E ms c n) w = (Ok (), t)"
    unfolding syncLoop.simps readPrimaryWalLsn_def bnd_Ok_inv hexec_Ok hquery_row_Ok by auto
  from waitReplicasReplayLSN_Ok [OF assms w] obtain es where es: "w = v @ es" "replicas_seen ms c lsn es" by blast
  from rest obtain d where d: "(if d = 0 then ret () else syncLoop E ms c n) (w @ [(moved_since c lsn, Inr (HRow [CInt d]))]) = (Ok (), t)"
    by (auto simp: bnd_Ok_inv hquery_row_Ok)
  show ?case
  proof (cases "d = 0")
    case True
    with d have t: "t = w @ [(moved_since c lsn, Inr (HRow [CInt 0]))]" by (simp add: ret_inv)
    have "last_round ms c ([(HExec c ''CHECKPOINT'', Inr x),
        (HQueryRow c ''SELECT pg_current_wal_lsn()'' [], Inr (HRow [CText lsn]))] @ es @ [(moved_since c lsn, Inr (HRow [CInt 0]))])"
      unfolding last_round_def using es(2) by blast
    with t es(1) v u(2) show ?thesis by fastforce
  next
    case False
    with d have "syncLoop E ms c n (w @ [(moved_since c lsn, Inr (HRow [CInt d]))]) = (Ok (), t)" by simp
    from Suc.IH [OF this] obtain es0 es' where "t = w @ (moved_since c lsn, Inr (HRow [CInt d])) # es0 @ es'"
      and last: "last_round ms c es'" by auto
    with es(1) v u(2) obtain es1 where "t = h @ es1 @ es'" by fastforce
    with last show ?thesis by blast
  qed
qed (simp add: fail_inv)

definition pause_requests :: "helper_flags \<Rightarrow> hevent list \<Rightarrow> bool" where
  "pause_requests f es \<longleftrightarrow> (if fl_pause f then
       (let url = ''http://'' @ fl_dbhost f @ '':8008/config'' in \<exists>x n y. 200 \<le> n \<and> n < 300 \<and>
         es = [(HNewRequest ''PATCH'' url, Inr x),
           (HDo url (''{'' @ [CHR 0x22] @ ''pause'' @ [CHR 0x22] @ '':true}''), Inr (HStatus n)), (HDrain, Inr y)])
     else es = [])"

lemma hcall_Ok: "hcall E q h = (Ok x, t) \<longleftrightarrow> he_ask E h q = Inr x \<and> t = h @ [(q, Inr x)]"
  by (auto simp: hcall_def Let_def split: sum.splits)

lemma hdecode_Ok: "hdecode f x h = (Ok y, t) \<longleftrightarrow> f x = Some y \<and> t = h"
  by (auto simp: hdecode_def fail_inv ret_inv case_option_inv)

lemma status_of [simp]: "(case x of HStatus n \<Rightarrow> Some n | _ \<Rightarrow> None) = Some n \<longleftrightarrow> x = HStatus n"
  by (cases x) simp_all

lemma patch_Ok:
  assumes "bnd (hcall E (HNewRequest ''PATCH'' url)) (\<lambda>_.
      bnd (bnd (hcall E (HDo url body)) (hdecode (\<lambda>x. case x of HStatus n \<Rightarrow> Some n | _ \<Rightarrow> None))) (\<lambda>status.
      bnd (hcall E HDrain) (\<lambda>_.
      if status \<ge> 200 \<and> status < 300 then ret () else fail (UnexpectedStatus status)))) h = (Ok (), t)"
  shows "\<exists>x n y. 200 \<le> n \<and> n < 300 \<and>
    t = h @ [(HNewRequest ''PATCH'' url, Inr x), (HDo url body, Inr (HStatus n)), (HDrain, Inr y)]"
  using assms by (auto simp: bnd_Ok_inv hcall_Ok hdecode_Ok fail_inv ret_inv if_op_inv simp del: append_Cons)

lemma pause_Ok:
  assumes "when_op (fl_pause (he_flags E)) (pauseCluster E) h = (Ok (), t)"
  shows "\<exists>es. t = h @ es \<and> pause_requests (he_flags E) es"
proof (cases "fl_pause (he_flags E)")
  case True
  with assms have "pauseCluster E h = (Ok (), t)" by (simp add: when_op_def)
  from patch_Ok [OF this [unfolded pauseCluster_def Let_def]] True show ?thesis
    unfolding pause_requests_def Let_def by auto
next
  case False
  with assms show ?thesis by (simp add: when_op_def ret_inv pause_requests_def)
qed

text \<open>
  C19. What a successful synchronisation means. The calls end with a round in which the program
  made a checkpoint on the server it took for the primary, read its position in the log, found
  that as many replicas as there are other members had reached it, found for each of them, over
  a connection of its own, that it had replayed it, and had it make a checkpoint, and then found
  that the primary's position had not moved at all. Only then, when it was asked to, did it pause
  Patroni, which agreed. That server had just answered that it is the primary, but for the case
  in which the context was done right after it had answered that it is not.
\<close>

theorem sync_means_caught_up:
  assumes "each_once E"
  shows "case preupgradesyncfn E fuel h of
     (Ok _, t) \<Rightarrow> \<exists>es0 c standby es x d. t = h @ es0 @ es @ [(HClose c, x)] @ d \<and>
       (in_recovery c, Inr (HRow [CBool standby])) \<in> set es0 \<and>
       (standby \<longrightarrow> (HSelect, Inr (HSelected True)) \<in> set es0) \<and>
       last_round (memberNames (he_flags E)) c es \<and> pause_requests (he_flags E) d
   | _ \<Rightarrow> True"
proof -
  obtain r t where run: "preupgradesyncfn E fuel h = (r, t)" by fastforce
  have "\<exists>es0 c standby es x d. t = h @ es0 @ es @ [(HClose c, x)] @ d \<and>
       (in_recovery c, Inr (HRow [CBool standby])) \<in> set es0 \<and>
       (standby \<longrightarrow> (HSelect, Inr (HSelected True)) \<in> set es0) \<and>
       last_round (memberNames (he_flags E)) c es \<and> pause_requests (he_flags E) d" if "r = Ok ()"
  proof -
    from run that obtain c u v where c: "connectprimarydb E fuel h = (Ok c, u)"
      and loop: "defer_close E c (syncLoop E (memberNames (he_flags E)) c fuel) u = (Ok (), v)"
      and pause: "when_op (fl_pause (he_flags E)) (pauseCluster E) v = (Ok (), t)"
      by (auto simp: preupgradesyncfn_def syncRestorePoints_def bnd_Ok_inv)
    from loop obtain w x where w: "syncLoop E (memberNames (he_flags E)) c fuel u = (Ok (), w)" "v = w @ [(HClose c, x)]"
      by (auto simp: defer_close_Ok)
    from syncLoop_Ok [OF assms w(1)] obtain es0 es where es: "w = u @ es0 @ es" "last_round (memberNames (he_flags E)) c es" by blast
    from pause_Ok [OF pause] obtain d where d: "t = v @ d" "pause_requests (he_flags E) d" by blast
    from primary_connection_cases [OF c] obtain es1 standby where
      "u = h @ es1" "(in_recovery c, Inr (HRow [CBool standby])) \<in> set es1"
      "standby \<longrightarrow> (HSelect, Inr (HSelected True)) \<in> set es1" by fastforce
    with es d w(2) show ?thesis
      by (intro exI [of _ "es1 @ es0"] exI [of _ c] exI [of _ standby] exI [of _ es] exI [of _ x] exI [of _ d]) auto
  qed
  with run show ?thesis by (cases r) simp_all
qed

definition two_members :: "hevent list \<Rightarrow> hrequest \<Rightarrow> herror + hanswer" where
  "two_members h q = Inr (case q of
     HConnect cfg \<Rightarrow> HConn (if pg_Host cfg = ''10.0.0.2'' then 1 else 0)
   | HQueryRow _ sql _ \<Rightarrow> HRow [if sql = ''SELECT pg_is_in_recovery()'' then CBool False
       else if sql = ''SELECT pg_current_wal_lsn()'' then CText ''0/3000060'' else CInt 0]
   | HQuery _ _ _ _ \<Rightarrow> HRows [[CText ''10.0.0.2'']] None
   | HDo _ _ \<Rightarrow> HStatus 200
   | _ \<Rightarrow> HDone)"

lemma connect_at_once:
  assumes "he_parse E (conn_string (he_flags E)) = Inr cfg0"
    and "he_ask E h (HConnect (foldl (\<lambda>c opt. apply_option opt c) (cfg0\<lparr>pg_ConnectTimeout := connectTimeout\<rparr>) opts)) = Inr (HConn c)"
  shows "connectdb E opts h = (Ok c, h @ [(HConnect (foldl (\<lambda>c opt. apply_option opt c) (cfg0\<lparr>pg_ConnectTimeout := connectTimeout\<rparr>) opts), Inr (HConn c))])"
  using assms by (simp add: connectdb_def of_sum_def bnd_run ret_run connect_retry.simps connect_once conn_of_def Let_def)

lemmas sync_simps = preupgradesyncfn_def syncRestorePoints_def readPrimaryWalLsn_def waitReplica_def waitReplicas_def
  memberNames_def pauseCluster_def hexec_def hquery_row_def hquery_def hcall_def hdecode_def defer_close_def
  hclose_run hselect_run connect_at_once bnd_run attempt_run ret_run gets_run when_op_def Let_def

text \<open>A cluster of two, whose replica has caught up.\<close>

lemma sync_means_caught_up_witness:
  "fst (preupgradesyncfn (sample_henv two_members ''preupgrade-sync'') 4 []) = Ok () \<and>
   (case preupgradesyncfn (sample_henv two_members ''preupgrade-sync'') 4 [] of
     (Ok _, t) \<Rightarrow> \<exists>es0 c standby es x d. t = [] @ es0 @ es @ [(HClose c, x)] @ d \<and>
       (in_recovery c, Inr (HRow [CBool standby])) \<in> set es0 \<and>
       (standby \<longrightarrow> (HSelect, Inr (HSelected True)) \<in> set es0) \<and>
       last_round (memberNames (he_flags (sample_henv two_members ''preupgrade-sync''))) c es \<and>
       pause_requests (he_flags (sample_henv two_members ''preupgrade-sync'')) d
   | _ \<Rightarrow> True)"
proof
  show "fst (preupgradesyncfn (sample_henv two_members ''preupgrade-sync'') 4 []) = Ok ()"
    by (simp add: sync_simps sample_henv_def two_members_def sample_flags_def numeral_eq_Suc)
  have "each_once (sample_henv two_members ''preupgrade-sync'')"
    by (simp add: each_once_def sample_henv_def)
  then show "case preupgradesyncfn (sample_henv two_members ''preupgrade-sync'') 4 [] of
     (Ok _, t) \<Rightarrow> \<exists>es0 c standby es x d. t = [] @ es0 @ es @ [(HClose c, x)] @ d \<and>
       (in_recovery c, Inr (HRow [CBool standby])) \<in> set es0 \<and>
       (standby \<longrightarrow> (HSelect, Inr (HSelected True)) \<in> set es0) \<and>
       last_round (memberNames (he_flags (sample_henv two_members ''preupgrade-sync''))) c es \<and>
       pause_requests (he_flags (sample_henv two_members ''preupgrade-sync'')) d
   | _ \<Rightarrow> True"
    by (rule sync_means_caught_up)
qed

end
