(* ===== verification/Helper_Work.thy ===== *)
theory Helper_Work
  imports Helper_Sync Samples "HOL-Library.Sublist"
begin

section \<open>Before and after the upgrade, and the operator's jobs\<close>

text \<open>
  The configuration that is printed for the operator, the work after the upgrade, and the
  environment through which the operator's jobs select what the helper does.
\<close>

subsection \<open>The configuration of the old database\<close>

lemma show_nat_leading_zero: "hd (show_nat n) = CHR ''0'' \<Longrightarrow> show_nat n = ''0''"
proof (induction n rule: show_nat.induct)
  case (1 n)
  show ?case
  proof (cases "n < 10")
    case True
    then have "show_nat n = [digit_char n]" by (simp add: show_nat.simps [of n])
    with "1.prems" show ?thesis by simp
  next
    case False
    then have n: "show_nat n = show_nat (n div 10) @ [digit_char (n mod 10)]"
      by (simp add: show_nat.simps [of n])
    with "1.prems" "1.IH" [OF False] have zero: "show_nat (n div 10) = ''0''" by simp
    have "show_nat 0 = ''0''" by (simp add: show_nat.simps [of 0] digit_chars)
    with zero have "n div 10 = 0" using show_nat_inject by metis
    with False show ?thesis by simp
  qed
qed

lemma scan_show_nat: "scan_unsigned (show_nat n) = Some (show_nat n, [])"
proof -
  have "scan_digits (show_nat n) = Some (show_nat n, [])"
    using show_nat_digits [of _ n] by (simp add: scan_digits_def Let_def dropWhile_eq_Nil_conv)
  then have "scan_int_part (show_nat n) = Some (show_nat n, [])"
    using show_nat_leading_zero [of n] by (cases "show_nat n") (auto simp: scan_int_part_def)
  then show ?thesis by (simp add: scan_unsigned_def scan_frac_def scan_exp_def)
qed

lemma show_nat_hd: "show_nat n = c # cs \<Longrightarrow> c \<noteq> CHR ''-'' \<and> c \<noteq> CHR ''+''"
  using is_digit_not_space [OF hd_show_nat [of n]] by simp

lemma scan_show_int: "scan_number (show_int i) = Some (show_int i, [])"
proof (cases "i < 0")
  case True
  then show ?thesis by (simp add: scan_number_def show_int_def scan_show_nat)
next
  case False
  then show ?thesis using scan_show_nat [of "nat i"] show_nat_hd [of "nat i"]
    by (cases "show_nat (nat i)") (auto simp: scan_number_def show_int_def)
qed

lemma parse_show_int:
  "parse_int_literal (show_int i) = (if - (2 ^ 63) \<le> i \<and> i < 2 ^ 63 then Some i else None)"
proof -
  have digits: "list_all is_digit (show_nat n)" for n
    using show_nat_digits by (auto simp: list_all_iff)
  show ?thesis
  proof (cases "i < 0")
    case True
    then show ?thesis
      by (simp add: parse_int_literal_def show_int_def scan_sign_def digits parse_int64_def Let_def)
  next
    case False
    moreover have "scan_sign (show_nat (nat i)) = (False, show_nat (nat i))"
      using show_nat_hd [of "nat i"] by (cases "show_nat (nat i)") (auto simp: scan_sign_def)
    ultimately show ?thesis
      by (simp add: parse_int_literal_def show_int_def digits parse_int64_def Let_def)
  qed
qed

lemma unmarshal_marshal_config:
  "unmarshal_config (marshal_config c) =
     (if - (2 ^ 63) \<le> cfg_MaxPreparedTransactions c \<and> cfg_MaxPreparedTransactions c < 2 ^ 63
      then Some (c\<lparr>cfg_Locale := to_valid_utf8 (cfg_Locale c), cfg_Encoding := to_valid_utf8 (cfg_Encoding c)\<rparr>)
      else None)"
proof -
  let ?ms = "[(''Locale'', JStr (cfg_Locale c)), (''Encoding'', JStr (cfg_Encoding c)),
     (''DataChecksums'', JBool (cfg_DataChecksums c)),
     (''MaxPreparedTransactions'', JNum (show_int (cfg_MaxPreparedTransactions c)))]"
  have ascii: "list_all (\<lambda>c. (of_char c :: nat) < 128) ''Locale''" "list_all (\<lambda>c. (of_char c :: nat) < 128) ''Encoding''"
    "list_all (\<lambda>c. (of_char c :: nat) < 128) ''DataChecksums''"
    "list_all (\<lambda>c. (of_char c :: nat) < 128) ''MaxPreparedTransactions''" by simp_all
  have "parse_json (marshal (JObj ?ms)) = Some (JObj (map valid_member ?ms))"
    by (subst parse_json_marshal_valid) (simp_all add: scan_show_int)
  then have "parse_json (marshal (JObj ?ms)) = Some (JObj
     [(''Locale'', JStr (to_valid_utf8 (cfg_Locale c))), (''Encoding'', JStr (to_valid_utf8 (cfg_Encoding c))),
     (''DataChecksums'', JBool (cfg_DataChecksums c)),
     (''MaxPreparedTransactions'', JNum (show_int (cfg_MaxPreparedTransactions c)))])"
    using ascii [THEN valid_utf8_ascii, THEN valid_utf8_id] by simp
  then show ?thesis
    by (simp add: unmarshal_config_def unmarshal_struct_def marshal_config_def decode_struct_def decode_member_def
        find_field_def config_fields_def string_field_def bool_field_def int_field_def parse_show_int zero_config_def)
qed

text \<open>
  C21. What the operator reads is what the database said. A successful run before the upgrade has
  asked the server for its locale, its encoding, whether it has data checksums and how many
  prepared transactions it allows, and has written, whole and nothing else, a text from which the
  operator's decoder gets these back: every number that an \<open>int\<close> holds, and every string, exactly if
  it is valid UTF-8 (\<open>valid_utf8_id\<close>) and otherwise with U+FFFD for each byte that is not.
\<close>

theorem preupgrade_config_roundtrip:
  "case preupgradefn E h of
     (Ok _, t) \<Rightarrow> \<exists>es c loc encoding checksums limit out n x.
       t = h @ es @ [(HQueryRow c ''SHOW lc_collate'' [], Inr (HRow [CText loc])),
         (HQueryRow c ''SHOW server_encoding'' [], Inr (HRow [CText encoding])),
         (HQueryRow c settings_query [], Inr (HRow [CBool checksums, CInt limit])),
         (HWrite out, Inr (HWritten n)), (HClose c, x)] \<and> int (length out) \<le> n \<and>
       unmarshal_config out = (if - (2 ^ 63) \<le> limit \<and> limit < 2 ^ 63
         then Some \<lparr>cfg_Locale = to_valid_utf8 loc, cfg_Encoding = to_valid_utf8 encoding,
           cfg_DataChecksums = checksums, cfg_MaxPreparedTransactions = limit\<rparr>
         else None)
   | _ \<Rightarrow> True"
proof -
  have written: "(case x of HWritten n \<Rightarrow> Some n | _ \<Rightarrow> None) = Some n \<longleftrightarrow> x = HWritten n" for x and n :: int
    by (cases x) simp_all
  obtain r t where run: "preupgradefn E h = (r, t)" by fastforce
  show ?thesis
  proof (cases r)
    case (Ok v)
    with run obtain c u loc encoding checksums limit n x where c: "connectdb E [] h = (Ok c, u)"
      and t: "t = u @ [(HQueryRow c ''SHOW lc_collate'' [], Inr (HRow [CText loc])),
         (HQueryRow c ''SHOW server_encoding'' [], Inr (HRow [CText encoding])),
         (HQueryRow c settings_query [], Inr (HRow [CBool checksums, CInt limit])),
         (HWrite (marshal_config \<lparr>cfg_Locale = loc, cfg_Encoding = encoding, cfg_DataChecksums = checksums,
           cfg_MaxPreparedTransactions = limit\<rparr>), Inr (HWritten n)),
         (HClose c, x)]"
      and n: "int (length (marshal_config \<lparr>cfg_Locale = loc, cfg_Encoding = encoding, cfg_DataChecksums = checksums,
           cfg_MaxPreparedTransactions = limit\<rparr>)) \<le> n"
      by (auto simp: preupgradefn_def Let_def bnd_Ok_inv defer_close_Ok hquery_row_Ok hcall_Ok hdecode_Ok written
          fail_inv ret_inv if_op_inv)
    from connectdb_longer [OF c] obtain es where "u = h @ es" by (auto simp: longer_iff)
    with run Ok t n show ?thesis by (auto simp: unmarshal_marshal_config)
  qed (use run in auto)
qed

subsection \<open>After the upgrade\<close>

abbreviation alter_extension :: "string \<Rightarrow> string" where
  "alter_extension ext \<equiv> ''ALTER EXTENSION '' @ ext @ '' UPDATE''"

text \<open>Over a connection to the database, the extensions it has were read and each was updated.\<close>

definition extensions_updated :: "hevent list \<Rightarrow> string \<Rightarrow> bool" where
  "extensions_updated es db \<longleftrightarrow> (\<exists>c cfg rs exts. (HConnect cfg, Inr (HConn c)) \<in> set es \<and> pg_Database cfg = db \<and>
     (HQuery c ''SELECT quote_ident(extname) FROM pg_catalog.pg_extension'' [] [], Inr (HRows rs None)) \<in> set es \<and>
     scan_rows scan_text rs = Some exts \<and>
     list_all (\<lambda>ext. \<exists>x. (HExec c (alter_extension ext), Inr x) \<in> set es) exts)"

definition analyzed :: "hevent list \<Rightarrow> string \<Rightarrow> bool" where
  "analyzed es db \<longleftrightarrow> (\<exists>c cfg x. (HConnect cfg, Inr (HConn c)) \<in> set es \<and> pg_Database cfg = db \<and>
     (HExec c ''ANALYZE'', Inr x) \<in> set es)"

lemma extensions_updated_mono: "extensions_updated es db \<Longrightarrow> set es \<subseteq> set es' \<Longrightarrow> extensions_updated es' db"
  unfolding extensions_updated_def list_all_iff by blast

lemma analyzed_mono: "analyzed es db \<Longrightarrow> set es \<subseteq> set es' \<Longrightarrow> analyzed es' db"
  unfolding analyzed_def by blast

lemma connect_to_database:
  assumes "connectdb E [connectwithdbname db] h = (Ok c, t)"
  obtains es cfg where "t = h @ es @ [(HConnect cfg, Inr (HConn c))]" "pg_Database cfg = db"
  by (rule connectdb_Ok [OF assms]) (use that in simp)

lemma for_each_exec:
  "for_each xs (\<lambda>x. hexec E c (f x)) h = (Ok (), t) \<Longrightarrow>
    \<exists>es. t = h @ es \<and> list_all (\<lambda>x. \<exists>y. (HExec c (f x), Inr y) \<in> set es) xs"
proof (induction xs arbitrary: h)
  case (Cons x xs)
  then obtain y where rest: "for_each xs (\<lambda>x. hexec E c (f x)) (h @ [(HExec c (f x), Inr y)]) = (Ok (), t)"
    by (auto simp: bnd_Ok_inv hexec_Ok)
  from Cons.IH [OF this] show ?case by (fastforce simp: list_all_iff)
qed (simp add: ret_inv)

lemma updateextensionsindb_Ok:
  assumes "updateextensionsindb E db h = (Ok (), t)"
  shows "\<exists>es. t = h @ es \<and> extensions_updated es db"
proof -
  from assms obtain c u where c: "connectdb E [connectwithdbname db] h = (Ok c, u)"
    and rest: "defer_close E c (bnd (hquery E c ''SELECT quote_ident(extname) FROM pg_catalog.pg_extension'' [] [] scan_text)
       (\<lambda>qexts. for_each qexts (\<lambda>qext. hexec E c (alter_extension qext)))) u = (Ok (), t)"
    by (auto simp: updateextensionsindb_def bnd_Ok_inv)
  from c obtain es cfg where es: "u = h @ es @ [(HConnect cfg, Inr (HConn c))]" "pg_Database cfg = db"
    by (rule connect_to_database)
  let ?q = "HQuery c ''SELECT quote_ident(extname) FROM pg_catalog.pg_extension'' [] []"
  from rest obtain rs exts v x where rs: "scan_rows scan_text rs = Some exts"
    and each: "for_each exts (\<lambda>qext. hexec E c (alter_extension qext)) (u @ [(?q, Inr (HRows rs None))]) = (Ok (), v)"
    and t: "t = v @ [(HClose c, x)]"
    unfolding defer_close_Ok bnd_Ok_inv hquery_Ok by blast
  from for_each_exec [OF each] obtain es' where
    es': "v = (u @ [(?q, Inr (HRows rs None))]) @ es'" "list_all (\<lambda>ext. \<exists>y. (HExec c (alter_extension ext), Inr y) \<in> set es') exts"
    by blast
  have "extensions_updated ((es @ [(HConnect cfg, Inr (HConn c)), (?q, Inr (HRows rs None))] @ es') @ [(HClose c, x)]) db"
    unfolding extensions_updated_def
    by (intro exI [of _ c] exI [of _ cfg] exI [of _ rs] exI [of _ exts]) (use es(2) rs es'(2) in \<open>auto simp: list_all_iff\<close>)
  with t es'(1) es(1) show ?thesis by auto
qed

lemma analyzedatabase_Ok:
  assumes "analyzedatabase E db h = (Ok (), t)"
  shows "\<exists>es. t = h @ es \<and> analyzed es db"
proof -
  from assms obtain c u x y where c: "connectdb E [connectwithdbname db] h = (Ok c, u)"
    and t: "t = u @ [(HExec c ''ANALYZE'', Inr x), (HClose c, y)]"
    by (auto simp: analyzedatabase_def bnd_Ok_inv defer_close_Ok hexec_Ok)
  from c obtain es cfg where "u = h @ es @ [(HConnect cfg, Inr (HConn c))]" "pg_Database cfg = db"
    by (rule connect_to_database)
  with t show ?thesis unfolding analyzed_def by fastforce
qed

lemma for_each_analyzed:
  "for_each dbs (analyzedatabase E) h = (Ok (), t) \<Longrightarrow> \<exists>es. t = h @ es \<and> list_all (analyzed es) dbs"
proof (induction dbs arbitrary: h)
  case (Cons db dbs)
  then obtain u where u: "analyzedatabase E db h = (Ok (), u)" and rest: "for_each dbs (analyzedatabase E) u = (Ok (), t)"
    by (auto simp: bnd_Ok_inv)
  from analyzedatabase_Ok [OF u] Cons.IH [OF rest] obtain es es' where "u = h @ es" "analyzed es db" "t = u @ es'"
    "list_all (analyzed es') dbs" by blast
  then show ?case by (intro exI [of _ "es @ es'"]) (auto simp: list_all_iff intro: analyzed_mono)
qed (simp add: ret_inv)

lemma updates_loop:
  "for_acc dbs (acc :: herror list) (\<lambda>database errs. bnd (attempt (updateextensionsindb E database))
     (\<lambda>r. ret (case r of Inl e \<Rightarrow> errs @ [e] | Inr _ \<Rightarrow> errs))) h = (Ok errs, t) \<Longrightarrow>
   prefix acc errs \<and> (errs = [] \<longrightarrow> (\<exists>es. t = h @ es \<and> list_all (extensions_updated es) dbs))"
proof (induction dbs arbitrary: acc h)
  case (Cons db dbs)
  then obtain r u where r: "attempt (updateextensionsindb E db) h = (Ok r, u)"
    and rest: "for_acc dbs (case r of Inl e \<Rightarrow> acc @ [e] | Inr _ \<Rightarrow> acc) (\<lambda>database errs. bnd (attempt (updateextensionsindb E database))
     (\<lambda>r. ret (case r of Inl e \<Rightarrow> errs @ [e] | Inr _ \<Rightarrow> errs))) u = (Ok errs, t)"
    unfolding for_acc.simps bnd_Ok_inv ret_inv by blast
  note IH = Cons.IH [OF rest]
  show ?case
  proof (cases r)
    case (Inl e)
    with IH have "prefix (acc @ [e]) errs" by simp
    then show ?thesis by (auto simp: prefix_def)
  next
    case (Inr v)
    with r have "updateextensionsindb E db h = (Ok (), u)" by (auto simp: attempt_Ok_inv)
    from updateextensionsindb_Ok [OF this] obtain es where es: "u = h @ es" "extensions_updated es db" by blast
    have "\<exists>es. t = h @ es \<and> list_all (extensions_updated es) (db # dbs)" if none: "errs = []"
    proof -
      from IH none obtain es' where "t = u @ es'" "list_all (extensions_updated es') dbs" by blast
      with es show ?thesis
        by (intro exI [of _ "es @ es'"]) (auto simp: list_all_iff intro: extensions_updated_mono)
    qed
    with IH Inr show ?thesis by simp
  qed
qed (simp add: ret_inv)

lemma updateextensions_Ok:
  assumes "updateextensions E dbs h = (Ok (), t)" and "each_once E"
  shows "\<exists>es. t = h @ es \<and> list_all (extensions_updated es) dbs"
proof -
  have same: "mset (he_order E h dbs) = mset dbs" using assms(2) by (simp add: each_once_def)
  have no_errors: "(case errs of [] \<Rightarrow> ret () | e # _ \<Rightarrow> fail e) u = (Ok (), t) \<longleftrightarrow> errs = [] \<and> t = u"
    for errs :: "herror list" and u t :: "hevent list"
    by (cases errs) (auto simp: ret_inv fail_inv)
  from assms(1) have "for_acc (he_order E h dbs) [] (\<lambda>database errs. bnd (attempt (updateextensionsindb E database))
     (\<lambda>r. ret (case r of Inl e \<Rightarrow> errs @ [e] | Inr _ \<Rightarrow> errs))) h = (Ok [], t)"
    by (auto simp: updateextensions_def bnd_Ok_inv gets_run no_errors)
  from updates_loop [OF this] show ?thesis
    using mset_eq_setD [OF same] by (auto simp: list_all_iff)
qed

text \<open>
  C22. What a successful run after the upgrade has done. It has read the databases that accept
  connections; then it has read the extensions of every one of them and updated each, over a
  connection to that database; and only after all of these, it has analyzed every one of them.
  None is left out, in whatever order the goroutines ran, and no failure is lost.
\<close>

theorem postupgrade_complete:
  assumes "each_once E"
  shows "case postupgradefn E h of
     (Ok _, t) \<Rightarrow> \<exists>es0 es1 es2 c rs dbs. t = h @ es0 @ es1 @ es2 \<and>
       (HQuery c ''SELECT datname FROM pg_database WHERE datallowconn'' [] [], Inr (HRows rs None)) \<in> set es0 \<and>
       scan_rows scan_text rs = Some dbs \<and>
       list_all (extensions_updated es1) dbs \<and> list_all (analyzed es2) dbs
   | _ \<Rightarrow> True"
proof -
  obtain r t where run: "postupgradefn E h = (r, t)" by fastforce
  show ?thesis
  proof (cases r)
    case (Ok z)
    with run obtain dbs u v where u: "readdatabases E h = (Ok dbs, u)" and v: "updateextensions E dbs u = (Ok (), v)"
      and t: "for_each dbs (analyzedatabase E) v = (Ok (), t)"
      by (auto simp: postupgradefn_def bnd_Ok_inv)
    from u obtain c w rs x where w: "connectdb E [] h = (Ok c, w)" and rs: "scan_rows scan_text rs = Some dbs"
      and uw: "u = w @ [(HQuery c ''SELECT datname FROM pg_database WHERE datallowconn'' [] [], Inr (HRows rs None)), (HClose c, x)]"
      by (auto simp: readdatabases_def bnd_Ok_inv defer_close_Ok hquery_Ok)
    from connectdb_longer [OF w] uw obtain es0 where "u = h @ es0"
      "(HQuery c ''SELECT datname FROM pg_database WHERE datallowconn'' [] [], Inr (HRows rs None)) \<in> set es0"
      by (auto simp: longer_iff)
    moreover from updateextensions_Ok [OF v assms] obtain es1 where "v = u @ es1" "list_all (extensions_updated es1) dbs" by blast
    moreover from for_each_analyzed [OF t] obtain es2 where "t = v @ es2" "list_all (analyzed es2) dbs" by blast
    ultimately show ?thesis unfolding run Ok prod.case res.case
      by (intro exI [of _ es0] exI [of _ es1] exI [of _ es2] exI [of _ c] exI [of _ rs] exI [of _ dbs]) (simp add: rs)
  qed (use run in auto)
qed

definition one_database :: "hevent list \<Rightarrow> hrequest \<Rightarrow> herror + hanswer" where
  "one_database h q = Inr (case q of
     HConnect cfg \<Rightarrow> HConn (length h)
   | HQuery _ sql _ _ \<Rightarrow> HRows [[CText (if sql = ''SELECT datname FROM pg_database WHERE datallowconn'' then ''app'' else ''pgcrypto'')]] None
   | _ \<Rightarrow> HDone)"

text \<open>A server with one database, which has one extension.\<close>

lemma postupgrade_complete_witness:
  "fst (postupgradefn (sample_henv one_database ''postuprgrade'') []) = Ok () \<and>
   (case postupgradefn (sample_henv one_database ''postuprgrade'') [] of
     (Ok _, t) \<Rightarrow> \<exists>es0 es1 es2 c rs dbs. t = [] @ es0 @ es1 @ es2 \<and>
       (HQuery c ''SELECT datname FROM pg_database WHERE datallowconn'' [] [], Inr (HRows rs None)) \<in> set es0 \<and>
       scan_rows scan_text rs = Some dbs \<and>
       list_all (extensions_updated es1) dbs \<and> list_all (analyzed es2) dbs
   | _ \<Rightarrow> True)"
proof
  show "fst (postupgradefn (sample_henv one_database ''postuprgrade'') []) = Ok ()"
    by (simp add: sync_simps postupgradefn_def readdatabases_def updateextensions_def updateextensionsindb_def
        analyzedatabase_def sample_henv_def one_database_def)
  have "each_once (sample_henv one_database ''postuprgrade'')"
    by (simp add: each_once_def sample_henv_def)
  then show "case postupgradefn (sample_henv one_database ''postuprgrade'') [] of
     (Ok _, t) \<Rightarrow> \<exists>es0 es1 es2 c rs dbs. t = [] @ es0 @ es1 @ es2 \<and>
       (HQuery c ''SELECT datname FROM pg_database WHERE datallowconn'' [] [], Inr (HRows rs None)) \<in> set es0 \<and>
       scan_rows scan_text rs = Some dbs \<and>
       list_all (extensions_updated es1) dbs \<and> list_all (analyzed es2) dbs
   | _ \<Rightarrow> True"
    by (rule postupgrade_complete)
qed

subsection \<open>The operator's jobs and the helper's modes\<close>

text \<open>
  What the documentation of \<open>namsral/flag\<close> says: the variable of a flag has its name in upper case,
  with an underscore for a dash; without it the flag keeps its default, with it the flag gets its
  value, integers being read in decimal, and \<open>true\<close> as true.
\<close>

definition flag_variable :: "string \<Rightarrow> string" where
  "flag_variable name = to_upper (map (\<lambda>c. if c = CHR ''-'' then CHR ''_'' else c) name)"

definition flag_library :: "flag_lib \<Rightarrow> bool" where
  "flag_library L \<longleftrightarrow> (\<forall>env name.
     (\<forall>d. flag_String L env name d = Some (case env (flag_variable name) of None \<Rightarrow> d | Some v \<Rightarrow> v)) \<and>
     (\<forall>d. env (flag_variable name) = None \<longrightarrow> flag_Int L env name d = Some d) \<and>
     (\<forall>d i. env (flag_variable name) = Some (show_int i) \<longrightarrow> - (2 ^ 63) \<le> i \<longrightarrow> i < 2 ^ 63 \<longrightarrow> flag_Int L env name d = Some i) \<and>
     (\<forall>d. env (flag_variable name) = None \<longrightarrow> flag_Bool L env name d = Some d) \<and>
     (\<forall>d. env (flag_variable name) = Some ''true'' \<longrightarrow> flag_Bool L env name d = Some True))"

text \<open>The environment Kubernetes gives a container, with what the secrets hold.\<close>

definition container_env :: "(string \<Rightarrow> string \<Rightarrow> string) \<Rightarrow> env_var list \<Rightarrow> string \<Rightarrow> string option" where
  "container_env secrets evs = map_of (map (\<lambda>v. (ev_name v, case ev_from v of
     Some (SecretKeyRef n k) \<Rightarrow> secrets n k | _ \<Rightarrow> ev_value v)) evs)"

lemma flag_variables:
  "flag_variable ''dbhost'' = ''DBHOST''" "flag_variable ''dbport'' = ''DBPORT''" "flag_variable ''dbuser'' = ''DBUSER''"
  "flag_variable ''dbpassword'' = ''DBPASSWORD''" "flag_variable ''dbname'' = ''DBNAME''" "flag_variable ''mode'' = ''MODE''"
  "flag_variable ''cluster-name'' = ''CLUSTER_NAME''" "flag_variable ''cluster-size'' = ''CLUSTER_SIZE''"
  "flag_variable ''pause'' = ''PAUSE''"
  by code_simp+

lemma flag_values:
  assumes "flag_library L"
  shows "env (flag_variable name) = Some v \<Longrightarrow> flag_String L env name s = Some v"
    "env (flag_variable name) = Some ''5432'' \<Longrightarrow> flag_Int L env name i = Some 5432"
    "env (flag_variable name) = Some ''55432'' \<Longrightarrow> flag_Int L env name i = Some 55432"
    "env (flag_variable name) = Some (show_nat n) \<Longrightarrow> int n < 2 ^ 63 \<Longrightarrow> flag_Int L env name i = Some (int n)"
    "env (flag_variable name) = None \<Longrightarrow> flag_Bool L env name b = Some b"
    "env (flag_variable name) = Some ''true'' \<Longrightarrow> flag_Bool L env name b = Some True"
proof -
  have int: "env (flag_variable name) = Some (show_int k) \<Longrightarrow> - (2 ^ 63) \<le> k \<Longrightarrow> k < 2 ^ 63 \<Longrightarrow>
      flag_Int L env name i = Some k" for k
    using assms unfolding flag_library_def by blast
  have "show_int 5432 = ''5432''" "show_int 55432 = ''55432''" "show_int (int n) = show_nat n"
    by (simp_all add: show_int_def show_nat.simps [of 5432] show_nat.simps [of 55432] show_nat.simps digit_chars)
  with int [of 5432] int [of 55432] int [of "int n"]
  show "env (flag_variable name) = Some ''5432'' \<Longrightarrow> flag_Int L env name i = Some 5432"
    "env (flag_variable name) = Some ''55432'' \<Longrightarrow> flag_Int L env name i = Some 55432"
    "env (flag_variable name) = Some (show_nat n) \<Longrightarrow> int n < 2 ^ 63 \<Longrightarrow> flag_Int L env name i = Some (int n)"
    by simp_all
qed (use assms in \<open>simp_all add: flag_library_def\<close>)

text \<open>
  C23. The operator's jobs run the code meant for them. Whatever the cluster is called, the
  environment a job's container gets is one from which the helper reads flags that all parse,
  select the one function of the job, connect it, as the superuser and with his password, to the
  service of the cluster at the port its step serves at, name the members of the cluster as the
  StatefulSet names its pods, and ask for the pause only when the replicas are synchronised.
\<close>

theorem job_flags:
  assumes "flag_library L" and "int (length (pp_volumes p)) < 2 ^ 63"
  shows "list_all (\<lambda>(j, run).
    case uj_customize j (upgrade_job_pod C p j) of
      None \<Rightarrow> False
    | Some pod \<Rightarrow> (case parse_flags L (container_env secrets (ct_env (hd (ps_containers pod)))) of
        None \<Rightarrow> False
      | Some fl \<Rightarrow>
          conn_string fl = ''host='' @ pp_name p @ '' port='' @ show_int (uj_port j) @ '' user=postgres password='' @
            secrets (pp_name p) ''superuser-password'' @ '' database=postgres sslmode=disable'' \<and>
          fl_pause fl = (uj_mode j = ''preupgrade-sync'') \<and>
          memberNames fl = map (indexed (pp_name p)) [0 ..< length (pp_volumes p)] \<and>
          helper_main (E\<lparr>he_flags := fl\<rparr>) fuel = run (E\<lparr>he_flags := fl\<rparr>)))
    [(preupgradeJob, preupgradefn), (preupgradeSyncJob, \<lambda>E. preupgradesyncfn E fuel), (postupgradeJob, postupgradefn)]"
proof -
  have envs: "ct_env (hd (ps_containers (upgrade_job_pod C p j))) = upgrade_job_envs p j" for j
    by (simp add: upgrade_job_pod_def)
  have pause: "to_upper UpgradeMODEPauseFlag = ''PAUSE''" by code_simp
  have sync: "preupgradeSync_CustomizePodSpec (upgrade_job_pod C p j) \<noteq> None \<and>
      ct_env (hd (ps_containers (the (preupgradeSync_CustomizePodSpec (upgrade_job_pod C p j))))) =
        upgrade_job_envs p j @ [env_val ''PAUSE'' ''true'']" for j
    by (simp add: preupgradeSync_CustomizePodSpec_def upgrade_job_pod_def add_envs_def pause)
  let ?fl = "\<lambda>j b. \<lparr>fl_dbhost = pp_name p, fl_dbport = uj_port j, fl_dbuser = ''postgres'',
      fl_dbpassword = secrets (pp_name p) ''superuser-password'', fl_dbname = ''postgres'', fl_mode = uj_mode j,
      fl_clustername = pp_name p, fl_clustersize = int (length (pp_volumes p)), fl_pause = b\<rparr>"
  have port: "show_int 5432 = ''5432''" "show_int 55432 = ''55432''"
    by (simp_all add: show_int_def show_nat.simps [of 5432] show_nat.simps [of 55432] show_nat.simps digit_chars)
  have parsed: "parse_flags L (container_env secrets (upgrade_job_envs p j @ extra)) = Some (?fl j (extra \<noteq> []))"
    if "uj_port j \<in> {5432, 55432}" "extra \<in> {[], [env_val ''PAUSE'' ''true'']}" for j extra
    using that
    by (auto simp: parse_flags_def flag_variables flag_values [OF assms(1)] flag_values(4) [OF assms(1) _ assms(2)]
        container_env_def upgrade_job_envs_def env_val_def env_from_def upgradeModeEnvVar_def port
        PatroniSuperuserUsername_def secret_Name_def SuperUserPasswordKey_def UpgradeMODEPauseFlag_def)
  have sizes: "memberNames (?fl j b) = map (indexed (pp_name p)) [0 ..< length (pp_volumes p)]" for j b
    by (simp add: memberNames_def)
  have conn: "conn_string (?fl j b) = ''host='' @ pp_name p @ '' port='' @ show_int (uj_port j) @ '' user=postgres password='' @
            secrets (pp_name p) ''superuser-password'' @ '' database=postgres sslmode=disable''" for j b
    by (simp add: conn_string_def)
  have job: "case uj_customize j (upgrade_job_pod C p j) of None \<Rightarrow> False
      | Some pod \<Rightarrow> (case parse_flags L (container_env secrets (ct_env (hd (ps_containers pod)))) of None \<Rightarrow> False
        | Some fl \<Rightarrow>
          conn_string fl = ''host='' @ pp_name p @ '' port='' @ show_int (uj_port j) @ '' user=postgres password='' @
            secrets (pp_name p) ''superuser-password'' @ '' database=postgres sslmode=disable'' \<and>
          fl_pause fl = (uj_mode j = ''preupgrade-sync'') \<and>
          memberNames fl = map (indexed (pp_name p)) [0 ..< length (pp_volumes p)] \<and>
          helper_main (E\<lparr>he_flags := fl\<rparr>) fuel = run (E\<lparr>he_flags := fl\<rparr>))"
    if "uj_customize j (upgrade_job_pod C p j) = Some pod" "ct_env (hd (ps_containers pod)) = upgrade_job_envs p j @ extra"
      "uj_port j \<in> {5432, 55432}" "extra \<in> {[], [env_val ''PAUSE'' ''true'']}"
      "(extra \<noteq> []) = (uj_mode j = ''preupgrade-sync'')"
      and run: "\<And>E. fl_mode (he_flags E) = uj_mode j \<Longrightarrow> helper_main E fuel = run E" for j pod extra run
    using that(1,2,5) by (simp add: parsed [OF that(3,4)] conn sizes run)
  obtain pod where pod: "preupgradeSync_CustomizePodSpec (upgrade_job_pod C p preupgradeSyncJob) = Some pod"
    "ct_env (hd (ps_containers pod)) = upgrade_job_envs p preupgradeSyncJob @ [env_val ''PAUSE'' ''true'']"
    using sync [of preupgradeSyncJob] by auto
  note fields = upgrade_modes PostgresPort_def postgresqlMaintenancePort_def
  show ?thesis unfolding list.pred_inject(2) prod.case
    by (intro conjI list.pred_inject(1)
        job [of preupgradeJob "upgrade_job_pod C p preupgradeJob" "[]"]
        job [of preupgradeSyncJob pod "[env_val ''PAUSE'' ''true'']"]
        job [of postupgradeJob "upgrade_job_pod C p postupgradeJob" "[]"])
      (simp_all add: envs pod [unfolded preupgradeSyncJob_def fields] preupgradeJob_def preupgradeSyncJob_def postupgradeJob_def
        fields helper_main_def modes_def)
qed

text \<open>The flag library as documented, and a cluster of one node.\<close>

definition sample_flag_lib :: flag_lib where
  "sample_flag_lib =
    \<lparr>flag_String = (\<lambda>env name d. Some (case env (flag_variable name) of None \<Rightarrow> d | Some v \<Rightarrow> v)),
     flag_Int = (\<lambda>env name d. case env (flag_variable name) of None \<Rightarrow> Some d | Some v \<Rightarrow> parse_int_literal v),
     flag_Bool = (\<lambda>env name d. case env (flag_variable name) of None \<Rightarrow> Some d | Some v \<Rightarrow> Some (v = ''true''))\<rparr>"

definition sample_upgrading :: patroni where
  "sample_upgrading = sample 15 (sample_status StateReady 14 15 [15])"

lemma job_flags_witness:
  "pp_name sample_upgrading = ''db'' \<and> length (pp_volumes sample_upgrading) = 2 \<and> list_all (\<lambda>(j, run).
    case uj_customize j (upgrade_job_pod (sample_ctx (status_only sample_upgrading)) sample_upgrading j) of
      None \<Rightarrow> False
    | Some pod \<Rightarrow> (case parse_flags sample_flag_lib (container_env (@) (ct_env (hd (ps_containers pod)))) of
        None \<Rightarrow> False
      | Some fl \<Rightarrow>
          conn_string fl = ''host='' @ pp_name sample_upgrading @ '' port='' @ show_int (uj_port j) @
            '' user=postgres password='' @ (pp_name sample_upgrading @ ''superuser-password'') @
            '' database=postgres sslmode=disable'' \<and>
          fl_pause fl = (uj_mode j = ''preupgrade-sync'') \<and>
          memberNames fl = map (indexed (pp_name sample_upgrading)) [0 ..< length (pp_volumes sample_upgrading)] \<and>
          helper_main (sample_henv two_members []\<lparr>he_flags := fl\<rparr>) 4 = run (sample_henv two_members []\<lparr>he_flags := fl\<rparr>)))
    [(preupgradeJob, preupgradefn), (preupgradeSyncJob, \<lambda>E. preupgradesyncfn E 4), (postupgradeJob, postupgradefn)]"
proof (intro conjI)
  show size: "length (pp_volumes sample_upgrading) = 2" and "pp_name sample_upgrading = ''db''"
    by (simp_all add: sample_upgrading_def sample_defs)
  show "list_all (\<lambda>(j, run).
    case uj_customize j (upgrade_job_pod (sample_ctx (status_only sample_upgrading)) sample_upgrading j) of
      None \<Rightarrow> False
    | Some pod \<Rightarrow> (case parse_flags sample_flag_lib (container_env (@) (ct_env (hd (ps_containers pod)))) of
        None \<Rightarrow> False
      | Some fl \<Rightarrow>
          conn_string fl = ''host='' @ pp_name sample_upgrading @ '' port='' @ show_int (uj_port j) @
            '' user=postgres password='' @ (pp_name sample_upgrading @ ''superuser-password'') @
            '' database=postgres sslmode=disable'' \<and>
          fl_pause fl = (uj_mode j = ''preupgrade-sync'') \<and>
          memberNames fl = map (indexed (pp_name sample_upgrading)) [0 ..< length (pp_volumes sample_upgrading)] \<and>
          helper_main (sample_henv two_members []\<lparr>he_flags := fl\<rparr>) 4 = run (sample_henv two_members []\<lparr>he_flags := fl\<rparr>)))
    [(preupgradeJob, preupgradefn), (preupgradeSyncJob, \<lambda>E. preupgradesyncfn E 4), (postupgradeJob, postupgradefn)]"
    by (rule job_flags) (simp_all add: flag_library_def sample_flag_lib_def parse_show_int size)
qed

end
