(* ===== verification/Spec2Isabelle.thy ===== *)
theory Spec2Isabelle
  imports Waiting Settled Convergence Deepcopy Helper_Ends Helper_Work
begin

text \<open>
  A model of the Patroni PostgreSQL operator: a Kubernetes controller that runs PostgreSQL
  clusters under Patroni and takes them through major version upgrades.

  \<^bold>\<open>The program.\<close> \<open>controllers/patronipostgres_controller.go\<close> reconciles one
  \<open>PatroniPostgres\<close> object at a time: it fetches the object, initialises its status, and then
  either runs a step of an upgrade (\<open>private/upgrade\<close>), starts one, or brings the owned objects
  to the desired state (\<open>private/controllers\<close>: claims, secret, config maps, RBAC, services,
  stateful set, network policy, disruption budget). A deferred function writes the status back.
  The jobs of three steps run \<open>cmd/upgrade\<close>, a program of its own, against the databases: it reads
  the old database's configuration, waits until the replicas have caught up, and updates and
  analyzes the new databases. \<open>main.go\<close> reads the command line, registers the types and the
  reconciler with controller-runtime and starts it.

  \<^bold>\<open>State and calls.\<close> A Go function that talks to the API server is a program of
  \<open>Op_Monad\<close>: from a state to a value, a returned error or a panic, and the state it leaves.
  The state (\<open>kstate\<close> of \<open>Kube_Client\<close>) is the instance the handlers mutate through a pointer
  and the history of calls. The API server is an oracle over that history, so what is proved
  holds whatever the cluster and its other actors do between two calls. The records of
  \<open>Kube_Types\<close> are the API objects with the fields the operator sets or reads.

  \<^bold>\<open>Theories.\<close>
  \<^item> \<open>Prelude\<close>, \<open>Op_Monad\<close>: maps, words, effectful programs, their inversion rules, and
    effects as preorders (locale \<open>effect\<close>).
  \<^item> \<open>Go_Strings\<close>, \<open>Go_Utf8\<close>, \<open>Go_Json\<close>: \<open>fmt\<close>, \<open>strings\<close>, \<open>unicode/utf8\<close> and
    \<open>encoding/json\<close> as far as they are used. Bytes that are not valid UTF-8 become U+FFFD when a
    text is printed or read as JSON. The JSON parser takes fuel, twice the length of the text, which \<open>parse_value_fuel\<close> shows to
    be enough; a printed value is read back.
  \<^item> \<open>Kube_Types\<close>, \<open>Api_Types\<close>, \<open>Kube_Client\<close>: the objects and the client. The locale
    \<open>api_object\<close> is the interface of a type the client carries, interpreted for eleven types.
  \<^item> \<open>Image\<close>, \<open>Op_Context\<close>, \<open>Configmap\<close>, \<open>Pvc\<close>, \<open>Access\<close>, \<open>Service\<close>, \<open>StatefulSet\<close>: one
    package each (\<open>Access\<close>: \<open>secret\<close>, \<open>rbac\<close>, \<open>networkpolicy\<close>, \<open>pdb\<close>).
  \<^item> \<open>Upgrade_Jobs\<close>, \<open>Upgrade_Steps\<close>, \<open>Upgrade\<close>: \<open>private/upgrade\<close>; \<open>Reconciler\<close>: the controller.
  \<^item> \<open>Effects\<close>: what each operation may ask of the server and change of the instance.
  \<^item> \<open>Protocol\<close>: the abstract specification, a step relation on four fields of the status, and
    its invariant. \<open>Machine\<close>: the interface of an upgrade handler (locale \<open>upgradehandler\<close>,
    interpreted for all eight), and the steps \<open>Handle\<close> and a reconcile take. \<open>Refinement\<close>: a
    reconcile, and any sequence of reconciles, refines the protocol.
  \<^item> \<open>Client_Props\<close>: the two shapes of a reconcile, proved once for every type of object.
    \<open>Config_Props\<close>, \<open>Storage_Props\<close>, \<open>Access_Props\<close>, \<open>Service_Props\<close>, \<open>Sts_Props\<close>: the functional
    behaviour of each package; the patches of services and stateful sets have the locales
    \<open>service_patching\<close> and \<open>sts_patching\<close>, each interpreted for its two patches.
  \<^item> \<open>Ownership\<close>: every object a reconcile creates has the instance as its owner, but for one
    service, which is owned by a set that has.
    \<open>Permissions\<close>: the access rights the source declares in markers, and that every request of a
    reconcile is within them. \<open>Progress\<close>: a cluster that has done its part (\<open>helpful\<close>) lets each
    step end well (\<open>attains\<close>), so enough such reconciles finish an upgrade.
  \<^item> \<open>Granting\<close>: on a server that refuses nothing no reconciler of an owned object fails or
    panics; the locale \<open>kinded_object\<close> is the interface of a type that travels with its kind.
    \<open>Convergence\<close>: all parts together, from a new instance to a ready cluster of the version asked
    for, in at most eleven reconciles that meet a cluster which does its part (\<open>serving\<close>). The
    starting points (\<open>on_course\<close>) leave out a ready cluster whose recorded offer is out of date:
    the source refuses it on every reconcile.
  \<^item> \<open>Settles\<close>, \<open>Settled\<close>: the objects the server stores, as a map filed by kind, namespace and
    name. The locale \<open>settling\<close> is the contract of a reconciler that reaches its desired state and
    then rests; it is proved of every reconciler and of one after another, the locale
    \<open>stored_object\<close> being the interface of a type that is stored. The server may complete what it
    is sent, so an object is stored as the server answered its write; asked of the server are the
    laws \<open>reads_back\<close> and \<open>completes\<close>.
  \<^item> \<open>Manager\<close>: \<open>main.go\<close>, the registration of the types and the watches of \<open>SetupWithManager\<close>, with
    package \<open>flag\<close> as far as it is used (its parser is structural on the arguments).
    \<open>Waiting\<close>: what a step waits for is watched.
  \<^item> \<open>Deepcopy\<close>: the generated copies of \<open>api/v1alpha1\<close>, over an explicit heap of slices, maps and
    pointers; the locale \<open>deep_copy\<close> is the contract of a copy, interpreted for every type.
  \<^item> \<open>Job_Props\<close>: the locale \<open>upgradejob\<close>, interpreted for the three jobs. \<open>Step_Props\<close>: what each
    step of an upgrade was told and has written when it is done.
  \<^item> \<open>Helper\<close>: \<open>cmd/upgrade\<close>, over an oracle for the databases like the operator's. \<open>Helper_Props\<close>:
    what it may send and how it connects. \<open>Helper_Ends\<close>: it returns once its context is
    cancelled. If it is cancelled after \<open>k\<close> calls, and of the selects after that at most \<open>m\<close>
    pick a ready ticker instead, \<open>k + m + 4\<close> units of fuel are enough: one for each nesting of its
    loops beyond the calls and picks themselves. \<open>Helper_Sync\<close>, \<open>Helper_Work\<close>: what it has done when it succeeds,
    and that the operator's jobs select the right function with the right flags.
  \<^item> \<open>Samples\<close>: the concrete values the witnesses are evaluated at.

  \<^bold>\<open>Parameters.\<close> \<open>kube_env\<close> holds what is not under \<open>src\<close>: the API server, \<open>SetOwnerReference\<close>
  of controller-runtime, the order in which Go visits a map, the reprinting of a \<open>float64\<close>, the
  operator's image flag and the embedded shell scripts. \<open>henv\<close> holds what the helper calls: the
  database driver and its reading of a connection string, the HTTP client, timers and standard
  output, and the order in which goroutines run, which share nothing but a counter or a channel;
  \<open>flag_lib\<close> is \<open>namsral/flag\<close>. \<open>start_env\<close> holds what \<open>main.go\<close> calls of controller-runtime, and the
  flags its logger adds; \<open>runtime\<close> is its event delivery, whose laws are \<open>runtime_laws\<close>. \<open>klib\<close> holds
  the deep copies of the API library's own types.

  \<^bold>\<open>Not modelled.\<close> The shell scripts and manifests, logging, the tags that name fields in
  JSON, the signal handler of the helper (the oracle says when the context is done) and the
  cancellation of the operator's own requests.
\<close>

end
